(* ===== verification/Prelude.thy ===== *)
theory Prelude
  imports "HOL-Library.Word"
begin

unbundle bit_operations_syntax

text \<open>
  Shared vocabulary of the development.

  \<^item> machine integers and byte strings (\<open>u8\<close>, \<open>u32\<close>, \<open>u64\<close>, \<open>bytes\<close>, \<open>lit\<close> for byte-string
    literals);
  \<^item> \<open>result\<close>: what a Rust call can do, return a value, return an error, or panic;
  \<^item> \<open>eff\<close>: the same for a call that also reads the outside world (random numbers, the clock),
    whose state is passed along explicitly;
  \<^item> Rust slices and fixed-size arrays, whose length checks panic;
  \<^item> big-endian integers (\<open>to_be_bytes\<close>, \<open>from_be_bytes\<close>) and decimal numerals;
  \<^item> the locale \<open>codec\<close>: the contract of an encoder and its decoder.
\<close>

named_theorems result_simps \<open>evaluation of results and effects\<close>
named_theorems len_simps \<open>lengths of wire fields\<close>

subsection \<open>Integers and bytes\<close>

type_synonym u8 = "8 word"
type_synonym u32 = "32 word"
type_synonym u64 = "64 word"
type_synonym bytes = "u8 list"

text \<open>A counter below some bound does not wrap when incremented.\<close>

lemma word_less_inc:
  fixes i b :: "'a :: len word"
  assumes "i < b"
  shows "i < i + 1" "unat (i + 1) = unat i + 1"
proof -
  have "unat i + 1 \<le> unat b" using assms by (simp add: word_less_nat_alt)
  also have "unat b < 2 ^ LENGTH('a)" by (rule unsigned_less)
  finally show u: "unat (i + 1) = unat i + 1" by (simp add: unat_word_ariths(1))
  then show "i < i + 1" by (simp add: word_less_nat_alt)
qed

text \<open>
  A Rust \<open>String\<close> is its UTF-8 bytes, here a \<open>string\<close>; \<open>lit s\<close> are the bytes of a string
  (\<open>s.as_bytes()\<close>) or of a byte-string literal \<open>b"..."\<close>.
\<close>

definition lit :: "string \<Rightarrow> bytes" where
  "lit s = map (\<lambda>c. word_of_nat (of_char c)) s"

lemma length_lit [simp, len_simps]: "length (lit s) = length s"
  by (simp add: lit_def)

lemma lit_Nil [simp]: "lit [] = []"
  by (simp add: lit_def)

lemma lit_Cons [simp]: "lit (c # s) = word_of_nat (of_char c) # lit s"
  by (simp add: lit_def)

lemma lit_append [simp]: "lit (s @ t) = lit s @ lit t"
  by (simp add: lit_def)

lemma u8_of_char_eq_iff:
  "(word_of_nat (of_char c) :: u8) = word_of_nat (of_char d) \<longleftrightarrow> c = d"
proof -
  have c: "(of_char c :: nat) < 256" and d: "(of_char d :: nat) < 256"
    by (rule nat_of_char_less_256)+
  have "(word_of_nat (of_char c) :: u8) = word_of_nat (of_char d)
    \<longleftrightarrow> (of_char c :: nat) mod 256 = of_char d mod 256"
    by (simp add: word_of_nat_eq_iff take_bit_eq_mod)
  then show ?thesis using c d by simp
qed

lemma lit_eq_iff [simp]: "lit s = lit t \<longleftrightarrow> s = t"
proof
  assume "lit s = lit t"
  then show "s = t"
    by (induction s arbitrary: t) (case_tac t; auto simp: u8_of_char_eq_iff)+
qed simp

subsection \<open>Results, panics, effects\<close>

datatype ('e, 'a) result = Ok 'a | Err 'e | Panic

text \<open>The \<open>?\<close> operator, \<open>map_err\<close>, and \<open>Option::ok_or\<close>.\<close>

fun rbind :: "('e, 'a) result \<Rightarrow> ('a \<Rightarrow> ('e, 'b) result) \<Rightarrow> ('e, 'b) result" where
  "rbind (Ok x) f = f x"
| "rbind (Err e) f = Err e"
| "rbind Panic f = Panic"

fun map_err :: "('e \<Rightarrow> 'd) \<Rightarrow> ('e, 'a) result \<Rightarrow> ('d, 'a) result" where
  "map_err h (Ok x) = Ok x"
| "map_err h (Err e) = Err (h e)"
| "map_err h Panic = Panic"

fun ok_or :: "'e \<Rightarrow> 'a option \<Rightarrow> ('e, 'a) result" where
  "ok_or e (Some x) = Ok x"
| "ok_or e None = Err e"

text \<open>\<open>Result::expect\<close> and \<open>Option::expect\<close>: panic instead of an error.\<close>

fun expect :: "'a option \<Rightarrow> ('e, 'a) result" where
  "expect (Some x) = Ok x"
| "expect None = Panic"

fun expect_ok :: "('d, 'a) result \<Rightarrow> ('e, 'a) result" where
  "expect_ok (Ok x) = Ok x"
| "expect_ok (Err e) = Panic"
| "expect_ok Panic = Panic"

fun is_ok :: "('e, 'a) result \<Rightarrow> bool" where
  "is_ok (Ok _) = True"
| "is_ok _ = False"

lemma rbind_eq_Ok_iff: "rbind m f = Ok y \<longleftrightarrow> (\<exists>x. m = Ok x \<and> f x = Ok y)"
  by (cases m) auto

lemma rbind_eq_Err_iff: "rbind m f = Err e \<longleftrightarrow> m = Err e \<or> (\<exists>x. m = Ok x \<and> f x = Err e)"
  by (cases m) auto

lemma rbind_eq_Panic_iff: "rbind m f = Panic \<longleftrightarrow> m = Panic \<or> (\<exists>x. m = Ok x \<and> f x = Panic)"
  by (cases m) auto

lemma map_err_eq_Ok_iff [simp]: "map_err h m = Ok x \<longleftrightarrow> m = Ok x"
  by (cases m) auto

lemma map_err_eq_Err_iff: "map_err h m = Err d \<longleftrightarrow> (\<exists>e. m = Err e \<and> d = h e)"
  by (cases m) auto

lemma map_err_eq_Panic_iff [simp]: "map_err h m = Panic \<longleftrightarrow> m = Panic"
  by (cases m) auto

lemma ok_or_eq_Ok_iff [simp]: "ok_or e opt = Ok x \<longleftrightarrow> opt = Some x"
  by (cases opt) auto

lemma ok_or_eq_Err_iff [simp]: "ok_or e opt = Err d \<longleftrightarrow> opt = None \<and> d = e"
  by (cases opt) auto

lemma ok_or_neq_Panic [simp]: "ok_or e opt \<noteq> Panic"
  by (cases opt) auto

lemma expect_eq_Ok_iff [simp]: "expect opt = Ok x \<longleftrightarrow> opt = Some x"
  by (cases opt) auto

lemma expect_neq_Err [simp]: "expect opt \<noteq> Err e"
  by (cases opt) auto

lemma expect_eq_Panic_iff [simp]: "expect opt = Panic \<longleftrightarrow> opt = None"
  by (cases opt) auto

lemma expect_ok_eq_Ok_iff [simp]: "expect_ok m = Ok x \<longleftrightarrow> m = Ok x"
  by (cases m) auto

lemma expect_ok_neq_Err [simp]: "expect_ok m \<noteq> Err e"
  by (cases m) auto

lemmas result_iffs = rbind_eq_Ok_iff rbind_eq_Err_iff rbind_eq_Panic_iff map_err_eq_Err_iff

text \<open>
  A computation that also reads the world (the operating system's random generator and clock).
  The state \<open>'w\<close> of the world is threaded through every call, errors included.
\<close>

type_synonym ('w, 'e, 'a) eff = "'w \<Rightarrow> ('e, 'a) result \<times> 'w"

definition lift :: "('e, 'a) result \<Rightarrow> ('w, 'e, 'a) eff" where
  "lift m w = (m, w)"

text \<open>An effectful call that cannot fail.\<close>

definition call :: "('w \<Rightarrow> 'a \<times> 'w) \<Rightarrow> ('w, 'e, 'a) eff" where
  "call f w = (case f w of (x, w') \<Rightarrow> (Ok x, w'))"

definition ebind :: "('w, 'e, 'a) eff \<Rightarrow> ('a \<Rightarrow> ('w, 'e, 'b) eff) \<Rightarrow> ('w, 'e, 'b) eff" where
  "ebind m f w =
     (case m w of
        (Ok x, w') \<Rightarrow> f x w'
      | (Err e, w') \<Rightarrow> (Err e, w')
      | (Panic, w') \<Rightarrow> (Panic, w'))"

definition emap_err :: "('e \<Rightarrow> 'd) \<Rightarrow> ('w, 'e, 'a) eff \<Rightarrow> ('w, 'd, 'a) eff" where
  "emap_err h m w = (case m w of (r, w') \<Rightarrow> (map_err h r, w'))"

lemma lift_apply [simp, result_simps]: "lift m w = (m, w)"
  by (simp add: lift_def)

lemma ebind_lift [simp, result_simps]:
  "ebind (lift (Ok x)) f = f x"
  "ebind (lift (Err e)) f w = (Err e, w)"
  "ebind (lift Panic) f w = (Panic, w)"
  by (simp_all add: ebind_def fun_eq_iff)

lemma ebind_assoc: "ebind (ebind m f) g = ebind m (\<lambda>x. ebind (f x) g)"
  by (auto simp: ebind_def fun_eq_iff split: prod.splits result.splits)

lemma ebind_Ok [result_simps]: "m w = (Ok x, w') \<Longrightarrow> ebind m f w = f x w'"
  by (simp add: ebind_def)

lemma ebind_Err [result_simps]: "m w = (Err e, w') \<Longrightarrow> ebind m f w = (Err e, w')"
  by (simp add: ebind_def)

lemma ebind_call [result_simps]: "g w = (x, w') \<Longrightarrow> ebind (call g) f w = f x w'"
  by (simp add: ebind_def call_def)

lemma call_apply [result_simps]: "g w = (x, w') \<Longrightarrow> call g w = (Ok x, w')"
  by (simp add: call_def)

lemma emap_err_Ok [result_simps]: "m w = (Ok x, w') \<Longrightarrow> emap_err h m w = (Ok x, w')"
  by (simp add: emap_err_def)

lemma emap_err_Err [result_simps]: "m w = (Err e, w') \<Longrightarrow> emap_err h m w = (Err (h e), w')"
  by (simp add: emap_err_def)

lemma ebind_eq_Ok_iff:
  "ebind m f w = (Ok y, w'') \<longleftrightarrow> (\<exists>x w'. m w = (Ok x, w') \<and> f x w' = (Ok y, w''))"
  by (auto simp: ebind_def split: prod.splits result.splits)

lemma ebind_eq_Err_iff:
  "ebind m f w = (Err e, w'') \<longleftrightarrow>
     m w = (Err e, w'') \<or> (\<exists>x w'. m w = (Ok x, w') \<and> f x w' = (Err e, w''))"
  by (auto simp: ebind_def split: prod.splits result.splits)

lemma ebind_eq_Panic_iff:
  "ebind m f w = (Panic, w'') \<longleftrightarrow>
     m w = (Panic, w'') \<or> (\<exists>x w'. m w = (Ok x, w') \<and> f x w' = (Panic, w''))"
  by (auto simp: ebind_def split: prod.splits result.splits)

lemma call_eq_iff: "call g w = (r, w') \<longleftrightarrow> (\<exists>x. r = Ok x \<and> g w = (x, w'))"
  by (auto simp: call_def split: prod.splits)

lemma emap_err_eq_iff: "emap_err h m w = (r, w') \<longleftrightarrow> (\<exists>r0. m w = (r0, w') \<and> map_err h r0 = r)"
  by (auto simp: emap_err_def split: prod.splits)

lemmas eff_iffs = ebind_eq_Ok_iff ebind_eq_Err_iff ebind_eq_Panic_iff call_eq_iff emap_err_eq_iff

text \<open>
  Methods with \<open>&mut self\<close>: the state of such a computation is the object, or the object paired
  with the world. \<open>rd\<close> and \<open>upd\<close> read and assign the object; \<open>on_self\<close> and \<open>on_world\<close> run a
  computation on one component of the pair.
\<close>

definition rd :: "('s \<Rightarrow> 'a) \<Rightarrow> ('s, 'e, 'a) eff" where
  "rd f s = (Ok (f s), s)"

definition upd :: "('s \<Rightarrow> 's) \<Rightarrow> ('s, 'e, unit) eff" where
  "upd f s = (Ok (), f s)"

definition on_self :: "('s, 'e, 'a) eff \<Rightarrow> ('s \<times> 'w, 'e, 'a) eff" where
  "on_self m sw = (case m (fst sw) of (r, s') \<Rightarrow> (r, (s', snd sw)))"

definition on_world :: "('w, 'e, 'a) eff \<Rightarrow> ('s \<times> 'w, 'e, 'a) eff" where
  "on_world m sw = (case m (snd sw) of (r, w') \<Rightarrow> (r, (fst sw, w')))"

lemma ebind_rd [simp, result_simps]: "ebind (rd f) g s = g (f s) s"
  by (simp add: ebind_def rd_def)

lemma ebind_upd [simp, result_simps]: "ebind (upd f) g s = g () (f s)"
  by (simp add: ebind_def upd_def)

lemma ebind_on_self_rd [simp, result_simps]: "ebind (on_self (rd f)) g (s, w) = g (f s) (s, w)"
  by (simp add: ebind_def on_self_def rd_def)

lemma ebind_on_self_upd [simp, result_simps]: "ebind (on_self (upd f)) g (s, w) = g () (f s, w)"
  by (simp add: ebind_def on_self_def upd_def)

lemma on_self_upd [simp, result_simps]: "on_self (upd f) (s, w) = (Ok (), (f s, w))"
  by (simp add: on_self_def upd_def)

lemma ebind_on_world [result_simps]:
  "m w = (Ok x, w') \<Longrightarrow> ebind (on_world m) g (s, w) = g x (s, w')"
  "m w = (Err e, w') \<Longrightarrow> ebind (on_world m) g (s, w) = (Err e, (s, w'))"
  "m w = (Panic, w') \<Longrightarrow> ebind (on_world m) g (s, w) = (Panic, (s, w'))"
  by (simp_all add: ebind_def on_world_def)

lemma on_world_eq_iff: "on_world m (s, w) = (r, sw') \<longleftrightarrow> (\<exists>w'. m w = (r, w') \<and> sw' = (s, w'))"
  by (auto simp: on_world_def split: prod.splits)

subsection \<open>Slices and fixed-size arrays\<close>

text \<open>
  \<open>&xs[a..b]\<close> panics when the range is not inside the slice; \<open>copy_from_slice\<close> into a
  \<open>[u8; n]\<close> and \<open>from_slice\<close> of a fixed-size array panic when the length is not \<open>n\<close>.
\<close>

definition slice :: "bytes \<Rightarrow> nat \<Rightarrow> nat \<Rightarrow> ('e, bytes) result" where
  "slice xs a b = (if a \<le> b \<and> b \<le> length xs then Ok (take (b - a) (drop a xs)) else Panic)"

definition to_array :: "nat \<Rightarrow> bytes \<Rightarrow> ('e, bytes) result" where
  "to_array n xs = (if length xs = n then Ok xs else Panic)"

lemma slice_Ok [result_simps]:
  "a \<le> b \<Longrightarrow> b \<le> length xs \<Longrightarrow> slice xs a b = Ok (take (b - a) (drop a xs))"
  by (simp add: slice_def)

lemma slice_eq_Ok_iff:
  "slice xs a b = Ok ys \<longleftrightarrow> a \<le> b \<and> b \<le> length xs \<and> ys = take (b - a) (drop a xs)"
  by (auto simp: slice_def)

lemma slice_neq_Err [simp]: "slice xs a b \<noteq> Err e"
  by (simp add: slice_def)

lemma slice_first [result_simps]: "length xs = n \<Longrightarrow> slice (xs @ ys) 0 n = Ok xs"
  by (simp add: slice_def)

lemma slice_rest [result_simps]:
  "length xs = n \<Longrightarrow> m = n + length ys \<Longrightarrow> slice (xs @ ys) n m = Ok ys"
  by (simp add: slice_def)

lemma slice_middle [result_simps]:
  "length xs = n \<Longrightarrow> m = n + length ys \<Longrightarrow> slice (xs @ ys @ zs) n m = Ok ys"
  by (simp add: slice_def)

lemma to_array_Ok [result_simps]: "length xs = n \<Longrightarrow> to_array n xs = Ok xs"
  by (simp add: to_array_def)

lemma to_array_eq_Ok_iff: "to_array n xs = Ok ys \<longleftrightarrow> length xs = n \<and> ys = xs"
  by (auto simp: to_array_def)

lemma to_array_neq_Err [simp]: "to_array n xs \<noteq> Err e"
  by (simp add: to_array_def)

lemma to_array_eq_Panic_iff: "to_array n xs = Panic \<longleftrightarrow> length xs \<noteq> n"
  by (simp add: to_array_def)

text \<open>A concatenation whose first parts have known lengths splits in one way only.\<close>

lemma append_eq_append_length:
  "length xs = length us \<Longrightarrow> xs @ ys = us @ vs \<longleftrightarrow> xs = us \<and> ys = vs"
  by simp

lemma take_drop_3: "xs = take n xs @ take m (drop n xs) @ drop (n + m) xs"
  by (metis append_take_drop_id drop_drop add.commute)

subsection \<open>Codecs\<close>

text \<open>
  The contract of an encoder and a decoder: on the values it is meant for (\<open>valid\<close>), decoding an
  encoding gives the value back. A codec is canonical when the decoder accepts only what the
  encoder writes.
\<close>

locale codec =
  fixes enc :: "'a \<Rightarrow> 'b" and dec :: "'b \<Rightarrow> 'a option" and valid :: "'a \<Rightarrow> bool"
  assumes dec_enc: "valid x \<Longrightarrow> dec (enc x) = Some x"
begin

lemma enc_inject: "valid x \<Longrightarrow> valid y \<Longrightarrow> enc x = enc y \<Longrightarrow> x = y"
  by (metis dec_enc option.inject)

lemma inj_on_enc: "inj_on enc {x. valid x}"
  by (rule inj_onI) (auto intro: enc_inject)

end

locale canonical_codec = codec +
  assumes dec_valid: "dec y = Some x \<Longrightarrow> valid x"
    and enc_dec: "dec y = Some x \<Longrightarrow> enc x = y"
begin

lemma dec_eq_Some_iff: "dec y = Some x \<longleftrightarrow> valid x \<and> enc x = y"
  using dec_enc dec_valid enc_dec by blast

lemma dec_inject: "dec y = Some x \<Longrightarrow> dec z = Some x \<Longrightarrow> y = z"
  using enc_dec by blast

end

subsection \<open>Big-endian integers\<close>

text \<open>\<open>be_bytes n x\<close>: the \<open>n\<close> low bytes of \<open>x\<close>, most significant byte first.\<close>

fun be_bytes :: "nat \<Rightarrow> nat \<Rightarrow> bytes" where
  "be_bytes 0 x = []"
| "be_bytes (Suc n) x = be_bytes n (x div 256) @ [word_of_nat x]"

lemma be_bytes_numeral:
  "be_bytes (numeral k) x = be_bytes (pred_numeral k) (x div 256) @ [word_of_nat x]"
  by (subst numeral_eq_Suc) (rule be_bytes.simps(2))

definition of_be :: "bytes \<Rightarrow> nat" where
  "of_be bs = foldl (\<lambda>a b. 256 * a + unat b) 0 bs"

lemma of_be_Nil [simp]: "of_be [] = 0"
  by (simp add: of_be_def)

lemma of_be_snoc [simp]: "of_be (bs @ [b]) = 256 * of_be bs + unat b"
  by (simp add: of_be_def)

lemma length_be_bytes [simp, len_simps]: "length (be_bytes n x) = n"
  by (induction n arbitrary: x) auto

lemma of_be_be_bytes: "x < 256 ^ n \<Longrightarrow> of_be (be_bytes n x) = x"
proof (induction n arbitrary: x)
  case (Suc n)
  then have "x div 256 < 256 ^ n" by (simp add: less_mult_imp_div_less mult.commute)
  with Suc.IH show ?case by (simp add: unat_of_nat mult.commute)
qed simp

lemma of_be_less: "of_be bs < 256 ^ length bs"
proof (induction bs rule: rev_induct)
  case (snoc b bs)
  have "unat b < 256" using unsigned_less [of b, where ?'a = nat] by simp
  with snoc show ?case by simp
qed simp

lemma be_bytes_of_be: "length bs = n \<Longrightarrow> be_bytes n (of_be bs) = bs"
proof (induction bs arbitrary: n rule: rev_induct)
  case (snoc b bs)
  have "unat b < 256" using unsigned_less [of b, where ?'a = nat] by simp
  then have d: "(256 * of_be bs + unat b) div 256 = of_be bs" by simp
  have z: "(256 :: u8) = 0" by simp
  have "(word_of_nat (256 * of_be bs + unat b) :: u8) = 256 * word_of_nat (of_be bs) + b" by simp
  also have "\<dots> = b" by (simp only: z mult_zero_left add_0_left)
  finally have "(word_of_nat (256 * of_be bs + unat b) :: u8) = b" .
  with d snoc show ?case by auto
qed simp

text \<open>\<open>u64::to_be_bytes\<close>, \<open>u32::to_be_bytes\<close> and their inverses.\<close>

definition u64_be :: "u64 \<Rightarrow> bytes" where
  "u64_be x = be_bytes 8 (unat x)"

definition u32_be :: "u32 \<Rightarrow> bytes" where
  "u32_be x = be_bytes 4 (unat x)"

definition u64_from_be :: "bytes \<Rightarrow> u64" where
  "u64_from_be bs = word_of_nat (of_be bs)"

definition u32_from_be :: "bytes \<Rightarrow> u32" where
  "u32_from_be bs = word_of_nat (of_be bs)"

lemma length_u64_be [simp, len_simps]: "length (u64_be x) = 8"
  by (simp add: u64_be_def)

lemma length_u32_be [simp, len_simps]: "length (u32_be x) = 4"
  by (simp add: u32_be_def)

lemma u64_from_be_be [simp]: "u64_from_be (u64_be x) = x"
proof -
  have "unat x < 256 ^ 8" using unsigned_less [of x, where ?'a = nat] by simp
  then show ?thesis by (simp add: u64_from_be_def u64_be_def of_be_be_bytes)
qed

lemma u32_from_be_be [simp]: "u32_from_be (u32_be x) = x"
proof -
  have "unat x < 256 ^ 4" using unsigned_less [of x, where ?'a = nat] by simp
  then show ?thesis by (simp add: u32_from_be_def u32_be_def of_be_be_bytes)
qed

lemma u64_be_from_be: "length bs = 8 \<Longrightarrow> u64_be (u64_from_be bs) = bs"
  using of_be_less [of bs] by (simp add: u64_be_def u64_from_be_def unat_of_nat be_bytes_of_be)

lemma u32_be_from_be: "length bs = 4 \<Longrightarrow> u32_be (u32_from_be bs) = bs"
  using of_be_less [of bs] by (simp add: u32_be_def u32_from_be_def unat_of_nat be_bytes_of_be)

interpretation be64: canonical_codec u64_be
    "\<lambda>bs. if length bs = 8 then Some (u64_from_be bs) else None" "\<lambda>_. True"
  by unfold_locales (auto simp: u64_be_from_be split: if_splits)

interpretation be32: canonical_codec u32_be
    "\<lambda>bs. if length bs = 4 then Some (u32_from_be bs) else None" "\<lambda>_. True"
  by unfold_locales (auto simp: u32_be_from_be split: if_splits)

lemma u64_be_eq_iff [simp]: "u64_be x = u64_be y \<longleftrightarrow> x = y"
  by (auto intro: be64.enc_inject)

lemma u32_be_eq_iff [simp]: "u32_be x = u32_be y \<longleftrightarrow> x = y"
  by (auto intro: be32.enc_inject)

end
