(* ===== verification/Crypto.thy ===== *)
theory Crypto
  imports Prelude
begin

text \<open>
  The third-party primitives the crate binds (\<open>rand\<close>, \<open>x25519-dalek\<close>, \<open>ml-kem\<close>, \<open>hkdf\<close> with
  \<open>sha2\<close>, \<open>aes-gcm\<close>, \<open>hmac\<close>). None of them is defined here: they are the fields of a record
  that every definition of the model takes as an argument. \<open>crypto_ok\<close> collects what the crates
  document about lengths, totality and correctness; no secrecy or collision-freeness is assumed.

  A small concrete instance, \<open>toy\<close>, satisfies \<open>crypto_ok\<close>. It is only there so that witnesses
  can evaluate: no property of the development rests on it.
\<close>

subsection \<open>The primitives as parameters\<close>

record 'w crypto =
  fill_bytes :: "nat \<Rightarrow> 'w \<Rightarrow> bytes \<times> 'w"
    \<comment> \<open>\<open>OsRng.fill_bytes\<close> of a buffer of the given length\<close>
  x25519_random :: "'w \<Rightarrow> bytes \<times> 'w"
    \<comment> \<open>\<open>StaticSecret::random_from_rng\<close>, as its \<open>to_bytes\<close>\<close>
  x25519_public :: "bytes \<Rightarrow> bytes"
    \<comment> \<open>\<open>PublicKey::from(&StaticSecret)\<close>\<close>
  x25519_dh :: "bytes \<Rightarrow> bytes \<Rightarrow> bytes"
    \<comment> \<open>\<open>StaticSecret::diffie_hellman\<close>\<close>
  mlkem_generate :: "'w \<Rightarrow> (bytes \<times> bytes) \<times> 'w"
    \<comment> \<open>\<open>MlKem768::generate\<close>: decapsulation key, encapsulation key\<close>
  mlkem_encapsulate :: "bytes \<Rightarrow> 'w \<Rightarrow> (bytes \<times> bytes) option \<times> 'w"
    \<comment> \<open>\<open>encapsulate\<close>: ciphertext, shared secret\<close>
  mlkem_decapsulate :: "bytes \<Rightarrow> bytes \<Rightarrow> bytes option"
  hkdf_sha256 :: "bytes \<Rightarrow> bytes \<Rightarrow> bytes \<Rightarrow> nat \<Rightarrow> bytes option"
    \<comment> \<open>salt, input key material, info, output length\<close>
  aes_gcm_encrypt :: "bytes \<Rightarrow> bytes \<Rightarrow> bytes \<Rightarrow> bytes \<Rightarrow> bytes option"
    \<comment> \<open>key, nonce, associated data, plaintext\<close>
  aes_gcm_decrypt :: "bytes \<Rightarrow> bytes \<Rightarrow> bytes \<Rightarrow> bytes \<Rightarrow> bytes option"
  hmac_sha256 :: "bytes \<Rightarrow> bytes \<Rightarrow> bytes"
    \<comment> \<open>key, message\<close>

text \<open>The longest plaintext and associated data \<open>aes-gcm\<close> encrypts (\<open>P_MAX\<close>, \<open>A_MAX\<close>).\<close>

definition GCM_MAX :: nat where
  "GCM_MAX = 2 ^ 36"

text \<open>The longest output HKDF-SHA256 expands to (RFC 5869: 255 blocks of 32 bytes).\<close>

definition HKDF_MAX :: nat where
  "HKDF_MAX = 255 * 32"

subsection \<open>Documented behaviour\<close>

text \<open>Lengths of random draws.\<close>

definition rng_ok :: "('w, 'z) crypto_scheme \<Rightarrow> bool" where
  "rng_ok C \<longleftrightarrow> (\<forall>n w. length (fst (fill_bytes C n w)) = n)"

text \<open>X25519 (RFC 7748): 32-byte keys and secrets, and both parties compute one secret.\<close>

definition x25519_ok :: "('w, 'z) crypto_scheme \<Rightarrow> bool" where
  "x25519_ok C \<longleftrightarrow>
     (\<forall>w. length (fst (x25519_random C w)) = 32) \<and>
     (\<forall>s. length s = 32 \<longrightarrow> length (x25519_public C s) = 32) \<and>
     (\<forall>s p. length s = 32 \<longrightarrow> length p = 32 \<longrightarrow> length (x25519_dh C s p) = 32) \<and>
     (\<forall>s t. length s = 32 \<longrightarrow> length t = 32 \<longrightarrow>
        x25519_dh C s (x25519_public C t) = x25519_dh C t (x25519_public C s))"

text \<open>
  ML-KEM-768 (FIPS 203): field lengths; encapsulation to a generated key succeeds and decapsulates
  to the same secret (decapsulation failure, of probability below \<open>2 ^ - 164\<close>, is idealised away);
  decapsulation under a generated key is total (implicit rejection).
\<close>

definition mlkem_generated :: "('w, 'z) crypto_scheme \<Rightarrow> bytes \<Rightarrow> bytes \<Rightarrow> bool" where
  "mlkem_generated C dk ek \<longleftrightarrow> (\<exists>w. fst (mlkem_generate C w) = (dk, ek))"

definition mlkem_lengths :: "('w, 'z) crypto_scheme \<Rightarrow> bool" where
  "mlkem_lengths C \<longleftrightarrow>
     (\<forall>dk ek. mlkem_generated C dk ek \<longrightarrow> length dk = 2400 \<and> length ek = 1184) \<and>
     (\<forall>ek v ct ss. length ek = 1184 \<longrightarrow> fst (mlkem_encapsulate C ek v) = Some (ct, ss) \<longrightarrow>
        length ct = 1088 \<and> length ss = 32) \<and>
     (\<forall>dk ct ss. length dk = 2400 \<longrightarrow> length ct = 1088 \<longrightarrow> mlkem_decapsulate C dk ct = Some ss \<longrightarrow>
        length ss = 32)"

definition mlkem_sound :: "('w, 'z) crypto_scheme \<Rightarrow> bool" where
  "mlkem_sound C \<longleftrightarrow>
     (\<forall>dk ek v. mlkem_generated C dk ek \<longrightarrow>
        (\<exists>ct ss. fst (mlkem_encapsulate C ek v) = Some (ct, ss) \<and> mlkem_decapsulate C dk ct = Some ss))"

definition mlkem_total :: "('w, 'z) crypto_scheme \<Rightarrow> bool" where
  "mlkem_total C \<longleftrightarrow>
     (\<forall>dk ek ct. mlkem_generated C dk ek \<longrightarrow> length ct = 1088 \<longrightarrow> mlkem_decapsulate C dk ct \<noteq> None)"

definition mlkem_ok :: "('w, 'z) crypto_scheme \<Rightarrow> bool" where
  "mlkem_ok C \<longleftrightarrow> mlkem_lengths C \<and> mlkem_sound C \<and> mlkem_total C"

text \<open>HKDF-SHA256: every output of a valid length.\<close>

definition hkdf_ok :: "('w, 'z) crypto_scheme \<Rightarrow> bool" where
  "hkdf_ok C \<longleftrightarrow>
     (\<forall>salt ikm info n. n \<le> HKDF_MAX \<longrightarrow>
        (\<exists>okm. hkdf_sha256 C salt ikm info n = Some okm \<and> length okm = n))"

text \<open>
  AES-256-GCM: encryption under a 32-byte key and a 12-byte nonce is total up to the size bounds,
  adds a 16-byte tag, and decrypts back; what decrypts carries a tag.
\<close>

definition aead_ok :: "('w, 'z) crypto_scheme \<Rightarrow> bool" where
  "aead_ok C \<longleftrightarrow>
     (\<forall>k n a m. length k = 32 \<longrightarrow> length n = 12 \<longrightarrow> length m \<le> GCM_MAX \<longrightarrow> length a \<le> GCM_MAX \<longrightarrow>
        (\<exists>c. aes_gcm_encrypt C k n a m = Some c)) \<and>
     (\<forall>k n a m c. aes_gcm_encrypt C k n a m = Some c \<longrightarrow>
        length c = length m + 16 \<and> aes_gcm_decrypt C k n a c = Some m) \<and>
     (\<forall>k n a c m. aes_gcm_decrypt C k n a c = Some m \<longrightarrow> length c = length m + 16)"

definition hmac_ok :: "('w, 'z) crypto_scheme \<Rightarrow> bool" where
  "hmac_ok C \<longleftrightarrow> (\<forall>k m. length (hmac_sha256 C k m) = 32)"

definition crypto_ok :: "('w, 'z) crypto_scheme \<Rightarrow> bool" where
  "crypto_ok C \<longleftrightarrow> rng_ok C \<and> x25519_ok C \<and> mlkem_ok C \<and> hkdf_ok C \<and> aead_ok C \<and> hmac_ok C"

lemma crypto_okD:
  "crypto_ok C \<Longrightarrow> rng_ok C" "crypto_ok C \<Longrightarrow> x25519_ok C" "crypto_ok C \<Longrightarrow> mlkem_ok C"
  "crypto_ok C \<Longrightarrow> hkdf_ok C" "crypto_ok C \<Longrightarrow> aead_ok C" "crypto_ok C \<Longrightarrow> hmac_ok C"
  by (simp_all add: crypto_ok_def)

lemma fill_bytes_length:
  "crypto_ok C \<Longrightarrow> fill_bytes C n w = (bs, w') \<Longrightarrow> length bs = n"
  using crypto_okD(1) [of C] unfolding rng_ok_def by (metis fst_conv)

lemma x25519_random_length:
  "crypto_ok C \<Longrightarrow> x25519_random C w = (s, w') \<Longrightarrow> length s = 32"
  using crypto_okD(2) [of C] unfolding x25519_ok_def by (metis fst_conv)

lemma x25519_public_length: "crypto_ok C \<Longrightarrow> length s = 32 \<Longrightarrow> length (x25519_public C s) = 32"
  by (simp add: crypto_ok_def x25519_ok_def)

lemma x25519_dh_length:
  "crypto_ok C \<Longrightarrow> length s = 32 \<Longrightarrow> length p = 32 \<Longrightarrow> length (x25519_dh C s p) = 32"
  by (simp add: crypto_ok_def x25519_ok_def)

lemma x25519_agree:
  "crypto_ok C \<Longrightarrow> length s = 32 \<Longrightarrow> length t = 32 \<Longrightarrow>
   x25519_dh C s (x25519_public C t) = x25519_dh C t (x25519_public C s)"
  using crypto_okD(2) [of C] unfolding x25519_ok_def by blast

lemma mlkem_okD:
  "crypto_ok C \<Longrightarrow> mlkem_lengths C" "crypto_ok C \<Longrightarrow> mlkem_sound C" "crypto_ok C \<Longrightarrow> mlkem_total C"
  by (simp_all add: crypto_ok_def mlkem_ok_def)

lemma mlkem_generatedI: "mlkem_generate C w = ((dk, ek), w') \<Longrightarrow> mlkem_generated C dk ek"
  unfolding mlkem_generated_def by (metis fst_conv)

lemma mlkem_generated_lengths:
  assumes "crypto_ok C" "mlkem_generated C dk ek"
  shows "length dk = 2400" "length ek = 1184"
  using mlkem_okD(1) [OF assms(1)] assms(2) unfolding mlkem_lengths_def by blast+

lemma mlkem_correct:
  assumes "crypto_ok C" "mlkem_generated C dk ek"
  shows "\<exists>ct ss v'. mlkem_encapsulate C ek v = (Some (ct, ss), v') \<and> mlkem_decapsulate C dk ct = Some ss"
  using mlkem_okD(2) [OF assms(1)] assms(2) unfolding mlkem_sound_def by (metis fst_conv surj_pair)

lemma mlkem_implicit_rejection:
  assumes "crypto_ok C" "mlkem_generated C dk ek" "length ct = 1088"
  shows "\<exists>ss. mlkem_decapsulate C dk ct = Some ss"
  using mlkem_okD(3) [OF assms(1)] assms(2,3) unfolding mlkem_total_def by blast

lemma mlkem_encapsulate_lengths:
  assumes "crypto_ok C" "length ek = 1184" "mlkem_encapsulate C ek v = (Some (ct, ss), v')"
  shows "length ct = 1088" "length ss = 32"
  using mlkem_okD(1) [OF assms(1)] assms(2,3) unfolding mlkem_lengths_def by (metis fst_conv)+

lemma mlkem_decapsulate_length:
  assumes "crypto_ok C" "length dk = 2400" "length ct = 1088" "mlkem_decapsulate C dk ct = Some ss"
  shows "length ss = 32"
  using mlkem_okD(1) [OF assms(1)] assms(2-4) unfolding mlkem_lengths_def by blast

lemma hkdf_total:
  "crypto_ok C \<Longrightarrow> n \<le> HKDF_MAX \<Longrightarrow> \<exists>okm. hkdf_sha256 C salt ikm info n = Some okm \<and> length okm = n"
  by (simp add: crypto_ok_def hkdf_ok_def)

lemma aead_encrypt_total:
  "crypto_ok C \<Longrightarrow> length k = 32 \<Longrightarrow> length n = 12 \<Longrightarrow> length m \<le> GCM_MAX \<Longrightarrow> length a \<le> GCM_MAX \<Longrightarrow>
   \<exists>c. aes_gcm_encrypt C k n a m = Some c"
  by (simp add: crypto_ok_def aead_ok_def)

lemma aead_encrypt_length:
  "crypto_ok C \<Longrightarrow> aes_gcm_encrypt C k n a m = Some c \<Longrightarrow> length c = length m + 16"
  using crypto_okD(5) [of C] unfolding aead_ok_def by blast

lemma aead_correct:
  "crypto_ok C \<Longrightarrow> aes_gcm_encrypt C k n a m = Some c \<Longrightarrow> aes_gcm_decrypt C k n a c = Some m"
  using crypto_okD(5) [of C] unfolding aead_ok_def by blast

lemma aead_decrypt_length:
  "crypto_ok C \<Longrightarrow> aes_gcm_decrypt C k n a c = Some m \<Longrightarrow> length c = length m + 16"
  using crypto_okD(5) [of C] unfolding aead_ok_def by blast

lemma hmac_length: "crypto_ok C \<Longrightarrow> length (hmac_sha256 C k m) = 32"
  by (simp add: crypto_ok_def hmac_ok_def)

subsection \<open>Calls that check a length or unwrap a result\<close>

text \<open>\<open>hk.expand(info, &mut okm).expect(..)\<close> for an output buffer of \<open>n\<close> bytes.\<close>

definition hkdf_expect ::
  "('w, 'z) crypto_scheme \<Rightarrow> bytes \<Rightarrow> bytes \<Rightarrow> bytes \<Rightarrow> nat \<Rightarrow> ('e, bytes) result" where
  "hkdf_expect C salt ikm info n = expect (hkdf_sha256 C salt ikm info n)"

lemma hkdf_expect_32:
  "crypto_ok C \<Longrightarrow> \<exists>okm. hkdf_expect C salt ikm info 32 = Ok okm \<and> length okm = 32"
  using hkdf_total [of C 32 salt ikm info] by (auto simp: hkdf_expect_def HKDF_MAX_def)

lemma hkdf_expect_neq_Err [simp]: "hkdf_expect C salt ikm info n \<noteq> Err e"
  by (simp add: hkdf_expect_def)

lemma hkdf_expect_length:
  "crypto_ok C \<Longrightarrow> hkdf_expect C salt ikm info 32 = Ok okm \<Longrightarrow> length okm = 32"
  using hkdf_total [of C 32 salt ikm info] by (auto simp: hkdf_expect_def HKDF_MAX_def)

lemma hkdf_expect_no_panic: "crypto_ok C \<Longrightarrow> hkdf_expect C salt ikm info 32 \<noteq> Panic"
  using hkdf_total [of C 32 salt ikm info] by (auto simp: hkdf_expect_def HKDF_MAX_def)

text \<open>
  \<open>Aes256Gcm::new(Key::from_slice(key))\<close> and \<open>Nonce::from_slice(nonce)\<close> panic unless the key has
  32 and the nonce 12 bytes; the cipher call itself returns a \<open>Result\<close>.
\<close>

definition aead_seal ::
  "('w, 'z) crypto_scheme \<Rightarrow> bytes \<Rightarrow> bytes \<Rightarrow> bytes \<Rightarrow> bytes \<Rightarrow> (unit, bytes) result" where
  "aead_seal C key nonce aad msg =
     rbind (to_array 32 key) (\<lambda>k. rbind (to_array 12 nonce) (\<lambda>n.
       ok_or () (aes_gcm_encrypt C k n aad msg)))"

definition aead_open ::
  "('w, 'z) crypto_scheme \<Rightarrow> bytes \<Rightarrow> bytes \<Rightarrow> bytes \<Rightarrow> bytes \<Rightarrow> (unit, bytes) result" where
  "aead_open C key nonce aad body =
     rbind (to_array 32 key) (\<lambda>k. rbind (to_array 12 nonce) (\<lambda>n.
       ok_or () (aes_gcm_decrypt C k n aad body)))"

lemma aead_seal_Ok:
  assumes "crypto_ok C" "length key = 32" "length nonce = 12"
    and "length msg \<le> GCM_MAX" "length aad \<le> GCM_MAX"
  shows "\<exists>c. aead_seal C key nonce aad msg = Ok c \<and> length c = length msg + 16
           \<and> aead_open C key nonce aad c = Ok msg"
  using aead_encrypt_total [OF assms] assms(1-3)
  by (auto simp: aead_seal_def aead_open_def to_array_def aead_correct aead_encrypt_length)

lemma aead_seal_OkD:
  assumes "crypto_ok C" "aead_seal C key nonce aad msg = Ok c"
  shows "length key = 32" "length nonce = 12" "length c = length msg + 16"
    "aead_open C key nonce aad c = Ok msg"
  using assms
  by (auto simp: aead_seal_def aead_open_def to_array_def result_iffs aead_correct
      aead_encrypt_length split: if_splits)

lemma aead_open_OkD:
  assumes "crypto_ok C" "aead_open C key nonce aad c = Ok msg"
  shows "length key = 32" "length nonce = 12" "length c = length msg + 16"
  using assms
  by (auto simp: aead_open_def to_array_def result_iffs aead_decrypt_length split: if_splits)

lemma aead_open_Panic_iff:
  "aead_open C key nonce aad c = Panic \<longleftrightarrow> length key \<noteq> 32 \<or> length nonce \<noteq> 12"
  by (auto simp: aead_open_def to_array_def)

lemma aead_seal_Panic_iff:
  "aead_seal C key nonce aad m = Panic \<longleftrightarrow> length key \<noteq> 32 \<or> length nonce \<noteq> 12"
  by (auto simp: aead_seal_def to_array_def)

text \<open>
  A forgery against the associated data: a ciphertext sealed under one associated data opens under
  another one. Tamper-evidence is stated as a reduction to this event: whenever altered material
  opens, a forgery has been found. (Assuming outright that no forgery exists would be inconsistent:
  a 16-byte tag cannot separate all associated data.)
\<close>

definition aad_forgery :: "('w, 'z) crypto_scheme \<Rightarrow> bytes \<Rightarrow> bool" where
  "aad_forgery C body \<longleftrightarrow>
     (\<exists>key nonce aad msg key' nonce' aad' msg'.
        aead_seal C key nonce aad msg = Ok body \<and>
        aead_open C key' nonce' aad' body = Ok msg' \<and> aad' \<noteq> aad)"

lemma aad_forgeryI:
  "aead_seal C key nonce aad msg = Ok body \<Longrightarrow> aead_open C key' nonce' aad' body = Ok msg' \<Longrightarrow>
   aad' \<noteq> aad \<Longrightarrow> aad_forgery C body"
  unfolding aad_forgery_def by blast

subsection \<open>A concrete instance for witnesses\<close>

text \<open>
  The world is a counter. Keys are constant byte strings; X25519 is a group of byte strings under
  exclusive or; ML-KEM sends its secret in the clear; the AEAD sends the plaintext in the clear
  followed by 16 copies of a checksum of the key, the nonce, the associated data and the plaintext.
\<close>

definition toy_sum :: "bytes \<Rightarrow> u8" where
  "toy_sum bs = sum_list bs"

definition toy_tag :: "bytes \<Rightarrow> bytes \<Rightarrow> bytes \<Rightarrow> bytes \<Rightarrow> bytes" where
  "toy_tag k n a m = replicate 16 (toy_sum k + toy_sum n + toy_sum a + toy_sum m)"

definition toy_ext :: "'z \<Rightarrow> (nat, 'z) crypto_scheme" where
  "toy_ext z = \<lparr>
     fill_bytes = (\<lambda>n w. (replicate n (word_of_nat w), Suc w)),
     x25519_random = (\<lambda>w. (replicate 32 (word_of_nat w), Suc w)),
     x25519_public = (\<lambda>s. s),
     x25519_dh = (\<lambda>s p. map2 (+) s p),
     mlkem_generate = (\<lambda>w. ((replicate 2400 (word_of_nat w), replicate 1184 (word_of_nat w)), Suc w)),
     mlkem_encapsulate = (\<lambda>ek w. (Some (replicate 1088 (word_of_nat w), replicate 32 (word_of_nat w)), Suc w)),
     mlkem_decapsulate = (\<lambda>dk ct. Some (take 32 ct)),
     hkdf_sha256 = (\<lambda>salt ikm info n.
        if n \<le> HKDF_MAX then Some (replicate n (toy_sum salt + toy_sum ikm + toy_sum info)) else None),
     aes_gcm_encrypt = (\<lambda>k n a m. Some (m @ toy_tag k n a m)),
     aes_gcm_decrypt = (\<lambda>k n a c.
        if 16 \<le> length c \<and> drop (length c - 16) c = toy_tag k n a (take (length c - 16) c)
        then Some (take (length c - 16) c) else None),
     hmac_sha256 = (\<lambda>k m. replicate 32 (toy_sum k + toy_sum m)),
     \<dots> = z \<rparr>"

definition toy :: "nat crypto" where
  "toy = toy_ext ()"

lemma length_toy_tag [simp]: "length (toy_tag k n a m) = 16"
  by (simp add: toy_tag_def)

lemma toy_ext_ok [simp]: "crypto_ok (toy_ext z)"
proof -
  have dh: "map2 (+) s t = map2 (+) t s" for s t :: bytes
    by (rule nth_equalityI) (auto simp: add.commute)
  have "rng_ok (toy_ext z)" "hkdf_ok (toy_ext z)" "hmac_ok (toy_ext z)"
    by (simp_all add: rng_ok_def hkdf_ok_def hmac_ok_def toy_ext_def)
  moreover have "x25519_ok (toy_ext z)"
    by (simp add: x25519_ok_def toy_ext_def dh)
  moreover have "mlkem_ok (toy_ext z)"
    by (auto simp: mlkem_ok_def mlkem_lengths_def mlkem_sound_def mlkem_total_def
        mlkem_generated_def toy_ext_def)
  moreover have "aead_ok (toy_ext z)"
    by (auto simp: aead_ok_def toy_ext_def split: if_splits)
  ultimately show ?thesis by (simp add: crypto_ok_def)
qed

lemma toy_ok [simp]: "crypto_ok toy"
  by (simp add: toy_def)

end
