(* ===== verification/Text.thy ===== *)
theory Text
  imports Prelude
begin

text \<open>
  The parts of Rust's \<open>str\<close> and number formatting the crate uses: prefixes and separators,
  substring search, ASCII case, decimal numerals (\<open>to_string\<close>, \<open>parse::<u64>\<close>), and the text
  codecs of the \<open>base64\<close> and \<open>hex\<close> crates as parameters.
\<close>

subsection \<open>Prefixes, separators, substrings\<close>

text \<open>\<open>str::strip_prefix\<close> and \<open>str::split_once\<close> at a character.\<close>

definition strip_prefix :: "string \<Rightarrow> string \<Rightarrow> string option" where
  "strip_prefix p s = (if take (length p) s = p then Some (drop (length p) s) else None)"

fun split_once :: "char \<Rightarrow> string \<Rightarrow> (string \<times> string) option" where
  "split_once d [] = None"
| "split_once d (c # s) =
     (if c = d then Some ([], s)
      else map_option (\<lambda>(a, b). (c # a, b)) (split_once d s))"

lemma strip_prefix_append [simp]: "strip_prefix p (p @ s) = Some s"
  by (simp add: strip_prefix_def)

lemma strip_prefix_eq_Some_iff: "strip_prefix p s = Some t \<longleftrightarrow> s = p @ t"
  by (auto simp: strip_prefix_def split: if_splits) (metis append_take_drop_id)

lemma split_once_append: "d \<notin> set a \<Longrightarrow> split_once d (a @ d # b) = Some (a, b)"
  by (induction a) auto

lemma split_once_eq_Some_iff: "split_once d s = Some (a, b) \<longleftrightarrow> s = a @ d # b \<and> d \<notin> set a"
proof (induction s arbitrary: a)
  case (Cons c s)
  show ?case
    by (cases a) (auto simp: Cons.IH split: prod.splits)
qed simp

text \<open>\<open>str::contains\<close> of a pattern string, and \<open>str::to_ascii_lowercase\<close>, \<open>to_ascii_uppercase\<close>.\<close>

fun starts_with :: "string \<Rightarrow> string \<Rightarrow> bool" where
  "starts_with s [] = True"
| "starts_with [] (p # ps) = False"
| "starts_with (c # s) (p # ps) = (c = p \<and> starts_with s ps)"

fun contains :: "string \<Rightarrow> string \<Rightarrow> bool" where
  "contains [] p = (p = [])"
| "contains (c # s) p = (starts_with (c # s) p \<or> contains s p)"

definition ascii_lower :: "char \<Rightarrow> char" where
  "ascii_lower c =
     (let n = of_char c :: nat in if 65 \<le> n \<and> n \<le> 90 then char_of (n + 32) else c)"

definition ascii_upper :: "char \<Rightarrow> char" where
  "ascii_upper c =
     (let n = of_char c :: nat in if 97 \<le> n \<and> n \<le> 122 then char_of (n - 32) else c)"

definition to_ascii_lowercase :: "string \<Rightarrow> string" where
  "to_ascii_lowercase s = map ascii_lower s"

definition to_ascii_uppercase :: "string \<Rightarrow> string" where
  "to_ascii_uppercase s = map ascii_upper s"

lemma starts_with_iff: "starts_with s p \<longleftrightarrow> (\<exists>t. s = p @ t)"
  by (induction s p rule: starts_with.induct) auto

lemma contains_Nil [simp]: "contains s []"
  by (cases s) simp_all

lemma contains_iff: "contains s p \<longleftrightarrow> (\<exists>a b. s = a @ p @ b)"
proof (induction s)
  case (Cons c s)
  have "(\<exists>a b. c # s = a @ p @ b) \<longleftrightarrow> (\<exists>b. c # s = p @ b) \<or> (\<exists>a b. s = a @ p @ b)"
    by (metis append_Cons append_Nil list.exhaust list.sel(3))
  then show ?case by (simp add: Cons.IH starts_with_iff)
qed auto

text \<open>A pattern without the character \<open>d\<close> cannot lie across an occurrence of \<open>d\<close>.\<close>

lemma contains_separated:
  assumes "d \<notin> set p"
  shows "contains (a @ d # b) p \<longleftrightarrow> contains a p \<or> contains b p"
proof
  assume "contains (a @ d # b) p"
  then obtain x y where xy: "a @ d # b = x @ p @ y" by (auto simp: contains_iff)
  then consider us where "a = x @ us" "us @ d # b = p @ y" | us where "x = a @ us" "d # b = us @ p @ y"
    by (auto simp: append_eq_append_conv2)
  then show "contains a p \<or> contains b p"
  proof cases
    case 1
    then consider vs where "us = p @ vs" | vs where "p = us @ vs" "d # b = vs @ y"
      by (auto simp: append_eq_append_conv2)
    then show ?thesis
    proof cases
      case 1
      with \<open>a = x @ us\<close> show ?thesis by (auto simp: contains_iff)
    next
      case 2
      with assms have "vs = []" by (cases vs) auto
      with 2 \<open>a = x @ us\<close> have "a = x @ p @ []" by simp
      then have "contains a p" unfolding contains_iff by blast
      then show ?thesis by simp
    qed
  next
    case 2
    then show ?thesis
    proof (cases us)
      case Nil
      with 2 assms have "p = []" by (cases p) auto
      then show ?thesis by simp
    next
      case (Cons u us')
      with 2 have "b = us' @ p @ y" by simp
      then show ?thesis by (auto simp: contains_iff)
    qed
  qed
next
  assume "contains a p \<or> contains b p"
  then show "contains (a @ d # b) p"
    by (auto simp: contains_iff) (metis append.assoc append_Cons)+
qed

text \<open>The em dash of some messages, as UTF-8.\<close>

definition em_dash :: string where "em_dash = [CHR 0xE2, CHR 0x80, CHR 0x94]"

subsection \<open>Decimal numerals\<close>

definition digit :: "nat \<Rightarrow> char" where
  "digit d = char_of (48 + d)"

fun decimal :: "nat \<Rightarrow> string" where
  "decimal n = (if n < 10 then [digit n] else decimal (n div 10) @ [digit (n mod 10)])"

declare decimal.simps [simp del]

definition digit_value :: "char \<Rightarrow> nat option" where
  "digit_value c =
     (let n = of_char c :: nat in if 48 \<le> n \<and> n \<le> 57 then Some (n - 48) else None)"

fun digits_value :: "nat \<Rightarrow> string \<Rightarrow> nat option" where
  "digits_value acc [] = Some acc"
| "digits_value acc (c # s) =
     (case digit_value c of None \<Rightarrow> None | Some d \<Rightarrow> digits_value (10 * acc + d) s)"

text \<open>\<open>str::parse::<u64>\<close>: an optional plus sign, at least one digit, no overflow.\<close>

definition parse_u64 :: "string \<Rightarrow> u64 option" where
  "parse_u64 s =
     (let t = (case strip_prefix ''+'' s of Some t \<Rightarrow> t | None \<Rightarrow> s) in
      if t = [] then None
      else case digits_value 0 t of
             None \<Rightarrow> None
           | Some n \<Rightarrow> if n < 2 ^ 64 then Some (word_of_nat n) else None)"

definition u64_to_string :: "u64 \<Rightarrow> string" where
  "u64_to_string x = decimal (unat x)"

lemma digit_value_digit [simp]: "d < 10 \<Longrightarrow> digit_value (digit d) = Some d"
  by (simp add: digit_value_def digit_def Let_def)

lemma digits_value_append:
  "digits_value acc (s @ t) = (case digits_value acc s of None \<Rightarrow> None | Some n \<Rightarrow> digits_value n t)"
  by (induction s arbitrary: acc) (auto split: option.splits)

lemma digits_value_decimal: "digits_value 0 (decimal n) = Some n"
proof (induction n rule: decimal.induct)
  case (1 n)
  show ?case
  proof (cases "n < 10")
    case True
    then show ?thesis by (subst decimal.simps) simp
  next
    case False
    with 1 show ?thesis by (subst decimal.simps) (simp add: digits_value_append)
  qed
qed

lemma decimal_nonempty [simp]: "decimal n \<noteq> []"
  by (subst decimal.simps) simp

lemma decimal_digits: "c \<in> set (decimal n) \<Longrightarrow> c \<in> digit ` {..<10}"
proof (induction n rule: decimal.induct)
  case (1 n)
  then show ?case
    by (cases "n < 10") (auto simp: decimal.simps [of n])
qed

lemma decimal_inject: "decimal m = decimal n \<longleftrightarrow> m = n"
  by (metis digits_value_decimal option.inject)

lemma plus_notin_decimal: "strip_prefix ''+'' (decimal n) = None"
proof -
  have "CHR ''+'' \<notin> set (decimal n)"
  proof
    assume "CHR ''+'' \<in> set (decimal n)"
    then obtain d where "d < 10" "CHR ''+'' = digit d" using decimal_digits by blast
    then have "digit_value (CHR ''+'') = Some d" by simp
    then show False by (simp add: digit_value_def Let_def)
  qed
  then show ?thesis
    by (auto simp: strip_prefix_def) (metis append_take_drop_id list.set_intros(1) append_Cons)
qed

interpretation dec_u64: codec u64_to_string parse_u64 "\<lambda>_. True"
proof unfold_locales
  fix x :: u64
  have "unat x < 2 ^ 64" using unsigned_less [of x, where ?'a = nat] by simp
  then show "parse_u64 (u64_to_string x) = Some x"
    by (simp add: parse_u64_def u64_to_string_def plus_notin_decimal digits_value_decimal Let_def)
qed

lemma u64_to_string_inject: "u64_to_string x = u64_to_string y \<longleftrightarrow> x = y"
  by (auto intro: dec_u64.enc_inject)

subsection \<open>Text codecs of other crates\<close>

text \<open>
  An engine of the \<open>base64\<close> crate, or the functions of the \<open>hex\<close> crate: encoding, and decoding to
  bytes or an error message. Decoding inverts encoding (\<open>text_codec_lossless\<close>); the \<open>base64\<close> engines
  the crate uses are strict as well, they accept the canonical text only (\<open>text_codec_ok\<close>).
\<close>

record text_codec =
  tc_encode :: "bytes \<Rightarrow> string"
  tc_decode :: "string \<Rightarrow> string + bytes"

definition text_codec_lossless :: "text_codec \<Rightarrow> bool" where
  "text_codec_lossless T \<longleftrightarrow> (\<forall>bs. tc_decode T (tc_encode T bs) = Inr bs)"

definition text_codec_ok :: "text_codec \<Rightarrow> bool" where
  "text_codec_ok T \<longleftrightarrow>
     text_codec_lossless T \<and> tc_encode T [] = [] \<and>
     (\<forall>s bs. tc_decode T s = Inr bs \<longrightarrow> tc_encode T bs = s)"

lemma tc_lossless: "text_codec_lossless T \<Longrightarrow> tc_decode T (tc_encode T bs) = Inr bs"
  by (simp add: text_codec_lossless_def)

lemma tc_decode_encode: "text_codec_ok T \<Longrightarrow> tc_decode T (tc_encode T bs) = Inr bs"
  by (simp add: text_codec_ok_def tc_lossless)

lemma tc_encode_nonempty:
  assumes "text_codec_ok T" "bs \<noteq> []"
  shows "tc_encode T bs \<noteq> []"
proof
  assume e: "tc_encode T bs = []"
  have l: "text_codec_lossless T" and n: "tc_encode T [] = []"
    using assms(1) by (simp_all add: text_codec_ok_def)
  have "Inr bs = tc_decode T (tc_encode T bs)" by (rule tc_lossless [OF l, symmetric])
  also have "\<dots> = tc_decode T (tc_encode T [])" by (simp only: e n)
  also have "\<dots> = Inr []" by (rule tc_lossless [OF l])
  finally show False using assms(2) by simp
qed

lemma tc_encode_decode: "text_codec_ok T \<Longrightarrow> tc_decode T s = Inr bs \<Longrightarrow> tc_encode T bs = s"
  by (simp add: text_codec_ok_def)

text \<open>A concrete instance for witnesses: bytes as characters.\<close>

definition toy_codec :: text_codec where
  "toy_codec = \<lparr>tc_encode = map (\<lambda>b. char_of (unat b)), tc_decode = (\<lambda>s. Inr (lit s))\<rparr>"

lemma toy_codec_ok: "text_codec_ok toy_codec"
proof -
  have 1: "lit (map (\<lambda>b. char_of (unat b)) bs) = bs" for bs :: bytes
  proof (induction bs)
    case (Cons b bs)
    have "unat b < 256" using unsigned_less [of b, where ?'a = nat] by simp
    then show ?case using Cons by simp
  qed simp
  have 2: "map (\<lambda>b. char_of (unat b)) (lit s) = s" for s
    using 1 [of "lit s"] by simp
  show ?thesis by (simp add: text_codec_ok_def text_codec_lossless_def toy_codec_def 1 2)
qed

end
