(* ===== verification/Kem.thy ===== *)
theory Kem
  imports Crypto Text
begin

text \<open>
  The hybrid KEM \<open>x25519-mlkem768\<close> of \<open>src/kem.rs\<close>: key pairs, encapsulation and decapsulation
  over the composite wire layout \<open>X25519 part, ML-KEM part\<close>, and the concat-then-KDF combiner.

  Two interfaces are stated here. \<open>kem_interface\<close> is what the sealing layers rely on: lengths,
  totality on generated keys and agreement of the two sides; \<open>hybrid_box\<close> adds a wrap-key
  derivation and gives the lemma every sealing layer uses, that what is sealed under the
  encapsulated secret opens under the decapsulated one.
\<close>

subsection \<open>Constants and errors\<close>

definition SUITE_ID :: string where "SUITE_ID = ''x25519-mlkem768''"

definition HKDF_INFO :: bytes where "HKDF_INFO = lit ''sk_pqc/x25519-mlkem768/v1''"

definition X25519_PUB_LEN :: nat where "X25519_PUB_LEN = 32"
definition X25519_SEED_LEN :: nat where "X25519_SEED_LEN = 32"
definition MLKEM_PUB_LEN :: nat where "MLKEM_PUB_LEN = 1184"
definition MLKEM_SECRET_LEN :: nat where "MLKEM_SECRET_LEN = 2400"
definition MLKEM_CT_LEN :: nat where "MLKEM_CT_LEN = 1088"
definition PUBLIC_KEY_LEN :: nat where "PUBLIC_KEY_LEN = X25519_PUB_LEN + MLKEM_PUB_LEN"
definition PRIVATE_KEY_LEN :: nat where "PRIVATE_KEY_LEN = X25519_SEED_LEN + MLKEM_SECRET_LEN"
definition CIPHERTEXT_LEN :: nat where "CIPHERTEXT_LEN = X25519_PUB_LEN + MLKEM_CT_LEN"
definition SHARED_SECRET_LEN :: nat where "SHARED_SECRET_LEN = 32"

lemmas kem_lens [len_simps] =
  X25519_PUB_LEN_def X25519_SEED_LEN_def MLKEM_PUB_LEN_def MLKEM_SECRET_LEN_def MLKEM_CT_LEN_def
  PUBLIC_KEY_LEN_def PRIVATE_KEY_LEN_def CIPHERTEXT_LEN_def SHARED_SECRET_LEN_def

datatype kem_error = BadLength string nat nat | MlKem string

text \<open>\<open>Display for KemError\<close>.\<close>

fun kem_error_to_string :: "kem_error \<Rightarrow> string" where
  "kem_error_to_string (BadLength what expected got) =
     what @ '' must be '' @ decimal expected @ '' bytes, got '' @ decimal got"
| "kem_error_to_string (MlKem what) = ''ML-KEM error: '' @ what"

definition expect_len :: "string \<Rightarrow> bytes \<Rightarrow> nat \<Rightarrow> (kem_error, unit) result" where
  "expect_len what bs expected =
     (if length bs \<noteq> expected then Err (BadLength what expected (length bs)) else Ok ())"

record hybrid_key_pair =
  kp_public_key :: bytes
  kp_private_key :: bytes

subsection \<open>Operations\<close>

text \<open>\<open>fn combine\<close>: HKDF over the X25519 secret followed by the ML-KEM secret, empty salt.\<close>

definition combine :: "('w, 'z) crypto_scheme \<Rightarrow> bytes \<Rightarrow> bytes \<Rightarrow> ('e, bytes) result" where
  "combine C x25519_ss mlkem_ss =
     hkdf_expect C (lit '''') (x25519_ss @ mlkem_ss) HKDF_INFO SHARED_SECRET_LEN"

definition hybrid_keypair :: "('w, 'z) crypto_scheme \<Rightarrow> 'w \<Rightarrow> hybrid_key_pair \<times> 'w" where
  "hybrid_keypair C w =
     (let (x_seed, w1) = x25519_random C w;
          x_pub = x25519_public C x_seed;
          ((dk, ek), w2) = mlkem_generate C w1
      in (\<lparr>kp_public_key = x_pub @ ek, kp_private_key = x_seed @ dk\<rparr>, w2))"

text \<open>
  \<open>Encoded::try_from\<close> checks the length of the ML-KEM part again, which the first check already
  fixes; the model keeps both.
\<close>

definition hybrid_encap ::
  "('w, 'z) crypto_scheme \<Rightarrow> bytes \<Rightarrow> ('w, kem_error, bytes \<times> bytes) eff" where
  "hybrid_encap C peer_public_key =
     ebind (lift (expect_len ''hybrid public key'' peer_public_key PUBLIC_KEY_LEN)) (\<lambda>_.
     ebind (lift (rbind (slice peer_public_key 0 X25519_PUB_LEN) (to_array X25519_PUB_LEN))) (\<lambda>x_peer.
     ebind (lift (slice peer_public_key X25519_PUB_LEN (length peer_public_key))) (\<lambda>mlkem_pub.
     ebind (lift (expect_len ''ML-KEM public key'' mlkem_pub MLKEM_PUB_LEN)) (\<lambda>_.
     ebind (call (x25519_random C)) (\<lambda>x_eph.
     let x_eph_pub = x25519_public C x_eph; x_ss = x25519_dh C x_eph x_peer in
     ebind (call (mlkem_encapsulate C mlkem_pub)) (\<lambda>enc.
     ebind (lift (ok_or (MlKem ''encapsulation failed'') enc)) (\<lambda>(ct, mlkem_ss).
     ebind (lift (combine C x_ss mlkem_ss)) (\<lambda>shared.
     lift (Ok (x_eph_pub @ ct, shared))))))))))"

definition hybrid_decap ::
  "('w, 'z) crypto_scheme \<Rightarrow> bytes \<Rightarrow> bytes \<Rightarrow> (kem_error, bytes) result" where
  "hybrid_decap C ciphertext private_key =
     rbind (expect_len ''hybrid ciphertext'' ciphertext CIPHERTEXT_LEN) (\<lambda>_.
     rbind (expect_len ''hybrid private key'' private_key PRIVATE_KEY_LEN) (\<lambda>_.
     rbind (rbind (slice ciphertext 0 X25519_PUB_LEN) (to_array X25519_PUB_LEN)) (\<lambda>x_eph_pub.
     rbind (slice ciphertext X25519_PUB_LEN (length ciphertext)) (\<lambda>mlkem_ct.
     rbind (rbind (slice private_key 0 X25519_SEED_LEN) (to_array X25519_SEED_LEN)) (\<lambda>x_static.
     rbind (slice private_key X25519_SEED_LEN (length private_key)) (\<lambda>mlkem_dk.
     let x_ss = x25519_dh C x_static x_eph_pub in
     rbind (expect_len ''ML-KEM secret key'' mlkem_dk MLKEM_SECRET_LEN) (\<lambda>_.
     rbind (expect_len ''ML-KEM ciphertext'' mlkem_ct MLKEM_CT_LEN) (\<lambda>_.
     rbind (ok_or (MlKem ''decapsulation failed'') (mlkem_decapsulate C mlkem_dk mlkem_ct)) (\<lambda>mlkem_ss.
     combine C x_ss mlkem_ss)))))))))"

subsection \<open>Behaviour\<close>

lemma expect_len_Ok [result_simps]: "length bs = n \<Longrightarrow> expect_len what bs n = Ok ()"
  by (simp add: expect_len_def)

lemma expect_len_Err [result_simps]:
  "length bs \<noteq> n \<Longrightarrow> expect_len what bs n = Err (BadLength what n (length bs))"
  by (simp add: expect_len_def)

text \<open>A generated key pair, and how it is laid out.\<close>

definition generated_pair :: "('w, 'z) crypto_scheme \<Rightarrow> bytes \<Rightarrow> bytes \<Rightarrow> bool" where
  "generated_pair C pub priv \<longleftrightarrow>
     (\<exists>w. fst (hybrid_keypair C w) = \<lparr>kp_public_key = pub, kp_private_key = priv\<rparr>)"

lemma generated_pairE:
  assumes "crypto_ok C" "generated_pair C pub priv"
  obtains s dk ek where "pub = x25519_public C s @ ek" "priv = s @ dk"
    "length s = 32" "length (x25519_public C s) = 32" "mlkem_generated C dk ek"
    "length dk = 2400" "length ek = 1184"
proof -
  from assms(2) obtain w where w: "fst (hybrid_keypair C w) = \<lparr>kp_public_key = pub, kp_private_key = priv\<rparr>"
    by (auto simp: generated_pair_def)
  obtain s w1 where s: "x25519_random C w = (s, w1)" by (metis surj_pair)
  obtain dk ek w2 where g: "mlkem_generate C w1 = ((dk, ek), w2)" by (metis surj_pair)
  have len: "length s = 32" by (rule x25519_random_length [OF assms(1) s])
  have gen: "mlkem_generated C dk ek" by (rule mlkem_generatedI [OF g])
  show thesis
    using w s g len x25519_public_length [OF assms(1) len] gen mlkem_generated_lengths [OF assms(1) gen]
    by (intro that [of s ek dk]) (auto simp: hybrid_keypair_def)
qed

lemma generated_pair_lengths:
  assumes "crypto_ok C" "generated_pair C pub priv"
  shows "length pub = 1216" "length priv = 2432"
  by (rule generated_pairE [OF assms], simp)+

lemma hybrid_encap_bad_length:
  "length pub \<noteq> 1216 \<Longrightarrow>
   hybrid_encap C pub w = (Err (BadLength ''hybrid public key'' 1216 (length pub)), w)"
  by (simp add: hybrid_encap_def expect_len_def len_simps)

text \<open>Encapsulation, unfolded on a well-sized key.\<close>

lemma hybrid_encap_unfold:
  assumes "length xp = 32" "length ek = 1184"
    and "x25519_random C w = (x_eph, w1)" and "mlkem_encapsulate C ek w1 = (enc, w2)"
  shows "hybrid_encap C (xp @ ek) w =
    (case enc of
       None \<Rightarrow> (Err (MlKem ''encapsulation failed''), w2)
     | Some (ct, ss) \<Rightarrow>
         (rbind (combine C (x25519_dh C x_eph xp) ss) (\<lambda>shared. Ok (x25519_public C x_eph @ ct, shared)), w2))"
  using assms
  by (cases enc; cases "combine C (x25519_dh C x_eph xp) (snd (the enc)) :: (kem_error, bytes) result")
    (auto simp: hybrid_encap_def len_simps result_simps ebind_def)

lemma split_1216: "length pub = 1216 \<Longrightarrow> \<exists>xp ek. pub = xp @ ek \<and> length xp = 32 \<and> length ek = 1184"
  by (rule exI [of _ "take 32 pub"], rule exI [of _ "drop 32 pub"]) simp

lemma hybrid_encap_cases:
  assumes C: "crypto_ok C" and "hybrid_encap C pub w = (r, w')"
  shows "(length pub \<noteq> 1216 \<and> r = Err (BadLength ''hybrid public key'' 1216 (length pub)) \<and> w' = w)
       \<or> (length pub = 1216 \<and> r = Err (MlKem ''encapsulation failed''))
       \<or> (\<exists>ct ss. length pub = 1216 \<and> r = Ok (ct, ss) \<and> length ct = 1120 \<and> length ss = 32)"
proof (cases "length pub = 1216")
  case True
  then obtain xp ek where p: "pub = xp @ ek" and l: "length xp = 32" "length ek = 1184"
    using split_1216 by blast
  obtain x_eph w1 where x: "x25519_random C w = (x_eph, w1)" by (metis surj_pair)
  obtain enc w2 where e: "mlkem_encapsulate C ek w1 = (enc, w2)" by (metis surj_pair)
  have lp: "length (x25519_public C x_eph) = 32"
    using x25519_public_length [OF C x25519_random_length [OF C x]] .
  show ?thesis
  proof (cases enc)
    case None
    with assms(2) True show ?thesis
      by (simp add: p hybrid_encap_unfold [OF l x e])
  next
    case (Some a)
    obtain ct ss where a: "a = (ct, ss)" by (metis surj_pair)
    have lc: "length ct = 1088" using mlkem_encapsulate_lengths(1) [OF C l(2)] e Some a by simp
    obtain k where k: "\<And>e :: kem_error. combine C (x25519_dh C x_eph xp) ss = (Ok k :: (kem_error, bytes) result)"
      and lk: "length k = 32"
      using hkdf_expect_32 [OF C] unfolding combine_def SHARED_SECRET_LEN_def by metis
    from assms(2) k have "r = Ok (x25519_public C x_eph @ ct, k)"
      by (simp add: p hybrid_encap_unfold [OF l x e] Some a)
    with True lp lc lk show ?thesis by auto
  qed
next
  case False
  with assms(2) show ?thesis by (simp add: hybrid_encap_bad_length)
qed

lemma hybrid_encap_no_panic: "crypto_ok C \<Longrightarrow> fst (hybrid_encap C pub w) \<noteq> Panic"
  using hybrid_encap_cases [of C pub w] by (cases "hybrid_encap C pub w") auto


text \<open>
  Agreement of the two sides: what is encapsulated to a generated key decapsulates under its private
  key to the same secret.
\<close>

lemma hybrid_roundtrip:
  assumes C: "crypto_ok C" and kp: "generated_pair C pub priv"
  shows "\<exists>ct ss w'. hybrid_encap C pub w = (Ok (ct, ss), w') \<and> length ct = 1120 \<and> length ss = 32
           \<and> hybrid_decap C ct priv = Ok ss"
proof -
  obtain s dk ek where pub: "pub = x25519_public C s @ ek" and priv: "priv = s @ dk"
    and l: "length s = 32" "length (x25519_public C s) = 32" "length dk = 2400" "length ek = 1184"
    and gen: "mlkem_generated C dk ek"
    by (rule generated_pairE [OF C kp])
  obtain x_eph w1 where x: "x25519_random C w = (x_eph, w1)" by (metis surj_pair)
  have lx: "length x_eph = 32" "length (x25519_public C x_eph) = 32"
    using x25519_random_length [OF C x] x25519_public_length [OF C] by auto
  obtain ct ss w2 where e: "mlkem_encapsulate C ek w1 = (Some (ct, ss), w2)"
    and d: "mlkem_decapsulate C dk ct = Some ss"
    using mlkem_correct [OF C gen] by blast
  have lc: "length ct = 1088" using mlkem_encapsulate_lengths [OF C l(4) e] by blast
  have agree: "x25519_dh C s (x25519_public C x_eph) = x25519_dh C x_eph (x25519_public C s)"
    by (rule x25519_agree [OF C l(1) lx(1)])
  obtain k where k: "combine C (x25519_dh C x_eph (x25519_public C s)) ss = (Ok k :: (kem_error, bytes) result)"
    and lk: "length k = 32"
    using hkdf_expect_32 [OF C] unfolding combine_def SHARED_SECRET_LEN_def by metis
  have "hybrid_encap C pub w = (Ok (x25519_public C x_eph @ ct, k), w2)"
    by (simp add: pub hybrid_encap_unfold [OF l(2,4) x e] k)
  moreover have "hybrid_decap C (x25519_public C x_eph @ ct) priv = Ok k"
    using l lx lc by (simp add: hybrid_decap_def priv len_simps result_simps d agree k)
  ultimately show ?thesis using lx lc lk by auto
qed

lemma hybrid_encap_Ok_lengths:
  assumes "crypto_ok C" "hybrid_encap C pub w = (Ok (ct, ss), w')"
  shows "length pub = 1216" "length ct = 1120" "length ss = 32"
  using hybrid_encap_cases [OF assms] by auto

lemma hybrid_encap_decap:
  assumes "crypto_ok C" "generated_pair C pub priv" "hybrid_encap C pub w = (Ok (ct, ss), w')"
  shows "hybrid_decap C ct priv = Ok ss"
  using hybrid_roundtrip [OF assms(1,2), of w] assms(3) by auto

text \<open>Decapsulation on every input: two length errors, the KEM's own error, or a 32-byte secret.\<close>

lemma hybrid_decap_unfold:
  assumes "length xp = 32" "length ct = 1088" "length s = 32" "length dk = 2400"
  shows "hybrid_decap C (xp @ ct) (s @ dk) =
    rbind (ok_or (MlKem ''decapsulation failed'') (mlkem_decapsulate C dk ct))
      (\<lambda>ss. combine C (x25519_dh C s xp) ss)"
  using assms by (simp add: hybrid_decap_def len_simps result_simps)

lemma split_at: "length xs = n + m \<Longrightarrow> \<exists>us vs. xs = us @ vs \<and> length us = n \<and> length vs = m"
  by (rule exI [of _ "take n xs"], rule exI [of _ "drop n xs"]) simp

lemma hybrid_decap_cases:
  assumes C: "crypto_ok C"
  shows "(length ct \<noteq> 1120 \<and>
          hybrid_decap C ct priv = Err (BadLength ''hybrid ciphertext'' 1120 (length ct)))
       \<or> (length ct = 1120 \<and> length priv \<noteq> 2432 \<and>
          hybrid_decap C ct priv = Err (BadLength ''hybrid private key'' 2432 (length priv)))
       \<or> (length ct = 1120 \<and> length priv = 2432 \<and>
          (hybrid_decap C ct priv = Err (MlKem ''decapsulation failed'')
           \<or> (\<exists>ss. hybrid_decap C ct priv = Ok ss \<and> length ss = 32)))"
proof (cases "length ct = 1120 \<and> length priv = 2432")
  case True
  obtain xp mct where ct: "ct = xp @ mct" and l: "length xp = 32" "length mct = 1088"
    using split_at [of ct 32 1088] True by auto
  obtain s dk where priv: "priv = s @ dk" and ls: "length s = 32" "length dk = 2400"
    using split_at [of priv 32 2400] True by auto
  show ?thesis
  proof (cases "mlkem_decapsulate C dk mct")
    case None
    with True show ?thesis by (simp add: ct priv hybrid_decap_unfold [OF l ls])
  next
    case (Some ss)
    obtain k where "combine C (x25519_dh C s xp) ss = (Ok k :: (kem_error, bytes) result)"
      and "length k = 32"
      using hkdf_expect_32 [OF C] unfolding combine_def SHARED_SECRET_LEN_def by metis
    with Some True show ?thesis by (simp add: ct priv hybrid_decap_unfold [OF l ls])
  qed
next
  case False
  then show ?thesis by (auto simp: hybrid_decap_def expect_len_def len_simps)
qed

lemma hybrid_decap_no_panic: "crypto_ok C \<Longrightarrow> hybrid_decap C ct priv \<noteq> Panic"
  using hybrid_decap_cases [of C ct priv] by auto

text \<open>Implicit rejection: under a generated key every well-sized ciphertext yields some secret.\<close>

lemma hybrid_decap_total:
  assumes C: "crypto_ok C" and kp: "generated_pair C pub priv" and l: "length ct = 1120"
  shows "\<exists>ss. hybrid_decap C ct priv = Ok ss \<and> length ss = 32"
proof -
  obtain s dk ek where priv: "priv = s @ dk" and ls: "length s = 32" "length dk = 2400"
    and gen: "mlkem_generated C dk ek"
    by (rule generated_pairE [OF C kp])
  obtain xp mct where ct: "ct = xp @ mct" and lc: "length xp = 32" "length mct = 1088"
    using split_at [of ct 32 1088] l by auto
  obtain ss where d: "mlkem_decapsulate C dk mct = Some ss"
    using mlkem_implicit_rejection [OF C gen lc(2)] by blast
  show ?thesis
    using hkdf_expect_32 [OF C] unfolding combine_def
    by (simp add: ct priv hybrid_decap_unfold [OF lc ls] d combine_def SHARED_SECRET_LEN_def)
qed

text \<open>The combiner's input determines both secrets: the X25519 part has a fixed length.\<close>

lemma combine_input_inject:
  "length x = 32 \<Longrightarrow> length x' = 32 \<Longrightarrow> x @ m = x' @ m' \<longleftrightarrow> x = x' \<and> m = m'"
  by simp


subsection \<open>The interface the sealing layers rely on\<close>

locale kem_interface =
  fixes ok :: "'c \<Rightarrow> bool"
    and pair :: "'c \<Rightarrow> bytes \<Rightarrow> bytes \<Rightarrow> bool"
    and encap :: "'c \<Rightarrow> bytes \<Rightarrow> ('w, kem_error, bytes \<times> bytes) eff"
    and decap :: "'c \<Rightarrow> bytes \<Rightarrow> bytes \<Rightarrow> (kem_error, bytes) result"
  assumes agreement: "ok C \<Longrightarrow> pair C pub priv \<Longrightarrow>
      \<exists>ct ss w'. encap C pub w = (Ok (ct, ss), w') \<and> decap C ct priv = Ok ss"
    and encap_lengths: "ok C \<Longrightarrow> encap C pub w = (Ok (ct, ss), w') \<Longrightarrow>
      length pub = 1216 \<and> length ct = 1120 \<and> length ss = 32"
    and decap_length: "ok C \<Longrightarrow> decap C ct priv = Ok ss \<Longrightarrow> length ss = 32"
    and encap_no_panic: "ok C \<Longrightarrow> fst (encap C pub w) \<noteq> Panic"
    and decap_no_panic: "ok C \<Longrightarrow> decap C ct priv \<noteq> Panic"
    and decap_bad_lengths:
      "ok C \<Longrightarrow> length ct = 1120 \<Longrightarrow> length priv \<noteq> 2432 \<Longrightarrow>
       decap C ct priv = Err (BadLength ''hybrid private key'' 2432 (length priv))"
begin

lemma encap_decap:
  "ok C \<Longrightarrow> pair C pub priv \<Longrightarrow> encap C pub w = (Ok (ct, ss), w') \<Longrightarrow> decap C ct priv = Ok ss"
  using agreement [of C pub priv w] by auto

lemma encap_Ok: "ok C \<Longrightarrow> pair C pub priv \<Longrightarrow> \<exists>ct ss w'. encap C pub w = (Ok (ct, ss), w')"
  using agreement [of C pub priv w] by blast

end

interpretation hybrid: kem_interface crypto_ok generated_pair hybrid_encap hybrid_decap
proof unfold_locales
  fix C :: "('w, 'z) crypto_scheme" and ct priv :: bytes
  assume "crypto_ok C" "length ct = 1120" "length priv \<noteq> 2432"
  then show "hybrid_decap C ct priv = Err (BadLength ''hybrid private key'' 2432 (length priv))"
    using hybrid_decap_cases [of C ct priv] by auto
next
  fix C :: "('w, 'z) crypto_scheme" and ct priv ss :: bytes
  assume "crypto_ok C" "hybrid_decap C ct priv = Ok ss"
  then show "length ss = 32"
    using hybrid_decap_cases [of C ct priv] by auto
next
  fix C :: "('w, 'z) crypto_scheme" and pub priv w
  assume "crypto_ok C" "generated_pair C pub priv"
  then show "\<exists>ct ss w'. hybrid_encap C pub w = (Ok (ct, ss), w') \<and> hybrid_decap C ct priv = Ok ss"
    using hybrid_roundtrip [of C pub priv w] by blast
qed (auto dest: hybrid_encap_Ok_lengths hybrid_encap_no_panic hybrid_decap_no_panic)

text \<open>
  A hybrid box: a KEM, a derivation of the wrap key from the shared secret and the associated data,
  and an AEAD. Every sealing layer of the crate is one, and its blob is \<open>ct\<close>, \<open>nonce\<close>, \<open>body\<close>.
\<close>

locale hybrid_box = kem_interface ok pair encap decap
  for ok :: "'c \<Rightarrow> bool"
    and pair :: "'c \<Rightarrow> bytes \<Rightarrow> bytes \<Rightarrow> bool"
    and encap :: "'c \<Rightarrow> bytes \<Rightarrow> ('w, kem_error, bytes \<times> bytes) eff"
    and decap :: "'c \<Rightarrow> bytes \<Rightarrow> bytes \<Rightarrow> (kem_error, bytes) result" +
  fixes kdf :: "'c \<Rightarrow> bytes \<Rightarrow> bytes \<Rightarrow> ('e, bytes) result"
    and seal_body :: "'c \<Rightarrow> bytes \<Rightarrow> bytes \<Rightarrow> bytes \<Rightarrow> bytes \<Rightarrow> (unit, bytes) result"
    and open_body :: "'c \<Rightarrow> bytes \<Rightarrow> bytes \<Rightarrow> bytes \<Rightarrow> bytes \<Rightarrow> (unit, bytes) result"
    and draw :: "'c \<Rightarrow> nat \<Rightarrow> 'w \<Rightarrow> bytes \<times> 'w"
  assumes kdf_total: "ok C \<Longrightarrow> \<exists>key. kdf C aad ss = Ok key \<and> length key = 32"
    and body_total: "ok C \<Longrightarrow> length key = 32 \<Longrightarrow> length nonce = 12 \<Longrightarrow>
      length msg \<le> GCM_MAX \<Longrightarrow> length aad \<le> GCM_MAX \<Longrightarrow> \<exists>c. seal_body C key nonce aad msg = Ok c"
    and body_open: "ok C \<Longrightarrow> seal_body C key nonce aad msg = Ok c \<Longrightarrow>
      length c = length msg + 16 \<and> open_body C key nonce aad c = Ok msg"
    and body_panic: "length key = 32 \<Longrightarrow> length nonce = 12 \<Longrightarrow> seal_body C key nonce aad msg \<noteq> Panic"
    and open_panic: "length key = 32 \<Longrightarrow> length nonce = 12 \<Longrightarrow> open_body C key nonce aad c \<noteq> Panic"
    and draw_length: "ok C \<Longrightarrow> draw C n w = (bs, w') \<Longrightarrow> length bs = n"
begin

text \<open>The sender's steps all succeed, and the recipient's steps undo them.\<close>

lemma box:
  assumes "ok C" "pair C pub priv" "length msg \<le> GCM_MAX" "length aad \<le> GCM_MAX"
  shows "\<exists>ct ss w1 key nonce w2 c.
     encap C pub w = (Ok (ct, ss), w1) \<and> kdf C aad ss = Ok key \<and> draw C 12 w1 = (nonce, w2) \<and>
     seal_body C key nonce aad msg = Ok c \<and> length ct = 1120 \<and> length key = 32 \<and>
     length nonce = 12 \<and> length c = length msg + 16 \<and> decap C ct priv = Ok ss \<and>
     open_body C key nonce aad c = Ok msg"
proof -
  obtain ct ss w1 where e: "encap C pub w = (Ok (ct, ss), w1)" and d: "decap C ct priv = Ok ss"
    using agreement [OF assms(1,2), of w] by blast
  obtain key where k: "kdf C aad ss = Ok key" and lk: "length key = 32"
    using kdf_total [OF assms(1), of aad ss] by blast
  obtain nonce w2 where n: "draw C 12 w1 = (nonce, w2)" by (metis surj_pair)
  have ln: "length nonce = 12" by (rule draw_length [OF assms(1) n])
  obtain c where c: "seal_body C key nonce aad msg = Ok c"
    using body_total [OF assms(1) lk ln assms(3,4)] by blast
  show ?thesis
    using e d k lk n ln c encap_lengths [OF assms(1) e] body_open [OF assms(1) c] by blast
qed

end

lemma hybrid_boxI:
  assumes kdf: "\<And>(C :: ('w, 'z) crypto_scheme) aad ss. crypto_ok C \<Longrightarrow>
    \<exists>key. (kdf C aad ss :: ('e, bytes) result) = Ok key \<and> length key = 32"
  shows "hybrid_box crypto_ok generated_pair hybrid_encap hybrid_decap kdf aead_seal aead_open fill_bytes"
proof unfold_locales
  fix C :: "('w, 'z) crypto_scheme" and key nonce msg aad :: bytes
  assume "crypto_ok C" "length key = 32" "length nonce = 12"
    "length msg \<le> GCM_MAX" "length aad \<le> GCM_MAX"
  then show "\<exists>c. aead_seal C key nonce aad msg = Ok c"
    using aead_seal_Ok [of C key nonce msg aad] by blast
qed (auto simp: kdf aead_seal_Panic_iff aead_open_Panic_iff intro: aead_seal_OkD fill_bytes_length)

text \<open>A generated pair of the concrete instance.\<close>

definition toy_pub :: bytes where "toy_pub = replicate 32 0 @ replicate 1184 1"
definition toy_priv :: bytes where "toy_priv = replicate 32 0 @ replicate 2400 1"

lemma toy_pair [simp]: "generated_pair (toy_ext z) toy_pub toy_priv"
  unfolding generated_pair_def
  by (rule exI [of _ 0]) (simp add: hybrid_keypair_def toy_ext_def toy_pub_def toy_priv_def)

end
