(* ===== verification/Ratchet_Interface.thy ===== *)
theory Ratchet_Interface
  imports Kem
begin

text \<open>
  What the direct-message ratchet and the group ratchet have in common, stated once:

  \<^item> \<open>epoch_wrap\<close>: an epoch secret wrapped to a hybrid public key is recovered by the private key;
  \<^item> \<open>message_schedule\<close>: the HKDF salt and info of a message key determine its epoch and index;
  \<^item> \<open>outbound_ratchet\<close>: the counter of a sender, and a receiver that derives keys by index.

  Also the reading of the clock (\<open>now_seconds\<close> / \<open>now_unix\<close>) and the re-key test on times.
\<close>

subsection \<open>The clock\<close>

text \<open>
  \<open>SystemTime\<close> is a reading of the world that fails before the epoch. Times are \<open>f64\<close>: a type
  \<open>'f\<close> with subtraction, order and zero, of which the model fixes nothing else; \<open>as_f64\<close> is the
  cast of an integer.
\<close>

record ('w, 'f) sys = "'w crypto" +
  system_time :: "'w \<Rightarrow> 'f option \<times> 'w"
  as_f64 :: "u64 \<Rightarrow> 'f"

definition now_seconds :: "('w, 'f :: zero, 'z) sys_scheme \<Rightarrow> 'w \<Rightarrow> 'f \<times> 'w" where
  "now_seconds S w =
     (case system_time S w of (Some t, w') \<Rightarrow> (t, w') | (None, w') \<Rightarrow> (0, w'))"

text \<open>The concrete instance for witnesses: the clock reads the counter of the world.\<close>

definition toy_sys :: "(nat, int) sys" where
  "toy_sys = toy_ext \<lparr>system_time = (\<lambda>w. (Some (int w), w)), as_f64 = uint\<rparr>"

lemma toy_sys_ok [simp]: "crypto_ok toy_sys"
  by (simp add: toy_sys_def)

lemma toy_sys_pair [simp]: "generated_pair toy_sys toy_pub toy_priv"
  by (simp add: toy_sys_def)

subsection \<open>Wrapping an epoch secret\<close>

locale epoch_wrap =
  fixes ok :: "'c \<Rightarrow> bool"
    and pair :: "'c \<Rightarrow> bytes \<Rightarrow> bytes \<Rightarrow> bool"
    and wrap :: "'c \<Rightarrow> bytes \<Rightarrow> bytes \<Rightarrow> ('w, 'e, bytes) eff"
    and unwrap :: "'c \<Rightarrow> bytes \<Rightarrow> bytes \<Rightarrow> ('e, bytes) result"
  assumes wrap_unwrap: "ok C \<Longrightarrow> pair C pub priv \<Longrightarrow> length secret = 32 \<Longrightarrow>
      \<exists>p w'. wrap C secret pub w = (Ok p, w') \<and> unwrap C p priv = Ok secret"
    and wrap_lengths: "ok C \<Longrightarrow> wrap C secret pub w = (Ok p, w') \<Longrightarrow>
      length secret = 32 \<and> length pub = 1216 \<and> length p = 1180"
    and unwrap_lengths: "ok C \<Longrightarrow> unwrap C p priv = Ok secret \<Longrightarrow> length p = 1180 \<and> length secret = 32"
    and wrap_no_panic: "ok C \<Longrightarrow> fst (wrap C secret pub w) \<noteq> Panic"
    and unwrap_no_panic: "ok C \<Longrightarrow> unwrap C p priv \<noteq> Panic"
begin

lemma unwrap_wrapped:
  "ok C \<Longrightarrow> pair C pub priv \<Longrightarrow> wrap C secret pub w = (Ok p, w') \<Longrightarrow> unwrap C p priv = Ok secret"
  using wrap_unwrap [of C pub priv secret w] wrap_lengths [of C secret pub w p w'] by auto

text \<open>Two wraps that a member unwraps alike carry the same secret.\<close>

lemma wrapped_secret_unique:
  assumes "ok C" "pair C pub priv"
    and "wrap C s1 pub w1 = (Ok p, v1)" "wrap C s2 pub w2 = (Ok p, v2)"
  shows "s1 = s2"
  using unwrap_wrapped [OF assms(1-3)] unwrap_wrapped [OF assms(1,2,4)] by simp

end

subsection \<open>Message keys by slot\<close>

locale message_schedule =
  fixes salt :: "u64 \<Rightarrow> bytes" and info :: "u64 \<Rightarrow> bytes"
  assumes salt_inject: "salt e = salt e' \<Longrightarrow> e = e'"
    and info_inject: "info i = info i' \<Longrightarrow> i = i'"
begin

lemma slot_inject: "(salt e, info i) = (salt e', info i') \<longleftrightarrow> (e, i) = (e', i')"
  by (auto intro: salt_inject info_inject)

lemma inj_slot: "inj (\<lambda>(e, i). (salt e, info i))"
  by (rule injI) (auto dest: salt_inject info_inject)

end

subsection \<open>Outbound counters\<close>

fun run_outbound :: "('r \<Rightarrow> ('e, 'k \<times> 'r) result) \<Rightarrow> nat \<Rightarrow> 'r \<Rightarrow> ('e, 'k list \<times> 'r) result" where
  "run_outbound step 0 r = Ok ([], r)"
| "run_outbound step (Suc n) r =
     rbind (step r) (\<lambda>(k, r'). rbind (run_outbound step n r') (\<lambda>(ks, r''). Ok (k # ks, r'')))"

locale outbound_ratchet =
  fixes ok :: "'c \<Rightarrow> bool"
    and wf :: "'r \<Rightarrow> bool"
    and counter :: "'r \<Rightarrow> u64"
    and advance :: "'c \<Rightarrow> 'r \<Rightarrow> ('e, (u64 \<times> bytes) \<times> 'r) result"
    and key_at :: "'c \<Rightarrow> 'r \<Rightarrow> u64 \<Rightarrow> ('e, bytes) result"
  assumes advance_step: "ok C \<Longrightarrow> wf r \<Longrightarrow>
      \<exists>k r'. advance C r = Ok ((counter r, k), r') \<and> key_at C r (counter r) = Ok k \<and>
        counter r' = counter r + 1 \<and> wf r' \<and> (\<forall>i. key_at C r' i = key_at C r i)"
begin

text \<open>
  \<open>n\<close> calls hand out the next \<open>n\<close> indices in order, each with the key that the ratchet (of the
  sender or of a receiver in the same epoch) derives for that index.
\<close>

lemma run:
  assumes "ok C" "wf r"
  shows "\<exists>ks r'. run_outbound (advance C) n r = Ok (ks, r') \<and> length ks = n \<and>
           counter r' = counter r + of_nat n \<and> wf r' \<and>
           (\<forall>j<n. fst (ks ! j) = counter r + of_nat j \<and>
                  key_at C r (fst (ks ! j)) = Ok (snd (ks ! j)))"
  using assms(2)
proof (induction n arbitrary: r)
  case (Suc n)
  obtain k r1 where s: "advance C r = Ok ((counter r, k), r1)" "key_at C r (counter r) = Ok k"
    "counter r1 = counter r + 1" "wf r1" "\<And>i. key_at C r1 i = key_at C r i"
    using advance_step [OF assms(1) Suc.prems] by blast
  obtain ks r' where t: "run_outbound (advance C) n r1 = Ok (ks, r')" "length ks = n"
    "counter r' = counter r1 + of_nat n" "wf r'"
    and ks: "\<forall>j<n. fst (ks ! j) = counter r1 + of_nat j \<and> key_at C r1 (fst (ks ! j)) = Ok (snd (ks ! j))"
    using Suc.IH [OF s(4)] by blast
  let ?ks = "(counter r, k) # ks"
  have "fst (?ks ! j) = counter r + of_nat j \<and> key_at C r (fst (?ks ! j)) = Ok (snd (?ks ! j))"
    if "j < Suc n" for j
    using that ks s(2,3,5) by (cases j) (auto simp: add_ac)
  moreover have "run_outbound (advance C) (Suc n) r = Ok (?ks, r')" "length ?ks = Suc n"
    using s(1) t(1,2) by simp_all
  moreover have "counter r' = counter r + of_nat (Suc n)" using s(3) t(3) by (simp add: add_ac)
  ultimately show ?case using t(4) by blast
qed simp

end

end
