(* ===== verification/Ratchet.thy ===== *)
theory Ratchet
  imports Ratchet_Interface
begin

text \<open>
  The direct-message epoch ratchet of \<open>src/ratchet.rs\<close>: the message-key schedule, the re-key
  bound, wrapping and unwrapping of an epoch secret, and the sender-side state \<open>DmRatchet\<close>.
\<close>

subsection \<open>Constants and errors\<close>

definition EPOCH_SECRET_LEN :: nat where "EPOCH_SECRET_LEN = 32"
definition MESSAGE_KEY_LEN :: nat where "MESSAGE_KEY_LEN = 32"
definition DEFAULT_REKEY_MSG_BOUND :: u64 where "DEFAULT_REKEY_MSG_BOUND = 50"
definition DEFAULT_REKEY_AGE_SECONDS :: u64 where "DEFAULT_REKEY_AGE_SECONDS = 7 * 24 * 3600"
definition EPOCH_SALT_PREFIX :: bytes where "EPOCH_SALT_PREFIX = lit ''skchat/dm-epoch/''"
definition MSG_INFO_PREFIX :: bytes where "MSG_INFO_PREFIX = lit ''skchat/dm-ratchet/msg/v1/''"
definition INFO_DM_WRAP :: bytes where "INFO_DM_WRAP = lit ''skchat/dm-ratchet/epoch-wrap/v1''"
definition WRAP_NONCE_LEN :: nat where "WRAP_NONCE_LEN = 12"
definition WRAPPED_SECRET_LEN :: nat where "WRAPPED_SECRET_LEN = EPOCH_SECRET_LEN + 16"
definition WRAPPED_PAYLOAD_LEN :: nat where
  "WRAPPED_PAYLOAD_LEN = CIPHERTEXT_LEN + WRAP_NONCE_LEN + WRAPPED_SECRET_LEN"

lemmas ratchet_lens [len_simps] =
  EPOCH_SECRET_LEN_def MESSAGE_KEY_LEN_def WRAP_NONCE_LEN_def WRAPPED_SECRET_LEN_def
  WRAPPED_PAYLOAD_LEN_def

datatype ratchet_error =
    BadSecretLen nat
  | BadPublicKeyLen nat
  | BadPayloadLen nat
  | RKem kem_error
  | UnwrapFailed

text \<open>\<open>Display for RatchetError\<close>.\<close>

fun ratchet_error_to_string :: "ratchet_error \<Rightarrow> string" where
  "ratchet_error_to_string (BadSecretLen got) =
     ''epoch_secret must be '' @ decimal EPOCH_SECRET_LEN @ '' bytes, got '' @ decimal got"
| "ratchet_error_to_string (BadPublicKeyLen got) =
     ''peer hybrid public key must be '' @ decimal PUBLIC_KEY_LEN @ '' bytes, got '' @ decimal got"
| "ratchet_error_to_string (BadPayloadLen got) =
     ''wrapped epoch payload must be '' @ decimal WRAPPED_PAYLOAD_LEN @ '' bytes, got '' @ decimal got"
| "ratchet_error_to_string (RKem e) = ''hybrid KEM error: '' @ kem_error_to_string e"
| "ratchet_error_to_string UnwrapFailed = ''dm epoch-secret unwrap failed''"

subsection \<open>Message keys and the re-key bound\<close>

definition dm_salt :: "u64 \<Rightarrow> bytes" where "dm_salt epoch = EPOCH_SALT_PREFIX @ u64_be epoch"
definition dm_info :: "u64 \<Rightarrow> bytes" where "dm_info index = MSG_INFO_PREFIX @ u64_be index"

definition derive_dm_message_key ::
  "('w, 'z) crypto_scheme \<Rightarrow> bytes \<Rightarrow> u64 \<Rightarrow> u64 \<Rightarrow> (ratchet_error, bytes) result" where
  "derive_dm_message_key C epoch_secret epoch index =
     (if length epoch_secret \<noteq> EPOCH_SECRET_LEN then Err (BadSecretLen (length epoch_secret))
      else hkdf_expect C (dm_salt epoch) epoch_secret (dm_info index) MESSAGE_KEY_LEN)"

text \<open>\<open>fn should_rekey\<close>: message bound or age bound; \<open>to_f64\<close> is the cast of the age bound.\<close>

definition should_rekey ::
  "(u64 \<Rightarrow> 'f :: {minus, ord}) \<Rightarrow> u64 \<Rightarrow> 'f \<Rightarrow> 'f \<Rightarrow> u64 \<Rightarrow> u64 \<Rightarrow> bool" where
  "should_rekey to_f64 message_index epoch_started_at now rekey_msg_bound rekey_age_seconds =
     (if rekey_msg_bound \<le> message_index then True
      else to_f64 rekey_age_seconds \<le> now - epoch_started_at)"

definition dm_wrap_key :: "('w, 'z) crypto_scheme \<Rightarrow> bytes \<Rightarrow> (ratchet_error, bytes) result" where
  "dm_wrap_key C shared = hkdf_expect C (lit '''') shared INFO_DM_WRAP 32"

definition new_epoch_secret :: "('w, 'z) crypto_scheme \<Rightarrow> 'w \<Rightarrow> bytes \<times> 'w" where
  "new_epoch_secret C = fill_bytes C EPOCH_SECRET_LEN"

subsection \<open>Wrapping and unwrapping an epoch secret\<close>

definition wrap_dm_epoch_secret ::
  "('w, 'z) crypto_scheme \<Rightarrow> bytes \<Rightarrow> bytes \<Rightarrow> ('w, ratchet_error, bytes) eff" where
  "wrap_dm_epoch_secret C epoch_secret peer_hybrid_pub =
     (if length epoch_secret \<noteq> EPOCH_SECRET_LEN then lift (Err (BadSecretLen (length epoch_secret)))
      else if length peer_hybrid_pub \<noteq> PUBLIC_KEY_LEN then
        lift (Err (BadPublicKeyLen (length peer_hybrid_pub)))
      else
        ebind (emap_err RKem (hybrid_encap C peer_hybrid_pub)) (\<lambda>(ciphertext, shared).
        ebind (lift (dm_wrap_key C shared)) (\<lambda>wrap_key.
        ebind (call (fill_bytes C WRAP_NONCE_LEN)) (\<lambda>nonce_bytes.
        ebind (lift (map_err (\<lambda>_. UnwrapFailed) (aead_seal C wrap_key nonce_bytes [] epoch_secret)))
          (\<lambda>wrapped. lift (Ok (ciphertext @ nonce_bytes @ wrapped)))))))"

definition unwrap_dm_epoch_secret ::
  "('w, 'z) crypto_scheme \<Rightarrow> bytes \<Rightarrow> bytes \<Rightarrow> (ratchet_error, bytes) result" where
  "unwrap_dm_epoch_secret C payload peer_hybrid_priv =
     (if length payload \<noteq> WRAPPED_PAYLOAD_LEN then Err (BadPayloadLen (length payload))
      else
        rbind (slice payload 0 CIPHERTEXT_LEN) (\<lambda>ciphertext.
        rbind (slice payload CIPHERTEXT_LEN (CIPHERTEXT_LEN + WRAP_NONCE_LEN)) (\<lambda>nonce_bytes.
        rbind (slice payload (CIPHERTEXT_LEN + WRAP_NONCE_LEN) (length payload)) (\<lambda>wrapped.
        rbind (map_err RKem (hybrid_decap C ciphertext peer_hybrid_priv)) (\<lambda>shared.
        rbind (dm_wrap_key C shared) (\<lambda>wrap_key.
        rbind (map_err (\<lambda>_. UnwrapFailed) (aead_open C wrap_key nonce_bytes [] wrapped)) (\<lambda>plain.
        if length plain \<noteq> EPOCH_SECRET_LEN then Err UnwrapFailed
        else to_array EPOCH_SECRET_LEN plain)))))))"

subsection \<open>The sender's ratchet\<close>

record 'f dm_ratchet =
  dr_epoch :: u64
  dr_epoch_secret :: bytes
  dr_message_index :: u64
  dr_rekey_msg_bound :: u64
  dr_rekey_age_seconds :: u64
  dr_epoch_started_at :: 'f

definition dm_ratchet_with_bounds ::
  "('w, 'f :: zero, 'z) sys_scheme \<Rightarrow> u64 \<Rightarrow> bytes \<Rightarrow> u64 \<Rightarrow> u64 \<Rightarrow> 'w \<Rightarrow> 'f dm_ratchet \<times> 'w" where
  "dm_ratchet_with_bounds S epoch epoch_secret rekey_msg_bound rekey_age_seconds w =
     (case now_seconds S w of (now, w') \<Rightarrow>
       (\<lparr>dr_epoch = epoch, dr_epoch_secret = epoch_secret, dr_message_index = 0,
         dr_rekey_msg_bound = rekey_msg_bound, dr_rekey_age_seconds = rekey_age_seconds,
         dr_epoch_started_at = now\<rparr>, w'))"

definition dm_ratchet_new ::
  "('w, 'f :: zero, 'z) sys_scheme \<Rightarrow> u64 \<Rightarrow> bytes \<Rightarrow> 'w \<Rightarrow> 'f dm_ratchet \<times> 'w" where
  "dm_ratchet_new S epoch epoch_secret =
     dm_ratchet_with_bounds S epoch epoch_secret DEFAULT_REKEY_MSG_BOUND DEFAULT_REKEY_AGE_SECONDS"

definition dm_message_key ::
  "('w, 'z) crypto_scheme \<Rightarrow> 'f dm_ratchet \<Rightarrow> u64 option \<Rightarrow> (ratchet_error, bytes) result" where
  "dm_message_key C r index =
     (let idx = (case index of Some i \<Rightarrow> i | None \<Rightarrow> dr_message_index r)
      in derive_dm_message_key C (dr_epoch_secret r) (dr_epoch r) idx)"

text \<open>\<open>next_outbound_key(&mut self)\<close>; the counter is a \<open>u64\<close> and wraps as release code does.\<close>

definition dm_next_outbound_key ::
  "('w, 'z) crypto_scheme \<Rightarrow> 'f dm_ratchet \<Rightarrow> ('e, (u64 \<times> bytes) \<times> 'f dm_ratchet) result" where
  "dm_next_outbound_key C r =
     (let idx = dr_message_index r in
      rbind (expect_ok (derive_dm_message_key C (dr_epoch_secret r) (dr_epoch r) idx)) (\<lambda>key.
      Ok ((idx, key), r\<lparr>dr_message_index := dr_message_index r + 1\<rparr>)))"

definition dm_should_rekey ::
  "('w, 'f :: {minus, ord, zero}, 'z) sys_scheme \<Rightarrow> 'f dm_ratchet \<Rightarrow> 'f option \<Rightarrow> 'w \<Rightarrow> bool \<times> 'w" where
  "dm_should_rekey S r now w =
     (case (case now of Some t \<Rightarrow> (t, w) | None \<Rightarrow> now_seconds S w) of (t, w') \<Rightarrow>
       (should_rekey (as_f64 S) (dr_message_index r) (dr_epoch_started_at r) t
          (dr_rekey_msg_bound r) (dr_rekey_age_seconds r), w'))"


subsection \<open>Behaviour of the key schedule\<close>

lemma dm_salt_inject: "dm_salt e = dm_salt e' \<longleftrightarrow> e = e'"
  by (simp add: dm_salt_def)

lemma dm_info_inject: "dm_info i = dm_info i' \<longleftrightarrow> i = i'"
  by (simp add: dm_info_def)

interpretation dm_schedule: message_schedule dm_salt dm_info
  by unfold_locales (simp_all add: dm_salt_inject dm_info_inject)

lemma derive_dm_Ok:
  "crypto_ok C \<Longrightarrow> length secret = 32 \<Longrightarrow>
   \<exists>k. derive_dm_message_key C secret epoch index = Ok k \<and> length k = 32"
  using hkdf_expect_32 [of C] by (simp add: derive_dm_message_key_def len_simps)

lemma derive_dm_Err_iff:
  "crypto_ok C \<Longrightarrow> derive_dm_message_key C secret epoch index = Err e \<longleftrightarrow>
     length secret \<noteq> 32 \<and> e = BadSecretLen (length secret)"
  by (auto simp: derive_dm_message_key_def len_simps)

lemma derive_dm_no_panic: "crypto_ok C \<Longrightarrow> derive_dm_message_key C secret epoch index \<noteq> Panic"
  by (simp add: derive_dm_message_key_def len_simps hkdf_expect_no_panic)

lemma derive_dm_OkD:
  assumes "crypto_ok C" "derive_dm_message_key C secret epoch index = Ok k"
  shows "length secret = 32" "length k = 32"
  using assms
  by (auto simp: derive_dm_message_key_def len_simps hkdf_expect_length split: if_splits)

lemma dm_wrap_key_total:
  "crypto_ok C \<Longrightarrow> \<exists>key. dm_wrap_key C ss = Ok key \<and> length key = 32"
  using hkdf_expect_32 [of C] by (simp add: dm_wrap_key_def)

interpretation dm_box: hybrid_box crypto_ok generated_pair hybrid_encap hybrid_decap
    "\<lambda>C aad. dm_wrap_key C" aead_seal aead_open fill_bytes
  by (rule hybrid_boxI) (rule dm_wrap_key_total)

subsection \<open>Wrap and unwrap\<close>

lemma wrap_dm_bad_inputs:
  "length secret \<noteq> 32 \<Longrightarrow> wrap_dm_epoch_secret C secret pub w = (Err (BadSecretLen (length secret)), w)"
  "length secret = 32 \<Longrightarrow> length pub \<noteq> 1216 \<Longrightarrow>
   wrap_dm_epoch_secret C secret pub w = (Err (BadPublicKeyLen (length pub)), w)"
  by (simp_all add: wrap_dm_epoch_secret_def len_simps)

lemma unwrap_dm_bad_length:
  "length p \<noteq> 1180 \<Longrightarrow> unwrap_dm_epoch_secret C p priv = Err (BadPayloadLen (length p))"
  by (simp add: unwrap_dm_epoch_secret_def len_simps)

lemma unwrap_dm_unfold:
  assumes "length ct = 1120" "length nonce = 12" "length body = 48"
  shows "unwrap_dm_epoch_secret C (ct @ nonce @ body) priv =
    rbind (map_err RKem (hybrid_decap C ct priv)) (\<lambda>shared.
    rbind (dm_wrap_key C shared) (\<lambda>key.
    rbind (map_err (\<lambda>_. UnwrapFailed) (aead_open C key nonce [] body)) (\<lambda>plain.
    if length plain \<noteq> 32 then Err UnwrapFailed else to_array 32 plain)))"
  using assms by (simp add: unwrap_dm_epoch_secret_def len_simps result_simps cong: if_cong)

lemma wrap_dm_roundtrip:
  assumes C: "crypto_ok C" and kp: "generated_pair C pub priv" and l: "length secret = 32"
  shows "\<exists>p w'. wrap_dm_epoch_secret C secret pub w = (Ok p, w') \<and> length p = 1180 \<and>
           unwrap_dm_epoch_secret C p priv = Ok secret"
proof -
  have lp: "length pub = 1216" by (rule generated_pair_lengths [OF C kp])
  obtain ct ss w1 key nonce w2 c where e: "hybrid_encap C pub w = (Ok (ct, ss), w1)"
    and k: "dm_wrap_key C ss = Ok key"
    and n: "fill_bytes C 12 w1 = (nonce, w2)" and c: "aead_seal C key nonce [] secret = Ok c"
    and len: "length ct = 1120" "length nonce = 12" "length c = length secret + 16"
    and d: "hybrid_decap C ct priv = Ok ss" "aead_open C key nonce [] c = Ok secret"
    using dm_box.box [OF C kp, of secret "[]" w] l by (auto simp: GCM_MAX_def)
  have "wrap_dm_epoch_secret C secret pub w = (Ok (ct @ nonce @ c), w2)"
    using l lp e k n c
    by (simp add: wrap_dm_epoch_secret_def len_simps result_simps)
  moreover have "unwrap_dm_epoch_secret C (ct @ nonce @ c) priv = Ok secret"
    using len l d k by (simp add: unwrap_dm_unfold result_simps)
  ultimately show ?thesis using len l by auto
qed

text \<open>The steps of a successful wrap.\<close>

lemma wrap_dm_OkE:
  assumes "wrap_dm_epoch_secret C secret pub w = (Ok p, w')"
  obtains ct ss w1 key nonce c where "length secret = 32" "length pub = 1216"
    "hybrid_encap C pub w = (Ok (ct, ss), w1)"
    "dm_wrap_key C ss = Ok key"
    "fill_bytes C 12 w1 = (nonce, w')" "aead_seal C key nonce [] secret = Ok c"
    "p = ct @ nonce @ c"
  using assms
  by (auto simp: wrap_dm_epoch_secret_def len_simps eff_iffs split: if_splits)

lemma wrap_dm_OkD:
  assumes C: "crypto_ok C" and "wrap_dm_epoch_secret C secret pub w = (Ok p, w')"
  shows "length secret = 32 \<and> length pub = 1216 \<and> length p = 1180"
  using assms(2)
proof (rule wrap_dm_OkE)
  fix ct ss w1 key nonce c
  assume *: "length secret = 32" "length pub = 1216" "hybrid_encap C pub w = (Ok (ct, ss), w1)"
    "fill_bytes C 12 w1 = (nonce, w')" "aead_seal C key nonce [] secret = Ok c" "p = ct @ nonce @ c"
  show ?thesis
    using * hybrid_encap_Ok_lengths(2) [OF C *(3)] fill_bytes_length [OF C *(4)]
      aead_seal_OkD(3) [OF C *(5)] by simp
qed

lemma unwrap_dm_OkD:
  assumes "unwrap_dm_epoch_secret C p priv = Ok secret"
  shows "length p = 1180 \<and> length secret = 32"
  using assms
  by (auto simp: unwrap_dm_epoch_secret_def len_simps result_iffs to_array_def split: if_splits)

lemma wrap_dm_no_panic:
  assumes C: "crypto_ok C"
  shows "fst (wrap_dm_epoch_secret C secret pub w) \<noteq> Panic"
proof (cases "length secret = 32 \<and> length pub = 1216")
  case True
  obtain r w1 where e: "hybrid_encap C pub w = (r, w1)" by (metis surj_pair)
  show ?thesis
  proof (cases r)
    case (Ok x)
    obtain ct ss where x: "x = (ct, ss)" by (metis surj_pair)
    obtain key where k: "dm_wrap_key C ss = Ok key" "length key = 32"
      using dm_wrap_key_total [OF C] by blast
    obtain nonce w2 where n: "fill_bytes C 12 w1 = (nonce, w2)" by (metis surj_pair)
    have "aead_seal C key nonce [] secret \<noteq> Panic"
      using k fill_bytes_length [OF C n] by (simp add: aead_seal_Panic_iff)
    then show ?thesis using True e Ok x k n
      by (cases "aead_seal C key nonce [] secret")
        (simp_all add: wrap_dm_epoch_secret_def len_simps result_simps ebind_def)
  next
    case (Err e')
    then show ?thesis using True e
      by (simp add: wrap_dm_epoch_secret_def len_simps emap_err_def ebind_def)
  next
    case Panic
    then show ?thesis using hybrid_encap_no_panic [OF C, of pub w] e by simp
  qed
next
  case False
  then show ?thesis by (auto simp: wrap_dm_epoch_secret_def len_simps)
qed

lemma unwrap_dm_cases:
  assumes C: "crypto_ok C"
  shows "(length p \<noteq> 1180 \<and> unwrap_dm_epoch_secret C p priv = Err (BadPayloadLen (length p)))
       \<or> (length p = 1180 \<and> (\<exists>e. unwrap_dm_epoch_secret C p priv = Err (RKem e)))
       \<or> (length p = 1180 \<and> unwrap_dm_epoch_secret C p priv = Err UnwrapFailed)
       \<or> (length p = 1180 \<and> (\<exists>s. unwrap_dm_epoch_secret C p priv = Ok s \<and> length s = 32))"
proof (cases "length p = 1180")
  case True
  then obtain ct r where "p = ct @ r" and l1: "length ct = 1120" "length r = 60"
    using split_at [of p 1120 60] by auto
  moreover obtain nonce body where "r = nonce @ body" and l2: "length nonce = 12" "length body = 48"
    using split_at [of r 12 48] l1 by auto
  ultimately have p: "p = ct @ nonce @ body" by simp
  note u = unwrap_dm_unfold [OF l1(1) l2, of C priv]
  show ?thesis
  proof (cases "hybrid_decap C ct priv")
    case (Ok ss)
    obtain key where k: "dm_wrap_key C ss = Ok key" "length key = 32"
      using dm_wrap_key_total [OF C] by blast
    have np: "aead_open C key nonce [] body \<noteq> Panic" using k l2 by (simp add: aead_open_Panic_iff)
    show ?thesis
    proof (cases "aead_open C key nonce [] body")
      case (Ok m)
      then have "length m = 32" using aead_open_OkD(3) [OF C Ok] l2 by simp
      then show ?thesis using True Ok \<open>hybrid_decap C ct priv = Ok ss\<close> k
        by (simp add: p u to_array_def)
    qed (use True \<open>hybrid_decap C ct priv = Ok ss\<close> k np in \<open>simp_all add: p u\<close>)
  next
    case Panic
    then show ?thesis using hybrid_decap_no_panic [OF C] by blast
  qed (use True in \<open>simp add: p u\<close>)
qed (simp add: unwrap_dm_bad_length)

lemma unwrap_dm_no_panic: "crypto_ok C \<Longrightarrow> unwrap_dm_epoch_secret C p priv \<noteq> Panic"
  using unwrap_dm_cases [of C p priv] by auto

interpretation dm_wrap: epoch_wrap crypto_ok generated_pair wrap_dm_epoch_secret unwrap_dm_epoch_secret
proof unfold_locales
  fix C :: "('w, 'z) crypto_scheme" and pub priv secret :: bytes and w
  assume "crypto_ok C" "generated_pair C pub priv" "length secret = 32"
  then show "\<exists>p w'. wrap_dm_epoch_secret C secret pub w = (Ok p, w') \<and>
      unwrap_dm_epoch_secret C p priv = Ok secret"
    using wrap_dm_roundtrip [of C pub priv secret w] by blast
qed (auto dest: wrap_dm_OkD unwrap_dm_OkD wrap_dm_no_panic unwrap_dm_no_panic)

subsection \<open>The sender's counter\<close>

definition dm_ratchet_wf :: "'f dm_ratchet \<Rightarrow> bool" where
  "dm_ratchet_wf r \<longleftrightarrow> length (dr_epoch_secret r) = 32"

lemma dm_next_outbound_key_Ok:
  assumes "crypto_ok C" "dm_ratchet_wf r"
  shows "\<exists>k. (dm_next_outbound_key C r :: ('e, _) result) =
           Ok ((dr_message_index r, k), r\<lparr>dr_message_index := dr_message_index r + 1\<rparr>) \<and> length k = 32 \<and>
           derive_dm_message_key C (dr_epoch_secret r) (dr_epoch r) (dr_message_index r) = Ok k"
proof -
  obtain k where "derive_dm_message_key C (dr_epoch_secret r) (dr_epoch r) (dr_message_index r) = Ok k"
    "length k = 32"
    using derive_dm_Ok [OF assms(1)] assms(2) by (metis dm_ratchet_wf_def)
  then show ?thesis by (simp add: dm_next_outbound_key_def Let_def)
qed

interpretation dm_outbound: outbound_ratchet crypto_ok dm_ratchet_wf dr_message_index
    dm_next_outbound_key "\<lambda>C r i. dm_message_key C r (Some i)"
proof unfold_locales
  fix C :: "('w, 'z) crypto_scheme" and r :: "'f dm_ratchet"
  assume *: "crypto_ok C" "dm_ratchet_wf r"
  let ?r = "r\<lparr>dr_message_index := dr_message_index r + 1\<rparr>"
  from dm_next_outbound_key_Ok [OF *] obtain k where
    "(dm_next_outbound_key C r :: (ratchet_error, _) result) = Ok ((dr_message_index r, k), ?r)"
    "derive_dm_message_key C (dr_epoch_secret r) (dr_epoch r) (dr_message_index r) = Ok k"
    by blast
  then show "\<exists>k r'. (dm_next_outbound_key C r :: (ratchet_error, _) result) =
        Ok ((dr_message_index r, k), r') \<and>
      dm_message_key C r (Some (dr_message_index r)) = Ok k \<and>
      dr_message_index r' = dr_message_index r + 1 \<and> dm_ratchet_wf r' \<and>
      (\<forall>i. dm_message_key C r' (Some i) = dm_message_key C r (Some i))"
    using *(2) by (intro exI [of _ k] exI [of _ ?r]) (simp add: dm_message_key_def dm_ratchet_wf_def)
qed

subsection \<open>The re-key bound\<close>

lemma should_rekey_iff:
  "should_rekey to_f64 index started now bound age \<longleftrightarrow>
     bound \<le> index \<or> to_f64 age \<le> now - started"
  by (simp add: should_rekey_def)

end
