(* ===== verification/Group_Ratchet.thy ===== *)
theory Group_Ratchet
  imports Ratchet_Interface
begin

text \<open>
  The group epoch ratchet of \<open>src/group_ratchet.rs\<close>: message keys, wrapping of an epoch secret to a
  member, and the state \<open>EpochRatchet\<close>. It provides the same three contracts as the
  direct-message ratchet, with its own labels and its own checks.
\<close>

subsection \<open>Constants and errors\<close>

definition G_HYBRID_KEM_SUITE :: string where "G_HYBRID_KEM_SUITE = ''x25519-mlkem768''"
definition G_EPOCH_SECRET_LEN :: nat where "G_EPOCH_SECRET_LEN = 32"
definition G_MESSAGE_KEY_LEN :: nat where "G_MESSAGE_KEY_LEN = 32"
definition EPOCH_WRAP_INFO :: bytes where "EPOCH_WRAP_INFO = lit ''skchat/group-ratchet/epoch-wrap/v1''"
definition G_MSG_SALT_PREFIX :: bytes where "G_MSG_SALT_PREFIX = lit ''skchat/epoch/''"
definition G_MSG_INFO_PREFIX :: bytes where "G_MSG_INFO_PREFIX = lit ''skchat/group-ratchet/msg/v1/''"
definition G_WRAP_NONCE_LEN :: nat where "G_WRAP_NONCE_LEN = 12"
definition G_WRAPPED_SECRET_LEN :: nat where "G_WRAPPED_SECRET_LEN = G_EPOCH_SECRET_LEN + 16"
definition G_WRAPPED_PAYLOAD_LEN :: nat where
  "G_WRAPPED_PAYLOAD_LEN = CIPHERTEXT_LEN + G_WRAP_NONCE_LEN + G_WRAPPED_SECRET_LEN"
definition G_DEFAULT_REKEY_MSG_BOUND :: u64 where "G_DEFAULT_REKEY_MSG_BOUND = 50"
definition G_DEFAULT_REKEY_AGE_SECONDS :: u64 where "G_DEFAULT_REKEY_AGE_SECONDS = 7 * 24 * 3600"

lemmas group_lens [len_simps] =
  G_EPOCH_SECRET_LEN_def G_MESSAGE_KEY_LEN_def G_WRAP_NONCE_LEN_def G_WRAPPED_SECRET_LEN_def
  G_WRAPPED_PAYLOAD_LEN_def

datatype group_ratchet_error =
    GBadSecretLen nat
  | GBadPublicKeyLen nat
  | GBadPrivateKeyLen nat
  | GBadPayloadLen nat
  | GKem kem_error
  | GUnwrapFailed

text \<open>\<open>Display for GroupRatchetError\<close>.\<close>

fun group_ratchet_error_to_string :: "group_ratchet_error \<Rightarrow> string" where
  "group_ratchet_error_to_string (GBadSecretLen got) =
     ''epoch_secret must be '' @ decimal G_EPOCH_SECRET_LEN @ '' bytes, got '' @ decimal got"
| "group_ratchet_error_to_string (GBadPublicKeyLen got) =
     ''member hybrid public key must be '' @ decimal PUBLIC_KEY_LEN @ '' bytes, got '' @ decimal got"
| "group_ratchet_error_to_string (GBadPrivateKeyLen got) =
     ''member hybrid private key must be '' @ decimal PRIVATE_KEY_LEN @ '' bytes, got '' @ decimal got"
| "group_ratchet_error_to_string (GBadPayloadLen got) =
     ''wrapped epoch payload must be '' @ decimal G_WRAPPED_PAYLOAD_LEN @ '' bytes, got '' @ decimal got"
| "group_ratchet_error_to_string (GKem e) = ''hybrid KEM error: '' @ kem_error_to_string e"
| "group_ratchet_error_to_string GUnwrapFailed = ''epoch-secret unwrap failed (auth tag mismatch)''"

subsection \<open>Message keys\<close>

definition group_salt :: "u64 \<Rightarrow> bytes" where "group_salt epoch = G_MSG_SALT_PREFIX @ u64_be epoch"
definition group_info :: "u64 \<Rightarrow> bytes" where "group_info index = G_MSG_INFO_PREFIX @ u64_be index"

definition derive_message_key_arr ::
  "('w, 'z) crypto_scheme \<Rightarrow> bytes \<Rightarrow> u64 \<Rightarrow> u64 \<Rightarrow> ('e, bytes) result" where
  "derive_message_key_arr C epoch_secret epoch index =
     hkdf_expect C (group_salt epoch) epoch_secret (group_info index) G_MESSAGE_KEY_LEN"

definition derive_message_key ::
  "('w, 'z) crypto_scheme \<Rightarrow> bytes \<Rightarrow> u64 \<Rightarrow> u64 \<Rightarrow> (group_ratchet_error, bytes) result" where
  "derive_message_key C epoch_secret epoch index =
     (if length epoch_secret = G_EPOCH_SECRET_LEN
      then derive_message_key_arr C epoch_secret epoch index
      else Err (GBadSecretLen (length epoch_secret)))"

subsection \<open>Wrapping and unwrapping an epoch secret\<close>

definition group_new_epoch_secret :: "('w, 'z) crypto_scheme \<Rightarrow> 'w \<Rightarrow> bytes \<times> 'w" where
  "group_new_epoch_secret C = fill_bytes C G_EPOCH_SECRET_LEN"

definition group_derive_wrap_key ::
  "('w, 'z) crypto_scheme \<Rightarrow> bytes \<Rightarrow> (group_ratchet_error, bytes) result" where
  "group_derive_wrap_key C shared = hkdf_expect C (lit '''') shared EPOCH_WRAP_INFO 32"

definition wrap_epoch_secret ::
  "('w, 'z) crypto_scheme \<Rightarrow> bytes \<Rightarrow> bytes \<Rightarrow> ('w, group_ratchet_error, bytes) eff" where
  "wrap_epoch_secret C epoch_secret member_hybrid_pub =
     (if length epoch_secret \<noteq> G_EPOCH_SECRET_LEN then
        lift (Err (GBadSecretLen (length epoch_secret)))
      else if length member_hybrid_pub \<noteq> PUBLIC_KEY_LEN then
        lift (Err (GBadPublicKeyLen (length member_hybrid_pub)))
      else
        ebind (emap_err GKem (hybrid_encap C member_hybrid_pub)) (\<lambda>(ciphertext, shared).
        ebind (lift (group_derive_wrap_key C shared)) (\<lambda>wrap_key.
        ebind (call (fill_bytes C G_WRAP_NONCE_LEN)) (\<lambda>nonce_bytes.
        ebind (lift (map_err (\<lambda>_. GUnwrapFailed) (aead_seal C wrap_key nonce_bytes [] epoch_secret)))
          (\<lambda>wrapped. lift (Ok (ciphertext @ nonce_bytes @ wrapped)))))))"

definition unwrap_epoch_secret ::
  "('w, 'z) crypto_scheme \<Rightarrow> bytes \<Rightarrow> bytes \<Rightarrow> (group_ratchet_error, bytes) result" where
  "unwrap_epoch_secret C payload member_hybrid_priv =
     (if length payload \<noteq> G_WRAPPED_PAYLOAD_LEN then Err (GBadPayloadLen (length payload))
      else if length member_hybrid_priv \<noteq> PRIVATE_KEY_LEN then
        Err (GBadPrivateKeyLen (length member_hybrid_priv))
      else
        rbind (slice payload 0 CIPHERTEXT_LEN) (\<lambda>ciphertext.
        rbind (slice payload CIPHERTEXT_LEN (CIPHERTEXT_LEN + G_WRAP_NONCE_LEN)) (\<lambda>nonce.
        rbind (slice payload (CIPHERTEXT_LEN + G_WRAP_NONCE_LEN) (length payload)) (\<lambda>wrapped.
        rbind (map_err GKem (hybrid_decap C ciphertext member_hybrid_priv)) (\<lambda>shared.
        rbind (group_derive_wrap_key C shared) (\<lambda>wrap_key.
        rbind (map_err (\<lambda>_. GUnwrapFailed) (aead_open C wrap_key nonce [] wrapped)) (\<lambda>plaintext.
        if length plaintext = 32 then Ok plaintext
        else Err (GBadSecretLen (length plaintext)))))))))"

subsection \<open>The ratchet state\<close>

record 'f epoch_ratchet =
  er_epoch :: u64
  er_epoch_secret :: bytes
  er_message_index :: u64
  er_rekey_msg_bound :: u64
  er_rekey_age_seconds :: u64
  er_epoch_started_at :: 'f

text \<open>This module reads the clock with a function of its own.\<close>

definition now_unix :: "('w, 'f :: zero, 'z) sys_scheme \<Rightarrow> 'w \<Rightarrow> 'f \<times> 'w" where
  "now_unix S w =
     (case system_time S w of (Some t, w') \<Rightarrow> (t, w') | (None, w') \<Rightarrow> (0, w'))"

definition epoch_ratchet_new ::
  "('w, 'f :: zero, 'z) sys_scheme \<Rightarrow> u64 \<Rightarrow> bytes \<Rightarrow> 'w \<Rightarrow> 'f epoch_ratchet \<times> 'w" where
  "epoch_ratchet_new S epoch epoch_secret w =
     (case now_unix S w of (now, w') \<Rightarrow>
       (\<lparr>er_epoch = epoch, er_epoch_secret = epoch_secret, er_message_index = 0,
         er_rekey_msg_bound = G_DEFAULT_REKEY_MSG_BOUND,
         er_rekey_age_seconds = G_DEFAULT_REKEY_AGE_SECONDS, er_epoch_started_at = now\<rparr>, w'))"

definition epoch_ratchet_new_with_started_at :: "u64 \<Rightarrow> bytes \<Rightarrow> 'f \<Rightarrow> 'f epoch_ratchet" where
  "epoch_ratchet_new_with_started_at epoch epoch_secret epoch_started_at =
     \<lparr>er_epoch = epoch, er_epoch_secret = epoch_secret, er_message_index = 0,
      er_rekey_msg_bound = G_DEFAULT_REKEY_MSG_BOUND,
      er_rekey_age_seconds = G_DEFAULT_REKEY_AGE_SECONDS, er_epoch_started_at = epoch_started_at\<rparr>"

definition er_message_key ::
  "('w, 'z) crypto_scheme \<Rightarrow> 'f epoch_ratchet \<Rightarrow> u64 \<Rightarrow> ('e, bytes) result" where
  "er_message_key C r index = derive_message_key_arr C (er_epoch_secret r) (er_epoch r) index"

definition er_next_outbound_key ::
  "('w, 'z) crypto_scheme \<Rightarrow> 'f epoch_ratchet \<Rightarrow> ('e, (u64 \<times> bytes) \<times> 'f epoch_ratchet) result" where
  "er_next_outbound_key C r =
     (let idx = er_message_index r in
      rbind (derive_message_key_arr C (er_epoch_secret r) (er_epoch r) idx) (\<lambda>key.
      Ok ((idx, key), r\<lparr>er_message_index := er_message_index r + 1\<rparr>)))"

definition er_should_rekey :: "(u64 \<Rightarrow> 'f :: {minus, ord}) \<Rightarrow> 'f epoch_ratchet \<Rightarrow> 'f \<Rightarrow> bool" where
  "er_should_rekey to_f64 r now =
     (if er_rekey_msg_bound r \<le> er_message_index r then True
      else to_f64 (er_rekey_age_seconds r) \<le> now - er_epoch_started_at r)"

subsection \<open>Behaviour of the key schedule\<close>

lemma now_unix_eq: "now_unix S w = now_seconds S w"
  by (simp add: now_unix_def now_seconds_def)

lemma group_salt_inject: "group_salt e = group_salt e' \<longleftrightarrow> e = e'"
  by (simp add: group_salt_def)

lemma group_info_inject: "group_info i = group_info i' \<longleftrightarrow> i = i'"
  by (simp add: group_info_def)

interpretation group_schedule: message_schedule group_salt group_info
  by unfold_locales (simp_all add: group_salt_inject group_info_inject)

lemma derive_message_key_arr_Ok:
  "crypto_ok C \<Longrightarrow> \<exists>k. (derive_message_key_arr C secret epoch index :: ('e, bytes) result) = Ok k \<and>
     length k = 32"
  using hkdf_expect_32 [of C] by (simp add: derive_message_key_arr_def len_simps)

lemma derive_message_key_Ok:
  "crypto_ok C \<Longrightarrow> length secret = 32 \<Longrightarrow>
   \<exists>k. derive_message_key C secret epoch index = Ok k \<and> length k = 32"
  using derive_message_key_arr_Ok [of C] by (simp add: derive_message_key_def len_simps)

lemma derive_message_key_bad_length:
  "length secret \<noteq> 32 \<Longrightarrow> derive_message_key C secret epoch index = Err (GBadSecretLen (length secret))"
  by (simp add: derive_message_key_def len_simps)

lemma group_wrap_key_total:
  "crypto_ok C \<Longrightarrow> \<exists>key. group_derive_wrap_key C ss = Ok key \<and> length key = 32"
  using hkdf_expect_32 [of C] by (simp add: group_derive_wrap_key_def)

interpretation group_box: hybrid_box crypto_ok generated_pair hybrid_encap hybrid_decap
    "\<lambda>C aad. group_derive_wrap_key C" aead_seal aead_open fill_bytes
  by (rule hybrid_boxI) (rule group_wrap_key_total)

subsection \<open>Wrap and unwrap\<close>

lemma wrap_group_bad_inputs:
  "length secret \<noteq> 32 \<Longrightarrow> wrap_epoch_secret C secret pub w = (Err (GBadSecretLen (length secret)), w)"
  "length secret = 32 \<Longrightarrow> length pub \<noteq> 1216 \<Longrightarrow>
   wrap_epoch_secret C secret pub w = (Err (GBadPublicKeyLen (length pub)), w)"
  by (simp_all add: wrap_epoch_secret_def len_simps)

lemma unwrap_group_bad_inputs:
  "length p \<noteq> 1180 \<Longrightarrow> unwrap_epoch_secret C p priv = Err (GBadPayloadLen (length p))"
  "length p = 1180 \<Longrightarrow> length priv \<noteq> 2432 \<Longrightarrow>
   unwrap_epoch_secret C p priv = Err (GBadPrivateKeyLen (length priv))"
  by (simp_all add: unwrap_epoch_secret_def len_simps)

lemma unwrap_group_unfold:
  assumes "length ct = 1120" "length nonce = 12" "length body = 48" "length priv = 2432"
  shows "unwrap_epoch_secret C (ct @ nonce @ body) priv =
    rbind (map_err GKem (hybrid_decap C ct priv)) (\<lambda>shared.
    rbind (group_derive_wrap_key C shared) (\<lambda>key.
    rbind (map_err (\<lambda>_. GUnwrapFailed) (aead_open C key nonce [] body)) (\<lambda>plain.
    if length plain = 32 then Ok plain else Err (GBadSecretLen (length plain)))))"
  using assms by (simp add: unwrap_epoch_secret_def len_simps result_simps cong: if_cong)

lemma wrap_group_roundtrip:
  assumes C: "crypto_ok C" and kp: "generated_pair C pub priv" and l: "length secret = 32"
  shows "\<exists>p w'. wrap_epoch_secret C secret pub w = (Ok p, w') \<and> length p = 1180 \<and>
           unwrap_epoch_secret C p priv = Ok secret"
proof -
  note lp = generated_pair_lengths [OF C kp]
  obtain ct ss w1 key nonce w2 c where e: "hybrid_encap C pub w = (Ok (ct, ss), w1)"
    and k: "group_derive_wrap_key C ss = Ok key"
    and n: "fill_bytes C 12 w1 = (nonce, w2)" and c: "aead_seal C key nonce [] secret = Ok c"
    and len: "length ct = 1120" "length nonce = 12" "length c = length secret + 16"
    and d: "hybrid_decap C ct priv = Ok ss" "aead_open C key nonce [] c = Ok secret"
    using group_box.box [OF C kp, of secret "[]" w] l by (auto simp: GCM_MAX_def)
  have "wrap_epoch_secret C secret pub w = (Ok (ct @ nonce @ c), w2)"
    using l lp e k n c by (simp add: wrap_epoch_secret_def len_simps result_simps)
  moreover have "unwrap_epoch_secret C (ct @ nonce @ c) priv = Ok secret"
    using len l lp d k by (simp add: unwrap_group_unfold)
  ultimately show ?thesis using len l by auto
qed

lemma wrap_group_OkE:
  assumes "wrap_epoch_secret C secret pub w = (Ok p, w')"
  obtains ct ss w1 key nonce c where "length secret = 32" "length pub = 1216"
    "hybrid_encap C pub w = (Ok (ct, ss), w1)" "group_derive_wrap_key C ss = Ok key"
    "fill_bytes C 12 w1 = (nonce, w')" "aead_seal C key nonce [] secret = Ok c"
    "p = ct @ nonce @ c"
  using assms
  by (auto simp: wrap_epoch_secret_def len_simps eff_iffs split: if_splits)

lemma wrap_group_OkD:
  assumes C: "crypto_ok C" and "wrap_epoch_secret C secret pub w = (Ok p, w')"
  shows "length secret = 32 \<and> length pub = 1216 \<and> length p = 1180"
  using assms(2)
proof (rule wrap_group_OkE)
  fix ct ss w1 key nonce c
  assume *: "length secret = 32" "length pub = 1216" "hybrid_encap C pub w = (Ok (ct, ss), w1)"
    "fill_bytes C 12 w1 = (nonce, w')" "aead_seal C key nonce [] secret = Ok c" "p = ct @ nonce @ c"
  show ?thesis
    using * hybrid_encap_Ok_lengths(2) [OF C *(3)] fill_bytes_length [OF C *(4)]
      aead_seal_OkD(3) [OF C *(5)] by simp
qed

lemma unwrap_group_OkD:
  "unwrap_epoch_secret C p priv = Ok secret \<Longrightarrow> length p = 1180 \<and> length secret = 32"
  by (auto simp: unwrap_epoch_secret_def len_simps result_iffs split: if_splits)

lemma wrap_group_no_panic:
  assumes C: "crypto_ok C"
  shows "fst (wrap_epoch_secret C secret pub w) \<noteq> Panic"
proof (cases "length secret = 32 \<and> length pub = 1216")
  case True
  obtain r w1 where e: "hybrid_encap C pub w = (r, w1)" by (metis surj_pair)
  show ?thesis
  proof (cases r)
    case (Ok x)
    obtain ct ss where x: "x = (ct, ss)" by (metis surj_pair)
    obtain key where k: "group_derive_wrap_key C ss = Ok key" "length key = 32"
      using group_wrap_key_total [OF C] by blast
    obtain nonce w2 where n: "fill_bytes C 12 w1 = (nonce, w2)" by (metis surj_pair)
    have "aead_seal C key nonce [] secret \<noteq> Panic"
      using k fill_bytes_length [OF C n] by (simp add: aead_seal_Panic_iff)
    then show ?thesis using True e Ok x k n
      by (cases "aead_seal C key nonce [] secret")
        (simp_all add: wrap_epoch_secret_def len_simps result_simps ebind_def)
  next
    case (Err e')
    then show ?thesis using True e
      by (simp add: wrap_epoch_secret_def len_simps emap_err_def ebind_def)
  next
    case Panic
    then show ?thesis using hybrid_encap_no_panic [OF C, of pub w] e by simp
  qed
next
  case False
  then show ?thesis by (auto simp: wrap_epoch_secret_def len_simps)
qed

lemma unwrap_group_cases:
  assumes C: "crypto_ok C" and l: "length p = 1180" "length priv = 2432"
  shows "(\<exists>e. unwrap_epoch_secret C p priv = Err (GKem e))
       \<or> unwrap_epoch_secret C p priv = Err GUnwrapFailed
       \<or> (\<exists>s. unwrap_epoch_secret C p priv = Ok s \<and> length s = 32)"
proof -
  obtain ct r where "p = ct @ r" and l1: "length ct = 1120" "length r = 60"
    using split_at [of p 1120 60] l by auto
  moreover obtain nonce body where "r = nonce @ body" and l2: "length nonce = 12" "length body = 48"
    using split_at [of r 12 48] l1 by auto
  ultimately have p: "p = ct @ nonce @ body" by simp
  note u = unwrap_group_unfold [OF l1(1) l2 l(2), of C]
  show ?thesis
  proof (cases "hybrid_decap C ct priv")
    case (Ok ss)
    obtain key where k: "group_derive_wrap_key C ss = Ok key" "length key = 32"
      using group_wrap_key_total [OF C] by blast
    have np: "aead_open C key nonce [] body \<noteq> Panic" using k l2 by (simp add: aead_open_Panic_iff)
    show ?thesis
    proof (cases "aead_open C key nonce [] body")
      case m: (Ok m)
      then have "length m = 32" using aead_open_OkD(3) [OF C m] l2 by simp
      then show ?thesis using Ok m k by (simp add: p u)
    qed (use Ok k np in \<open>simp_all add: p u\<close>)
  next
    case Panic
    then show ?thesis using hybrid_decap_no_panic [OF C] by blast
  qed (simp add: p u)
qed

lemma unwrap_group_no_panic:
  assumes "crypto_ok C"
  shows "unwrap_epoch_secret C p priv \<noteq> Panic"
  using unwrap_group_cases [OF assms, of p priv] unwrap_group_bad_inputs [where p = p and C = C and priv = priv]
  by (cases "length p = 1180"; cases "length priv = 2432") auto

interpretation group_wrap: epoch_wrap crypto_ok generated_pair wrap_epoch_secret unwrap_epoch_secret
proof unfold_locales
  fix C :: "('w, 'z) crypto_scheme" and pub priv secret :: bytes and w
  assume "crypto_ok C" "generated_pair C pub priv" "length secret = 32"
  then show "\<exists>p w'. wrap_epoch_secret C secret pub w = (Ok p, w') \<and>
      unwrap_epoch_secret C p priv = Ok secret"
    using wrap_group_roundtrip [of C pub priv secret w] by blast
qed (auto dest: wrap_group_OkD unwrap_group_OkD wrap_group_no_panic unwrap_group_no_panic)

subsection \<open>The counter\<close>

interpretation group_outbound: outbound_ratchet crypto_ok "\<lambda>_. True" er_message_index
    er_next_outbound_key er_message_key
proof unfold_locales
  fix C :: "('w, 'z) crypto_scheme" and r :: "'f epoch_ratchet"
  assume C: "crypto_ok C"
  let ?r = "r\<lparr>er_message_index := er_message_index r + 1\<rparr>"
  obtain k where "(derive_message_key_arr C (er_epoch_secret r) (er_epoch r) (er_message_index r)
      :: ('e, bytes) result) = Ok k"
    using derive_message_key_arr_Ok [OF C] by blast
  then show "\<exists>k r'. (er_next_outbound_key C r :: ('e, _) result) = Ok ((er_message_index r, k), r') \<and>
      (er_message_key C r (er_message_index r) :: ('e, bytes) result) = Ok k \<and>
      er_message_index r' = er_message_index r + 1 \<and> True \<and>
      (\<forall>i. (er_message_key C r' i :: ('e, bytes) result) = er_message_key C r i)"
    by (intro exI [of _ k] exI [of _ ?r]) (simp add: er_next_outbound_key_def er_message_key_def Let_def)
qed

end
