(* ===== verification/Json.thy ===== *)
theory Json
  imports Text "HOL-Library.Char_ord" "HOL-Library.List_Lexorder" "HOL-Library.Multiset"
begin

text \<open>
  JSON values (\<open>serde_json::Value\<close>), Rust's \<open>chars()\<close> over UTF-8 strings, and the canonical
  encoder of \<open>src/pqroute.rs\<close> (\<open>canonical\<close>, \<open>canonical_into\<close>, \<open>encode_string_ascii\<close>,
  \<open>push_u_escape\<close>). The text of a number (\<open>Number::to_string\<close>) and the parser are \<open>serde_json\<close>'s
  and therefore parameters.
\<close>

subsection \<open>Strings as scalar values\<close>

text \<open>
  \<open>chars\<close> decodes UTF-8 to scalar values (\<open>char as u32\<close>, below \<open>0x110000\<close>: no arithmetic on them
  wraps, so they are natural numbers); \<open>utf8\<close> is the encoding of one scalar. A Rust \<open>String\<close> is
  always valid, \<open>valid_str\<close>.
\<close>

definition cont_bits :: "string \<Rightarrow> nat \<Rightarrow> nat" where
  "cont_bits s i = (if i < length s then of_char (s ! i) mod 64 else 0)"

fun chars :: "string \<Rightarrow> nat list" where
  "chars [] = []"
| "chars (a # s) =
     (let x = of_char a :: nat in
      if x < 0x80 then x # chars s
      else if x < 0xE0 then (x mod 32 * 64 + cont_bits s 0) # chars (drop 1 s)
      else if x < 0xF0 then (x mod 16 * 4096 + cont_bits s 0 * 64 + cont_bits s 1) # chars (drop 2 s)
      else (x mod 8 * 262144 + cont_bits s 0 * 4096 + cont_bits s 1 * 64 + cont_bits s 2) # chars (drop 3 s))"

definition utf8 :: "nat \<Rightarrow> string" where
  "utf8 c =
     (if c < 0x80 then [char_of c]
      else if c < 0x800 then [char_of (0xC0 + c div 64), char_of (0x80 + c mod 64)]
      else if c < 0x10000 then
        [char_of (0xE0 + c div 4096), char_of (0x80 + c div 64 mod 64), char_of (0x80 + c mod 64)]
      else
        [char_of (0xF0 + c div 262144), char_of (0x80 + c div 4096 mod 64),
         char_of (0x80 + c div 64 mod 64), char_of (0x80 + c mod 64)])"

definition scalar :: "nat \<Rightarrow> bool" where
  "scalar c \<longleftrightarrow> c < 0x110000 \<and> \<not> (0xD800 \<le> c \<and> c < 0xE000)"

definition valid_str :: "string \<Rightarrow> bool" where
  "valid_str s \<longleftrightarrow> list_all scalar (chars s) \<and> concat (map utf8 (chars s)) = s"

declare chars.simps(2) [simp del]

lemma of_char_of [simp]: "n < 256 \<Longrightarrow> of_char (char_of n :: char) = (n :: nat)"
  by simp

lemma utf8_bits:
  fixes q x :: nat
  shows "q < 32 \<Longrightarrow> (192 + q) mod 32 = q" "q < 16 \<Longrightarrow> (224 + q) mod 16 = q"
    "q < 8 \<Longrightarrow> (240 + q) mod 8 = q" "(128 + x mod 64) mod 64 = x mod 64"
  by (subst mod_add_left_eq [symmetric], simp)+

lemma utf8_digits:
  fixes c :: nat
  shows "c div 64 * 64 + c mod 64 = c" "c div 4096 * 4096 + c div 64 mod 64 * 64 + c mod 64 = c"
    "c div 262144 * 262144 + c div 4096 mod 64 * 4096 + c div 64 mod 64 * 64 + c mod 64 = c"
proof -
  have q: "n div 64 * 64 + n mod 64 = n" for n :: nat by simp
  have d: "c div 4096 = c div 64 div 64" "c div 262144 = c div 64 div 64 div 64"
    by (simp_all add: div_mult2_eq [symmetric])
  show "c div 64 * 64 + c mod 64 = c" by (rule q)
  show "c div 4096 * 4096 + c div 64 mod 64 * 64 + c mod 64 = c"
    using q [of c] q [of "c div 64"] unfolding d by linarith
  show "c div 262144 * 262144 + c div 4096 mod 64 * 4096 + c div 64 mod 64 * 64 + c mod 64 = c"
    using q [of c] q [of "c div 64"] q [of "c div 64 div 64"] unfolding d by linarith
qed

lemma chars_utf8:
  assumes "c < 0x110000"
  shows "chars (utf8 c @ s) = c # chars s"
proof -
  consider "c < 0x80" | "0x80 \<le> c" "c < 0x800" | "0x800 \<le> c" "c < 0x10000" | "0x10000 \<le> c"
    by linarith
  then show ?thesis
  proof cases
    case 1
    then show ?thesis by (simp add: utf8_def chars.simps(2) Let_def)
  next
    case 2
    then have "c div 64 < 32" by auto
    with 2 show ?thesis by (simp add: utf8_def chars.simps(2) Let_def cont_bits_def utf8_bits utf8_digits)
  next
    case 3
    then have "c div 4096 < 16" by auto
    with 3 show ?thesis by (simp add: utf8_def chars.simps(2) Let_def cont_bits_def utf8_bits utf8_digits)
  next
    case 4
    then have "c div 262144 < 8" using assms by auto
    with 4 assms show ?thesis by (simp add: utf8_def chars.simps(2) Let_def cont_bits_def utf8_bits utf8_digits)
  qed
qed

lemma chars_concat_utf8: "list_all (\<lambda>c. c < 0x110000) cs \<Longrightarrow> chars (concat (map utf8 cs)) = cs"
proof (induction cs)
  case (Cons c cs)
  then have "c < 0x110000" "chars (concat (map utf8 cs)) = cs" by simp_all
  then show ?case by (simp only: list.map concat.simps chars_utf8)
qed simp

lemma valid_str_inject: "valid_str s \<Longrightarrow> valid_str t \<Longrightarrow> chars s = chars t \<longleftrightarrow> s = t"
  unfolding valid_str_def by metis

lemma valid_str_utf8: "list_all scalar cs \<Longrightarrow> valid_str (concat (map utf8 cs)) \<and> chars (concat (map utf8 cs)) = cs"
proof -
  assume a: "list_all scalar cs"
  then have "list_all (\<lambda>c. c < 0x110000) cs" by (auto simp: list_all_iff scalar_def)
  then show ?thesis using a by (simp add: valid_str_def chars_concat_utf8)
qed

text \<open>An ASCII string is its own sequence of scalars.\<close>

definition ascii :: "string \<Rightarrow> bool" where
  "ascii s \<longleftrightarrow> list_all (\<lambda>c. (of_char c :: nat) < 0x80) s"

lemma chars_ascii: "ascii s \<Longrightarrow> chars s = map of_char s"
  by (induction s) (simp_all add: ascii_def chars.simps(2) Let_def)

lemma ascii_valid: "ascii s \<Longrightarrow> valid_str s"
proof -
  assume a: "ascii s"
  have "concat (map utf8 (map of_char s)) = s"
    using a by (induction s) (simp_all add: ascii_def utf8_def)
  with a show ?thesis by (auto simp: valid_str_def chars_ascii list_all_iff scalar_def ascii_def)
qed

text \<open>
  \<open>{:?}\<close> of a string (\<open>Debug for str\<close>): quoted, with the escapes of \<open>char::escape_debug\<close>. Which
  scalars above ASCII are not printable, or extend a grapheme, is a Unicode table of the standard
  library, the parameter \<open>U\<close>.
\<close>

fun hex_numeral :: "nat \<Rightarrow> string" where
  "hex_numeral n =
     (if n < 16 then [''0123456789abcdef'' ! n] else hex_numeral (n div 16) @ [''0123456789abcdef'' ! (n mod 16)])"

declare hex_numeral.simps [simp del]

definition escape_debug :: "(nat \<Rightarrow> bool) \<Rightarrow> nat \<Rightarrow> string" where
  "escape_debug U c =
     (if c = 0 then [CHR 0x5C, CHR ''0'']
      else if c = 9 then [CHR 0x5C, CHR ''t'']
      else if c = 13 then [CHR 0x5C, CHR ''r'']
      else if c = 10 then [CHR 0x5C, CHR ''n'']
      else if c = 34 \<or> c = 92 then [CHR 0x5C, char_of c]
      else if c < 32 \<or> c = 127 \<or> 128 \<le> c \<and> U c then [CHR 0x5C] @ ''u{'' @ hex_numeral c @ ''}''
      else utf8 c)"

definition debug_str :: "(nat \<Rightarrow> bool) \<Rightarrow> string \<Rightarrow> string" where
  "debug_str U s = [CHR 0x22] @ concat (map (escape_debug U) (chars s)) @ [CHR 0x22]"

text \<open>A string of plain printable ASCII is only quoted.\<close>

definition plain :: "string \<Rightarrow> bool" where
  "plain s \<longleftrightarrow> list_all (\<lambda>c. 32 \<le> (of_char c :: nat) \<and> of_char c < (127 :: nat) \<and> c \<noteq> CHR 0x22 \<and> c \<noteq> CHR 0x5C) s"

lemma debug_str_plain:
  assumes "plain s"
  shows "debug_str U s = [CHR 0x22] @ s @ [CHR 0x22]"
proof -
  have e: "escape_debug U (of_char c) = [c]"
    if "32 \<le> (of_char c :: nat)" "of_char c < (127 :: nat)" "c \<noteq> CHR 0x22" "c \<noteq> CHR 0x5C" for c
  proof -
    have "of_char c \<noteq> (of_char (CHR 0x22) :: nat)" "of_char c \<noteq> (of_char (CHR 0x5C) :: nat)"
      using that(3,4) by (simp_all only: of_char_eq_iff not_False_eq_True)
    with that(1,2) show ?thesis by (simp add: escape_debug_def utf8_def)
  qed
  have lt: "(of_char c :: nat) < 128" if "(of_char c :: nat) < 127" for c :: char using that by (rule less_trans) simp
  have "ascii s" using assms unfolding ascii_def plain_def by (rule list.pred_mono_strong) (use lt in blast)
  moreover have "concat (map (escape_debug U) (map of_char s)) = s"
    using assms by (induction s) (simp_all add: plain_def e)
  ultimately show ?thesis by (simp add: debug_str_def chars_ascii)
qed

subsection \<open>Values\<close>

datatype 'f number = PosInt u64 | NegInt "64 word" | Float 'f

datatype 'f json =
    JNull
  | JBool bool
  | JNumber "'f number"
  | JString string
  | JArray "'f json list"
  | JObject "(string \<times> 'f json) list"
    \<comment> \<open>the entries of the map in its iteration order; keys are distinct\<close>

subsection \<open>The canonical encoder\<close>

definition hex_digit :: "nat \<Rightarrow> u8" where
  "hex_digit d = lit ''0123456789abcdef'' ! d"

definition push_u_escape :: "nat \<Rightarrow> bytes" where
  "push_u_escape u =
     lit [CHR 0x5C, CHR ''u''] @
     [hex_digit (u div 4096 mod 16), hex_digit (u div 256 mod 16), hex_digit (u div 16 mod 16), hex_digit (u mod 16)]"

text \<open>The match on a character in \<open>encode_string_ascii\<close>.\<close>

definition encode_char_ascii :: "nat \<Rightarrow> bytes" where
  "encode_char_ascii c =
     (if c = 0x22 then lit [CHR 0x5C, CHR 0x22]
      else if c = 0x5C then lit [CHR 0x5C, CHR 0x5C]
      else if c = 0x08 then lit [CHR 0x5C, CHR ''b'']
      else if c = 0x09 then lit [CHR 0x5C, CHR ''t'']
      else if c = 0x0A then lit [CHR 0x5C, CHR ''n'']
      else if c = 0x0C then lit [CHR 0x5C, CHR ''f'']
      else if c = 0x0D then lit [CHR 0x5C, CHR ''r'']
      else if 0x20 \<le> c \<and> c \<le> 0x7E then [word_of_nat c]
      else if c \<le> 0xFFFF then push_u_escape c
      else let v = c - 0x10000; hi = 0xD800 + v div 1024; lo = 0xDC00 + v mod 1024
           in push_u_escape hi @ push_u_escape lo)"

definition encode_string_ascii :: "string \<Rightarrow> bytes" where
  "encode_string_ascii s = lit [CHR 0x22] @ concat (map encode_char_ascii (chars s)) @ lit [CHR 0x22]"

text \<open>The loop that separates elements by commas (\<open>if i > 0 { out.push(b',') }\<close>).\<close>

fun comma_separated :: "bytes list \<Rightarrow> bytes" where
  "comma_separated [] = []"
| "comma_separated [x] = x"
| "comma_separated (x # y # xs) = x @ lit '','' @ comma_separated (y # xs)"

text \<open>
  \<open>canonical\<close>, with \<open>to_string\<close> the text of a number. The keys are sorted as the code does
  (\<open>Vec<&String>::sort\<close>, byte order) and looked up again; a key of the map is always found.
\<close>

function canonical :: "('f number \<Rightarrow> string) \<Rightarrow> 'f json \<Rightarrow> bytes" where
  "canonical to_string JNull = lit ''null''"
| "canonical to_string (JBool b) = (if b then lit ''true'' else lit ''false'')"
| "canonical to_string (JNumber n) = lit (to_string n)"
| "canonical to_string (JString s) = encode_string_ascii s"
| "canonical to_string (JArray vs) =
     lit ''['' @ comma_separated (map (canonical to_string) vs) @ lit '']''"
| "canonical to_string (JObject kvs) =
     lit ''{'' @
     comma_separated (map (\<lambda>k. encode_string_ascii k @ lit '':'' @
        (case map_of kvs k of Some v \<Rightarrow> canonical to_string v | None \<Rightarrow> [])) (sort (map fst kvs))) @
     lit ''}''"
  by pat_completeness auto

lemma json_size_lookup: "map_of kvs k = Some v \<Longrightarrow> size v < size (JObject kvs)"
  by (induction kvs) (auto split: if_splits)

lemma json_size_element: "v \<in> set vs \<Longrightarrow> size v < size (JArray vs)"
  by (induction vs) auto

termination canonical
  by (relation "measure (\<lambda>(_, v). size v)") (auto dest: json_size_lookup json_size_element)

subsection \<open>Strings read back\<close>

text \<open>A reader of one escaped character, the inverse of \<open>encode_char_ascii\<close>.\<close>

definition hex_value :: "u8 \<Rightarrow> nat" where
  "hex_value b = (if b < 58 then unat b - 48 else unat b - 87)"

definition unit_value :: "bytes \<Rightarrow> nat" where
  "unit_value bs = foldl (\<lambda>a b. 16 * a + hex_value b) 0 (take 4 bs)"

definition read_char :: "bytes \<Rightarrow> nat \<times> bytes" where
  "read_char bs =
     (if hd bs \<noteq> 0x5C then (unat (hd bs), drop 1 bs)
      else let e = bs ! 1 in
        if e = 0x22 then (0x22, drop 2 bs) else if e = 0x5C then (0x5C, drop 2 bs)
        else if e = 0x62 then (0x08, drop 2 bs) else if e = 0x74 then (0x09, drop 2 bs)
        else if e = 0x6E then (0x0A, drop 2 bs) else if e = 0x66 then (0x0C, drop 2 bs)
        else if e = 0x72 then (0x0D, drop 2 bs)
        else let u = unit_value (drop 2 bs) in
          if 0xD800 \<le> u \<and> u < 0xDC00
          then (0x10000 + (u - 0xD800) * 1024 + (unit_value (drop 8 bs) - 0xDC00), drop 12 bs)
          else (u, drop 6 bs))"

lemma hex_value_digit:
  assumes "d < 16"
  shows "hex_value (hex_digit d) = d"
proof -
  have "d = 0 \<or> d = 1 \<or> d = 2 \<or> d = 3 \<or> d = 4 \<or> d = 5 \<or> d = 6 \<or> d = 7 \<or> d = 8 \<or> d = 9 \<or>
    d = 10 \<or> d = 11 \<or> d = 12 \<or> d = 13 \<or> d = 14 \<or> d = 15"
    using assms by presburger
  then show ?thesis by (elim disjE) (simp_all add: hex_digit_def hex_value_def)
qed

lemma length_push_u_escape [simp]: "length (push_u_escape u) = 6"
  by (simp add: push_u_escape_def)

lemma unit_value_escape:
  assumes "u < 0x10000"
  shows "unit_value (drop 2 (push_u_escape u @ r)) = u"
proof -
  have "u = ((u div 4096 * 16 + u div 256 mod 16) * 16 + u div 16 mod 16) * 16 + u mod 16"
  proof -
    have q: "n div 16 * 16 + n mod 16 = n" for n :: nat by simp
    have d: "u div 256 = u div 16 div 16" "u div 4096 = u div 16 div 16 div 16"
      by (simp_all add: div_mult2_eq [symmetric])
    show ?thesis unfolding d by (simp only: q)
  qed
  moreover have "u div 4096 < 16" using assms by (simp add: less_mult_imp_div_less)
  ultimately show ?thesis
    by (simp add: unit_value_def push_u_escape_def hex_value_digit algebra_simps)
qed

lemma escape_starts: "push_u_escape u @ r = 0x5C # 0x75 # drop 2 (push_u_escape u @ r)"
  by (simp add: push_u_escape_def)

lemma read_char_escape:
  assumes "u < 0x10000" "\<not> (0xD800 \<le> u \<and> u < 0xDC00)"
  shows "read_char (push_u_escape u @ r) = (u, r)"
proof -
  let ?bs = "push_u_escape u @ r"
  have "hd ?bs = 0x5C" "?bs ! 1 = 0x75" by (subst escape_starts, simp)+
  moreover have "unit_value (drop 2 ?bs) = u" by (rule unit_value_escape [OF assms(1)])
  moreover have "drop 6 ?bs = r" by simp
  ultimately show ?thesis using assms(2) by (simp add: read_char_def Let_def del: drop_append)
qed

lemma read_char_pair:
  assumes "0x10000 \<le> c" "c < 0x110000"
  shows "read_char (push_u_escape (0xD800 + (c - 0x10000) div 1024) @
    push_u_escape (0xDC00 + (c - 0x10000) mod 1024) @ r) = (c, r)"
proof -
  let ?v = "c - 0x10000"
  let ?lo = "0xDC00 + ?v mod 1024" and ?hi = "0xD800 + ?v div 1024"
  let ?bs = "push_u_escape ?hi @ push_u_escape ?lo @ r"
  have v: "?v div 1024 < 1024" using assms by (simp add: less_mult_imp_div_less)
  have m: "?v mod 1024 < 1024" by simp
  have "hd ?bs = 0x5C" "?bs ! 1 = 0x75" by (subst escape_starts, simp)+
  moreover have "unit_value (drop 2 ?bs) = ?hi" by (rule unit_value_escape) (use v in linarith)
  moreover have "drop 8 ?bs = drop 2 (push_u_escape ?lo @ r)" by simp
  then have "unit_value (drop 8 ?bs) = ?lo"
    using unit_value_escape [of ?lo r] m by (simp del: drop_append)
  moreover have "drop 12 ?bs = r" by simp
  moreover have "0x10000 + ?v div 1024 * 1024 + ?v mod 1024 = c"
    using assms div_mult_mod_eq [of ?v 1024] by linarith
  ultimately show ?thesis using v by (simp add: read_char_def Let_def del: drop_append)
qed

lemma unat_ascii_char: "0x20 \<le> c \<Longrightarrow> c \<le> 0x7E \<Longrightarrow> unat (word_of_nat c :: u8) = c"
  by (simp add: unat_of_nat)

lemma read_encoded_char:
  assumes "scalar c"
  shows "read_char (encode_char_ascii c @ r) = (c, r)"
proof -
  have ex: "(word_of_nat c :: u8) \<noteq> 0x5C" if "0x20 \<le> c" "c \<le> 0x7E" "c \<noteq> 0x5C"
  proof
    assume "(word_of_nat c :: u8) = 0x5C"
    then have "unat (word_of_nat c :: u8) = unat (0x5C :: u8)" by simp
    with that unat_ascii_char [OF that(1,2)] show False by simp
  qed
  consider (short) "c \<in> {0x22, 0x5C, 0x08, 0x09, 0x0A, 0x0C, 0x0D}"
    | (plain) "c \<notin> {0x22, 0x5C, 0x08, 0x09, 0x0A, 0x0C, 0x0D}" "0x20 \<le> c" "c \<le> 0x7E"
    | (bmp) "c \<notin> {0x22, 0x5C, 0x08, 0x09, 0x0A, 0x0C, 0x0D}" "\<not> (0x20 \<le> c \<and> c \<le> 0x7E)" "c \<le> 0xFFFF"
    | (astral) "0x10000 \<le> c"
    by fastforce
  then show ?thesis
  proof cases
    case short
    then show ?thesis by (elim insertE emptyE) (simp_all add: encode_char_ascii_def read_char_def)
  next
    case plain
    then show ?thesis using ex by (simp add: encode_char_ascii_def read_char_def unat_ascii_char)
  next
    case bmp
    then have "encode_char_ascii c = push_u_escape c" by (auto simp: encode_char_ascii_def)
    moreover have "c < 0x10000" "\<not> (0xD800 \<le> c \<and> c < 0xDC00)" using bmp assms by (auto simp: scalar_def)
    ultimately show ?thesis using read_char_escape [of c r] by simp
  next
    case astral
    then have "encode_char_ascii c = push_u_escape (0xD800 + (c - 0x10000) div 1024) @
        push_u_escape (0xDC00 + (c - 0x10000) mod 1024)"
      by (simp add: encode_char_ascii_def Let_def)
    moreover have "c < 0x110000" using assms by (simp add: scalar_def)
    ultimately show ?thesis using read_char_pair [OF astral] by (simp only: append_assoc)
  qed
qed

lemma encode_char_Cons: "\<exists>b bs. encode_char_ascii c = b # bs \<and> b \<noteq> 0x22"
proof (cases "0x20 \<le> c \<and> c \<le> 0x7E")
  case True
  have "(word_of_nat c :: u8) \<noteq> 0x22" if "c \<noteq> 0x22"
  proof
    assume "(word_of_nat c :: u8) = 0x22"
    then have "unat (word_of_nat c :: u8) = unat (0x22 :: u8)" by simp
    with that True unat_ascii_char [of c] show False by simp
  qed
  with True show ?thesis by (simp add: encode_char_ascii_def)
next
  case False
  then show ?thesis by (auto simp: encode_char_ascii_def push_u_escape_def Let_def)
qed

lemma encode_chars_inject:
  assumes "list_all scalar cs" "list_all scalar ds"
    and "concat (map encode_char_ascii cs) @ 0x22 # r = concat (map encode_char_ascii ds) @ 0x22 # r'"
  shows "cs = ds \<and> r = r'"
  using assms
proof (induction cs arbitrary: ds)
  case Nil
  show ?case
  proof (cases ds)
    case (Cons d ds')
    obtain b bs where "encode_char_ascii d = b # bs" "b \<noteq> 0x22" using encode_char_Cons by blast
    with Nil.prems(3) Cons show ?thesis by simp
  qed (use Nil in simp)
next
  case (Cons c cs)
  show ?case
  proof (cases ds)
    case Nil
    obtain b bs where "encode_char_ascii c = b # bs" "b \<noteq> 0x22" using encode_char_Cons by blast
    with Cons.prems(3) Nil show ?thesis by simp
  next
    case (Cons d ds')
    let ?x = "concat (map encode_char_ascii cs) @ 0x22 # r"
    let ?y = "concat (map encode_char_ascii ds') @ 0x22 # r'"
    have "read_char (encode_char_ascii c @ ?x) = (c, ?x)" "read_char (encode_char_ascii d @ ?y) = (d, ?y)"
      using Cons.prems(1,2) Cons by (simp_all add: read_encoded_char)
    moreover have "encode_char_ascii c @ ?x = encode_char_ascii d @ ?y"
      using Cons.prems(3) Cons by simp
    ultimately have "c = d" "?x = ?y" by (metis prod.inject)+
    then show ?thesis using Cons.IH [of ds'] Cons.prems(1,2) Cons by simp
  qed
qed

lemma encode_string_inject:
  assumes "valid_str s" "valid_str t" "encode_string_ascii s @ r = encode_string_ascii t @ r'"
  shows "s = t \<and> r = r'"
proof -
  have "list_all scalar (chars s)" "list_all scalar (chars t)"
    using assms(1,2) by (simp_all add: valid_str_def)
  moreover have "concat (map encode_char_ascii (chars s)) @ 0x22 # r = concat (map encode_char_ascii (chars t)) @ 0x22 # r'"
    using assms(3) by (simp add: encode_string_ascii_def)
  ultimately have "chars s = chars t \<and> r = r'" by (rule encode_chars_inject)
  then show ?thesis using assms(1,2) by (simp add: valid_str_inject)
qed

subsection \<open>Canonical bytes determine the value\<close>

text \<open>
  The normal form of a value: object entries sorted by key. Two values with the same normal form are
  equal up to the order of object entries.
\<close>

function json_norm :: "'f json \<Rightarrow> 'f json" where
  "json_norm JNull = JNull"
| "json_norm (JBool b) = JBool b"
| "json_norm (JNumber n) = JNumber n"
| "json_norm (JString s) = JString s"
| "json_norm (JArray vs) = JArray (map json_norm vs)"
| "json_norm (JObject kvs) =
     JObject (map (\<lambda>k. (k, case map_of kvs k of Some v \<Rightarrow> json_norm v | None \<Rightarrow> JNull)) (sort (map fst kvs)))"
  by pat_completeness auto

termination json_norm
  by (relation "measure size") (auto dest: json_size_lookup json_size_element)

text \<open>Well-formed values: valid strings, distinct keys.\<close>

fun json_wf :: "'f json \<Rightarrow> bool" where
  "json_wf (JString s) \<longleftrightarrow> valid_str s"
| "json_wf (JArray vs) \<longleftrightarrow> list_all json_wf vs"
| "json_wf (JObject kvs) \<longleftrightarrow>
     distinct (map fst kvs) \<and> list_all (\<lambda>(k, v). valid_str k \<and> json_wf v) kvs"
| "json_wf v \<longleftrightarrow> True"

text \<open>
  What the encoder needs of the text of numbers: distinct numbers have distinct texts, over the
  characters of JSON numbers.
\<close>

definition number_chars :: string where "number_chars = ''0123456789+-.eE''"

definition number_text_ok :: "('f number \<Rightarrow> string) \<Rightarrow> bool" where
  "number_text_ok to_string \<longleftrightarrow> inj to_string \<and>
     (\<forall>n. to_string n \<noteq> [] \<and> set (to_string n) \<subseteq> set number_chars)"

text \<open>Bytes that may follow a value: a comma or a closing bracket.\<close>

definition stops :: "bytes \<Rightarrow> bool" where
  "stops r \<longleftrightarrow> r = [] \<or> hd r \<in> {0x2C, 0x5D, 0x7D}"

definition value_start :: "bytes \<Rightarrow> bool" where
  "value_start bs \<longleftrightarrow> bs \<noteq> [] \<and> hd bs \<notin> {0x2C, 0x5D, 0x7D}"

lemma number_bytes: "set s \<subseteq> set number_chars \<Longrightarrow> set (lit s) \<inter> {0x2C, 0x5D, 0x7D, 0x6E, 0x74, 0x66, 0x22, 0x5B, 0x7B} = {}"
  by (induction s) (auto simp: number_chars_def)

lemma number_prefix:
  assumes ok: "number_text_ok to_string" and r: "stops r" "stops r'"
    and eq: "lit (to_string n) @ r = lit (to_string m) @ r'"
  shows "n = m \<and> r = r'"
proof -
  let ?P = "\<lambda>b :: u8. b \<notin> {0x2C, 0x5D, 0x7D}"
  have t: "takeWhile ?P (lit (to_string k) @ q) = lit (to_string k)" if "stops q" for k q
  proof -
    have "\<forall>b \<in> set (lit (to_string k)). ?P b"
      using number_bytes [of "to_string k"] ok by (auto simp: number_text_ok_def)
    moreover have "takeWhile ?P q = []" using that by (cases q) (auto simp: stops_def)
    ultimately show ?thesis by (simp add: takeWhile_append2)
  qed
  have "lit (to_string n) = lit (to_string m)" using t [OF r(1)] t [OF r(2)] eq by metis
  then show ?thesis using ok eq by (auto simp: number_text_ok_def inj_def)
qed

lemma comma_separated_Cons: "xs \<noteq> [] \<Longrightarrow> comma_separated (x # xs) = x @ lit '','' @ comma_separated xs"
  by (cases xs) auto

text \<open>A comma-separated list whose items read back uniquely reads back uniquely.\<close>

lemma comma_separated_inject:
  assumes item: "\<And>x y r r'. x \<in> set xs \<Longrightarrow> y \<in> set ys \<Longrightarrow> stops r \<Longrightarrow> stops r' \<Longrightarrow>
      e x @ r = e' y @ r' \<Longrightarrow> R x y \<and> r = r'"
    and start: "\<And>x. x \<in> set xs \<Longrightarrow> value_start (e x)" "\<And>y. y \<in> set ys \<Longrightarrow> value_start (e' y)"
    and c: "c \<in> {0x5D, 0x7D}"
    and eq: "comma_separated (map e xs) @ c # r = comma_separated (map e' ys) @ c # r'"
  shows "list_all2 R xs ys \<and> r = r'"
  using assms
proof (induction xs arbitrary: ys)
  case Nil
  show ?case
  proof (cases ys)
    case (Cons y ys')
    then have "value_start (e' y)" using Nil.prems(3) by simp
    then show ?thesis using Nil.prems(4,5) Cons
      by (cases ys') (auto simp: value_start_def neq_Nil_conv)
  qed (use Nil in simp)
next
  case (Cons x xs)
  show ?case
  proof (cases ys)
    case Nil
    have "value_start (e x)" using Cons.prems(2) by simp
    then show ?thesis using Cons.prems(4,5) Nil
      by (cases xs) (auto simp: value_start_def neq_Nil_conv)
  next
    case (Cons y ys')
    define tx where "tx = (if xs = [] then c # r else 0x2C # comma_separated (map e xs) @ c # r)"
    define ty where "ty = (if ys' = [] then c # r' else 0x2C # comma_separated (map e' ys') @ c # r')"
    have eqs: "e x @ tx = e' y @ ty"
      using Cons.prems(5) Cons by (auto simp: tx_def ty_def comma_separated_Cons)
    have st: "stops tx" "stops ty" using Cons.prems(4) by (auto simp: tx_def ty_def stops_def)
    have "R x y \<and> tx = ty"
      using Cons.prems(1) [OF _ _ st eqs] Cons by simp
    moreover from this have "xs = [] \<longleftrightarrow> ys' = []" "xs = [] \<Longrightarrow> r = r'"
      "xs \<noteq> [] \<Longrightarrow> comma_separated (map e xs) @ c # r = comma_separated (map e' ys') @ c # r'"
      using Cons.prems(4) by (auto simp: tx_def ty_def split: if_splits)
    ultimately show ?thesis
      using Cons.IH [of ys'] Cons.prems(1-4) Cons by (cases "xs = []") auto
  qed
qed

lemma number_start:
  assumes "number_text_ok to_string"
  shows "\<exists>b bs. lit (to_string n) = b # bs \<and> b \<notin> {0x2C, 0x5D, 0x7D, 0x6E, 0x74, 0x66, 0x22, 0x5B, 0x7B}"
proof -
  have ne: "to_string n \<noteq> []" and s: "set (to_string n) \<subseteq> set number_chars"
    using assms by (auto simp: number_text_ok_def)
  then obtain c cs where c: "to_string n = c # cs" by (cases "to_string n") auto
  then show ?thesis using number_bytes [OF s] by auto
qed

lemma canonical_start:
  assumes "number_text_ok to_string"
  shows "value_start (canonical to_string v)"
proof (cases v)
  case (JNumber n)
  then show ?thesis using number_start [OF assms, of n] by (auto simp: value_start_def)
qed (auto simp: value_start_def encode_string_ascii_def)

lemma encode_string_start: "value_start (encode_string_ascii k @ r)"
  by (simp add: value_start_def encode_string_ascii_def)

text \<open>The first byte of an encoding tells the constructor.\<close>

fun json_tag :: "'f json \<Rightarrow> nat" where
  "json_tag JNull = 0"
| "json_tag (JBool b) = (if b then 1 else 2)"
| "json_tag (JNumber n) = 3"
| "json_tag (JString s) = 4"
| "json_tag (JArray vs) = 5"
| "json_tag (JObject kvs) = 6"

definition tag_of_byte :: "u8 \<Rightarrow> nat" where
  "tag_of_byte b =
     (if b = 0x6E then 0 else if b = 0x74 then 1 else if b = 0x66 then 2 else if b = 0x22 then 4
      else if b = 0x5B then 5 else if b = 0x7B then 6 else 3)"

lemma tag_of_canonical:
  assumes "number_text_ok to_string"
  shows "tag_of_byte (hd (canonical to_string v @ r)) = json_tag v"
proof (cases v)
  case (JNumber n)
  then show ?thesis using number_start [OF assms, of n] by (auto simp: tag_of_byte_def)
qed (auto simp: tag_of_byte_def encode_string_ascii_def)

lemma canonical_tag:
  assumes "number_text_ok to_string" "canonical to_string v @ r = canonical to_string v' @ r'"
  shows "json_tag v' = json_tag v"
  using tag_of_canonical [OF assms(1), of v r] tag_of_canonical [OF assms(1), of v' r'] assms(2) by simp

lemma canonical_prefix:
  assumes ok: "number_text_ok to_string" and "json_wf v" "json_wf v'" "stops r" "stops r'"
    and "canonical to_string v @ r = canonical to_string v' @ r'"
  shows "json_norm v = json_norm v' \<and> r = r'"
  using assms(2-)
proof (induction v arbitrary: v' r r' rule: json_norm.induct)
  case 1
  have "v' = JNull" using canonical_tag [OF ok 1(5)] by (cases v') (simp_all split: if_splits)
  with 1 show ?case by simp
next
  case (2 b)
  have "v' = JBool b" using canonical_tag [OF ok 2(5)] by (cases v') (simp_all split: if_splits)
  with 2 show ?case by simp
next
  case (3 n)
  obtain m where v': "v' = JNumber m"
    using canonical_tag [OF ok 3(5)] by (cases v') (simp_all split: if_splits)
  then have "lit (to_string n) @ r = lit (to_string m) @ r'" using 3(5) by simp
  from number_prefix [OF ok 3(3,4) this] v' show ?case by simp
next
  case (4 s)
  obtain t where v': "v' = JString t"
    using canonical_tag [OF ok 4(5)] by (cases v') (simp_all split: if_splits)
  then have "encode_string_ascii s @ r = encode_string_ascii t @ r'" and "valid_str s" "valid_str t"
    using 4(1,2,5) by simp_all
  from encode_string_inject [OF this(2,3,1)] v' show ?case by simp
next
  case (5 vs)
  obtain vs' where v': "v' = JArray vs'"
    using canonical_tag [OF ok "5.prems"(5)] by (cases v') (simp_all split: if_splits)
  have "list_all2 (\<lambda>x y. json_norm x = json_norm y) vs vs' \<and> r = r'"
  proof (rule comma_separated_inject [where c = "0x5D" and e = "canonical to_string" and e' = "canonical to_string"])
    fix x y q q'
    assume "x \<in> set vs" "y \<in> set vs'" "stops q" "stops q'"
      "canonical to_string x @ q = canonical to_string y @ q'"
    then show "json_norm x = json_norm y \<and> q = q'"
      using "5.IH" "5.prems"(1,2) v' by (auto simp: list_all_iff)
  qed (use "5.prems" v' canonical_start [OF ok] in auto)
  then have "map json_norm vs = map json_norm vs'" "r = r'"
    by (auto simp: list_all2_conv_all_nth intro!: nth_equalityI)
  with v' show ?case by simp
next
  case (6 kvs)
  obtain kvs' where v': "v' = JObject kvs'"
    using canonical_tag [OF ok "6.prems"(5)] by (cases v') (simp_all split: if_splits)
  let ?item = "\<lambda>kvs k. encode_string_ascii k @ lit '':'' @
    (case map_of kvs k of Some v \<Rightarrow> canonical to_string v | None \<Rightarrow> [])"
  let ?norm = "\<lambda>kvs k. case map_of kvs k of Some v \<Rightarrow> json_norm v | None \<Rightarrow> JNull"
  let ?R = "\<lambda>k k'. k = k' \<and> ?norm kvs k = ?norm kvs' k'"
  have "list_all2 ?R (sort (map fst kvs)) (sort (map fst kvs')) \<and> r = r'"
  proof (rule comma_separated_inject [where c = "0x7D" and e = "?item kvs" and e' = "?item kvs'"])
    fix k k' q q'
    assume k: "k \<in> set (sort (map fst kvs))" "k' \<in> set (sort (map fst kvs'))"
      and st: "stops q" "stops q'" and eq: "?item kvs k @ q = ?item kvs' k' @ q'"
    obtain x y where x: "map_of kvs k = Some x" and y: "map_of kvs' k' = Some y"
      using k by (metis list.set_map map_of_eq_None_iff not_None_eq set_sort)
    have wf: "valid_str k" "json_wf x" "valid_str k'" "json_wf y"
      using "6.prems"(1,2) v' map_of_SomeD [OF x] map_of_SomeD [OF y] by (auto simp: list_all_iff)
    have "k = k' \<and> 0x3A # canonical to_string x @ q = 0x3A # canonical to_string y @ q'"
      by (rule encode_string_inject [OF wf(1,3)]) (use eq x y in simp)
    then show "?R k k' \<and> q = q'"
      using "6.IH" [OF k(1) x wf(2,4) st] x y by simp
  qed (use "6.prems" v' encode_string_start in auto)
  then have R: "list_all2 ?R (sort (map fst kvs)) (sort (map fst kvs'))" and r: "r = r'" by blast+
  have "map (\<lambda>k. (k, ?norm kvs k)) (sort (map fst kvs)) = map (\<lambda>k. (k, ?norm kvs' k)) (sort (map fst kvs'))"
    using R by (auto simp: list_all2_conv_all_nth intro!: nth_equalityI)
  with v' r show ?case by simp
qed

lemma sort_keys_norm: "sort (map fst (map (\<lambda>k. (k, g k)) (sort ks))) = sort ks"
  by (simp add: comp_def sorted_sort_id)

lemma map_of_norm: "k \<in> set ks \<Longrightarrow> map_of (map (\<lambda>k. (k, g k)) ks) k = Some (g k)"
  by (induction ks) auto

text \<open>The encoder forgets the order of object entries and nothing else.\<close>

lemma canonical_json_norm: "canonical to_string (json_norm v) = canonical to_string v"
proof (induction v rule: json_norm.induct)
  case (5 vs)
  then show ?case by (simp add: comp_def cong: map_cong)
next
  case (6 kvs)
  let ?ks = "sort (map fst kvs)"
  let ?g = "\<lambda>k. case map_of kvs k of Some v \<Rightarrow> json_norm v | None \<Rightarrow> JNull"
  let ?item = "\<lambda>kvs k. encode_string_ascii k @ lit '':'' @
    (case map_of kvs k of Some v \<Rightarrow> canonical to_string v | None \<Rightarrow> [])"
  have "?item (map (\<lambda>k. (k, ?g k)) ?ks) k = ?item kvs k" if k: "k \<in> set ?ks" for k
  proof -
    obtain v where v: "map_of kvs k = Some v"
      using k by (metis list.set_map map_of_eq_None_iff not_None_eq set_sort)
    have "map_of (map (\<lambda>k. (k, ?g k)) ?ks) k = Some (?g k)" by (rule map_of_norm [OF k])
    then show ?thesis using v "6.IH" [OF k v] by simp
  qed
  then have "map (?item (map (\<lambda>k. (k, ?g k)) ?ks)) ?ks = map (?item kvs) ?ks"
    by (rule map_cong [OF refl])
  then show ?case
    unfolding json_norm.simps canonical.simps sort_keys_norm by (simp only:)
qed simp_all

lemma canonical_eq_iff:
  assumes "number_text_ok to_string" "json_wf v" "json_wf v'"
  shows "canonical to_string v = canonical to_string v' \<longleftrightarrow> json_norm v = json_norm v'"
proof
  assume "canonical to_string v = canonical to_string v'"
  then show "json_norm v = json_norm v'"
    using canonical_prefix [OF assms(1-3), of "[]" "[]"] by (simp add: stops_def)
next
  assume "json_norm v = json_norm v'"
  then show "canonical to_string v = canonical to_string v'"
    using canonical_json_norm by metis
qed

subsection \<open>Canonical bytes are printable ASCII\<close>

definition printable :: "bytes \<Rightarrow> bool" where
  "printable bs \<longleftrightarrow> list_all (\<lambda>b. 0x20 \<le> b \<and> b \<le> 0x7E) bs"

lemma printable_append [simp]: "printable (xs @ ys) \<longleftrightarrow> printable xs \<and> printable ys"
  by (simp add: printable_def)

lemma printable_Nil [simp]: "printable []"
  by (simp add: printable_def)

lemma printable_Cons [simp]: "printable (b # bs) \<longleftrightarrow> 0x20 \<le> b \<and> b \<le> 0x7E \<and> printable bs"
  by (auto simp: printable_def)

lemma printable_concat: "(\<And>x. x \<in> set xs \<Longrightarrow> printable (f x)) \<Longrightarrow> printable (concat (map f xs))"
  by (induction xs) auto

lemma printable_comma_separated: "(\<And>x. x \<in> set xs \<Longrightarrow> printable x) \<Longrightarrow> printable (comma_separated xs)"
  by (induction xs rule: comma_separated.induct) auto

lemma printable_hex_digit: "d < 16 \<Longrightarrow> 0x20 \<le> hex_digit d \<and> hex_digit d \<le> 0x7E"
proof -
  have "set (lit ''0123456789abcdef'') \<subseteq> {b. 0x20 \<le> b \<and> b \<le> 0x7E}" by simp
  moreover assume "d < 16"
  then have "hex_digit d \<in> set (lit ''0123456789abcdef'')"
    unfolding hex_digit_def by (rule_tac nth_mem) simp
  ultimately show ?thesis by blast
qed

lemma printable_push_u_escape: "printable (push_u_escape u)"
  by (simp add: push_u_escape_def printable_hex_digit)

lemma printable_encode_char: "printable (encode_char_ascii c)"
proof (cases "0x20 \<le> c \<and> c \<le> 0x7E")
  case True
  then have "0x20 \<le> (word_of_nat c :: u8) \<and> (word_of_nat c :: u8) \<le> 0x7E"
    using unat_ascii_char [of c] by (simp add: word_le_nat_alt)
  then show ?thesis by (simp add: encode_char_ascii_def printable_push_u_escape Let_def)
next
  case False
  then show ?thesis by (auto simp: encode_char_ascii_def printable_push_u_escape Let_def)
qed

lemma printable_encode_string: "printable (encode_string_ascii s)"
  by (simp add: encode_string_ascii_def printable_concat printable_encode_char)

lemma number_text_printable:
  assumes "number_text_ok to_string"
  shows "printable (lit (to_string n))"
proof -
  have "printable (lit s)" if "set s \<subseteq> set number_chars" for s
    using that by (induction s) (auto simp: number_chars_def)
  then show ?thesis using assms by (auto simp: number_text_ok_def)
qed

lemma canonical_printable:
  assumes "number_text_ok to_string"
  shows "printable (canonical to_string v)"
proof (induction v rule: json_norm.induct)
  case (5 vs)
  then show ?case by (auto intro!: printable_comma_separated)
next
  case (6 kvs)
  have "printable (encode_string_ascii k @ lit '':'' @
    (case map_of kvs k of Some v \<Rightarrow> canonical to_string v | None \<Rightarrow> []))" if "k \<in> set (sort (map fst kvs))" for k
    using 6 [OF that] printable_encode_string [of k] by (auto split: option.splits)
  then have "printable (comma_separated (map (\<lambda>k. encode_string_ascii k @ lit '':'' @
      (case map_of kvs k of Some v \<Rightarrow> canonical to_string v | None \<Rightarrow> [])) (sort (map fst kvs))))"
    by (intro printable_comma_separated) (metis (mono_tags, lifting) imageE list.set_map)
  then show ?case by simp
qed (simp_all add: printable_encode_string number_text_printable assms)

subsection \<open>A concrete text of numbers for witnesses\<close>

fun toy_number :: "unit number \<Rightarrow> string" where
  "toy_number (PosInt n) = decimal (unat n)"
| "toy_number (NegInt n) = ''-'' @ decimal (unat n)"
| "toy_number (Float _) = ''0.5''"

lemma decimal_number_chars: "set (decimal n) \<subseteq> set ''0123456789''"
proof
  fix c assume "c \<in> set (decimal n)"
  then obtain d where "d < 10" "c = digit d" using decimal_digits by blast
  moreover have "d = 0 \<or> d = 1 \<or> d = 2 \<or> d = 3 \<or> d = 4 \<or> d = 5 \<or> d = 6 \<or> d = 7 \<or> d = 8 \<or> d = 9"
    using \<open>d < 10\<close> by presburger
  ultimately show "c \<in> set ''0123456789''" by (elim disjE) (simp_all add: digit_def char_of_eq_iff)
qed

lemma toy_number_ok: "number_text_ok toy_number"
proof -
  have d: "CHR ''-'' \<notin> set (decimal n)" "CHR ''.'' \<notin> set (decimal n)" for n
    using decimal_number_chars [of n] by auto
  have ne: "decimal n \<noteq> CHR ''-'' # s" "CHR ''-'' # s \<noteq> decimal n" for n s
    using d(1) [of n] by (metis list.set_intros(1))+
  have nf: "decimal n \<noteq> ''0.5''" "''0.5'' \<noteq> decimal n" for n
  proof -
    have "CHR ''.'' \<in> set ''0.5''" by simp
    with d(2) [of n] show "decimal n \<noteq> ''0.5''" "''0.5'' \<noteq> decimal n" by metis+
  qed
  have "n = m" if "toy_number n = toy_number m" for n m
    using that by (cases n; cases m) (auto simp: decimal_inject ne nf dest: unsigned_word_eqI)
  moreover have "set (decimal n) \<subseteq> set number_chars" for n
    by (rule subset_trans [OF decimal_number_chars]) (simp add: number_chars_def)
  then have "toy_number n \<noteq> [] \<and> set (toy_number n) \<subseteq> set number_chars" for n
    by (cases n) (auto simp: number_chars_def)
  ultimately show ?thesis unfolding number_text_ok_def inj_def by blast
qed

subsection \<open>Maps and the serialiser\<close>

text \<open>\<open>BTreeMap::insert\<close>: the entries are kept sorted by key, an old value is replaced.\<close>

fun btree_insert :: "'k :: linorder \<Rightarrow> 'v \<Rightarrow> ('k \<times> 'v) list \<Rightarrow> ('k \<times> 'v) list" where
  "btree_insert k v [] = [(k, v)]"
| "btree_insert k v ((l, u) # m) =
     (if k < l then (k, v) # (l, u) # m
      else if k = l then (k, v) # m
      else (l, u) # btree_insert k v m)"

lemma set_btree_insert: "fst ` set (btree_insert k v m) = insert k (fst ` set m)"
  by (induction k v m rule: btree_insert.induct) auto

lemma sorted_btree_insert:
  "sorted_wrt (<) (map fst m) \<Longrightarrow> sorted_wrt (<) (map fst (btree_insert k v m))"
proof (induction k v m rule: btree_insert.induct)
  case (2 k v l u m)
  have "\<forall>x \<in> fst ` set (btree_insert k v m). l < x" if "l < k"
    using 2(2) that by (auto simp: set_btree_insert)
  then show ?case using 2 by auto
qed simp

lemma map_of_btree_insert:
  "sorted_wrt (<) (map fst m) \<Longrightarrow> map_of (btree_insert k v m) = (map_of m)(k \<mapsto> v)"
proof (induction k v m rule: btree_insert.induct)
  case (2 k v l u m)
  have "map_of m k = None" if "k < l"
    using 2(2) that by (auto simp: map_of_eq_None_iff)
  then show ?case using 2 by (auto simp: fun_eq_iff)
qed (simp add: fun_eq_iff)

text \<open>\<open>json!({...})\<close>, and \<open>collect\<close> into a \<open>Map\<close>: one insertion after the other.\<close>

definition json_object :: "(string \<times> 'f json) list \<Rightarrow> 'f json" where
  "json_object kvs = JObject (foldl (\<lambda>m (k, v). btree_insert k v m) [] kvs)"

lemma set_btree_insert_new:
  "k \<notin> fst ` set m \<Longrightarrow> set (btree_insert k v m) = insert (k, v) (set m)"
  by (induction k v m rule: btree_insert.induct) auto

lemma foldl_btree_insert:
  assumes "distinct (map fst kvs)" "fst ` set kvs \<inter> fst ` set m = {}" "sorted_wrt (<) (map fst m)"
  shows "set (foldl (\<lambda>m (k, v). btree_insert k v m) m kvs) = set kvs \<union> set m \<and>
    sorted_wrt (<) (map fst (foldl (\<lambda>m (k, v). btree_insert k v m) m kvs))"
  using assms
proof (induction kvs arbitrary: m)
  case (Cons x kvs)
  obtain k v where x: "x = (k, v)" by (cases x)
  have "fst ` set kvs \<inter> fst ` set (btree_insert k v m) = {}"
    using Cons.prems x by (auto simp: set_btree_insert)
  moreover have "sorted_wrt (<) (map fst (btree_insert k v m))"
    using Cons.prems(3) by (rule sorted_btree_insert)
  moreover have "set (btree_insert k v m) = insert (k, v) (set m)"
    using Cons.prems x by (intro set_btree_insert_new) auto
  ultimately show ?case using Cons.IH [of "btree_insert k v m"] Cons.prems(1) x by auto
qed simp

lemma sorted_keys_unique:
  fixes m m' :: "('k :: linorder \<times> 'v) list"
  assumes "sorted_wrt (<) (map fst m)" "sorted_wrt (<) (map fst m')" "set m = set m'"
  shows "m = m'"
proof (rule map_sorted_distinct_set_unique [of fst])
  show "inj_on fst (set m \<union> set m')"
    using assms by (auto simp: strict_sorted_iff distinct_map)
qed (use assms in \<open>auto simp: strict_sorted_iff\<close>)

text \<open>The object does not depend on the order of the insertions.\<close>

lemma json_object_cong:
  assumes "distinct (map fst kvs)" "distinct (map fst kvs')" "set kvs = set kvs'"
  shows "json_object kvs = json_object kvs'"
  using foldl_btree_insert [OF assms(1), of "[]"] foldl_btree_insert [OF assms(2), of "[]"] assms(3)
  by (auto simp: json_object_def intro: sorted_keys_unique)

text \<open>The accessors of \<open>Value\<close>: \<open>get\<close> with a key, \<open>as_str\<close>, \<open>as_u64\<close>, \<open>as_object\<close>, \<open>is_null\<close>.\<close>

fun json_get :: "string \<Rightarrow> 'f json \<Rightarrow> 'f json option" where
  "json_get k (JObject kvs) = map_of kvs k"
| "json_get k v = None"

fun as_str :: "'f json \<Rightarrow> string option" where
  "as_str (JString s) = Some s"
| "as_str v = None"

fun as_u64 :: "'f json \<Rightarrow> u64 option" where
  "as_u64 (JNumber (PosInt n)) = Some n"
| "as_u64 v = None"

fun as_object :: "'f json \<Rightarrow> (string \<times> 'f json) list option" where
  "as_object (JObject kvs) = Some kvs"
| "as_object v = None"

text \<open>
  Floating-point numbers are a type with the operations \<open>serde_json\<close> needs; a number that is not
  finite becomes \<open>null\<close>.
\<close>

record 'f float_ops =
  fo_is_finite :: "'f \<Rightarrow> bool"
  fo_of_u64 :: "u64 \<Rightarrow> 'f"
  fo_of_i64 :: "64 word \<Rightarrow> 'f"

definition json_of_f64 :: "'f float_ops \<Rightarrow> 'f \<Rightarrow> 'f json" where
  "json_of_f64 F x = (if fo_is_finite F x then JNumber (Float x) else JNull)"

fun json_as_f64 :: "'f float_ops \<Rightarrow> 'f json \<Rightarrow> 'f option" where
  "json_as_f64 F (JNumber (PosInt n)) = Some (fo_of_u64 F n)"
| "json_as_f64 F (JNumber (NegInt i)) = Some (fo_of_i64 F i)"
| "json_as_f64 F (JNumber (Float x)) = Some x"
| "json_as_f64 F v = None"

text \<open>
  The functions of \<open>serde_json\<close> the crate calls: \<open>to_vec\<close>, \<open>from_slice\<close> (a value or an error text)
  and the text of a number.
\<close>

record 'f serde =
  sj_to_vec :: "'f json \<Rightarrow> bytes option"
  sj_from_slice :: "bytes \<Rightarrow> string + 'f json"
  sj_number :: "'f number \<Rightarrow> string"

text \<open>
  A flat record of strings and natural numbers with sorted keys. \<open>serde_json\<close> writes every such
  value, and reads back what it wrote, so it writes no two of them alike.
\<close>

fun json_atom :: "'f json \<Rightarrow> bool" where
  "json_atom (JString s) \<longleftrightarrow> valid_str s"
| "json_atom (JNumber (PosInt n)) \<longleftrightarrow> True"
| "json_atom v \<longleftrightarrow> False"

fun json_flat :: "'f json \<Rightarrow> bool" where
  "json_flat (JObject kvs) \<longleftrightarrow>
     sorted_wrt (<) (map fst kvs) \<and> list_all (\<lambda>(k, v). valid_str k \<and> json_atom v) kvs"
| "json_flat v \<longleftrightarrow> False"

definition to_vec_ok :: "'f serde \<Rightarrow> bool" where
  "to_vec_ok J \<longleftrightarrow>
     (\<forall>v. json_flat v \<longrightarrow> sj_to_vec J v \<noteq> None) \<and>
     (\<forall>v v'. json_flat v \<longrightarrow> json_flat v' \<longrightarrow> sj_to_vec J v = sj_to_vec J v' \<longrightarrow> v = v')"

lemma to_vec_okD:
  assumes "to_vec_ok J"
  shows "json_flat v \<Longrightarrow> \<exists>bs. sj_to_vec J v = Some bs"
    and "json_flat v \<Longrightarrow> json_flat v' \<Longrightarrow> sj_to_vec J v = sj_to_vec J v' \<Longrightarrow> v = v'"
  using assms unfolding to_vec_ok_def by blast+

text \<open>A concrete instance for witnesses writes canonical bytes.\<close>

definition toy_serde :: "unit serde" where
  "toy_serde = \<lparr>sj_to_vec = (\<lambda>v. Some (canonical toy_number v)), sj_from_slice = (\<lambda>_. Inl ''no value''),
     sj_number = toy_number\<rparr>"

lemma json_norm_sorted:
  assumes "sorted_wrt (<) (map fst kvs)" "\<And>k v. (k, v) \<in> set kvs \<Longrightarrow> json_norm v = v"
  shows "json_norm (JObject kvs) = JObject kvs"
proof -
  have s: "sort (map fst kvs) = map fst kvs" and d: "distinct (map fst kvs)"
    using assms(1) by (auto simp: strict_sorted_iff sorted_sort_id)
  have "(fst x, case map_of kvs (fst x) of Some v \<Rightarrow> json_norm v | None \<Rightarrow> JNull) = x" if "x \<in> set kvs" for x
  proof -
    obtain k v where x: "x = (k, v)" by (cases x)
    then have "map_of kvs k = Some v" using d that by simp
    then show ?thesis using assms(2) [of k v] that x by simp
  qed
  then have "map (\<lambda>k. (k, case map_of kvs k of Some v \<Rightarrow> json_norm v | None \<Rightarrow> JNull)) (map fst kvs) = kvs"
    unfolding map_map comp_def by (intro map_idI) blast
  then show ?thesis by (simp only: json_norm.simps s)
qed

lemma json_atom_facts: "json_atom v \<Longrightarrow> json_norm v = v \<and> json_wf v"
  by (induction v rule: json_atom.induct) simp_all

lemma json_flat_facts:
  assumes "json_flat v"
  shows "json_wf v" "json_norm v = v"
proof -
  obtain kvs where v: "v = JObject kvs" and so: "sorted_wrt (<) (map fst kvs)"
    and el: "\<And>k u. (k, u) \<in> set kvs \<Longrightarrow> valid_str k \<and> json_atom u"
    using assms by (cases v) (auto simp: list_all_iff)
  have "json_norm (JObject kvs) = JObject kvs"
    by (rule json_norm_sorted [OF so]) (simp add: el json_atom_facts)
  moreover have "list_all (\<lambda>(k, u). valid_str k \<and> json_wf u) kvs"
    using el json_atom_facts by (auto simp: list_all_iff)
  moreover have "distinct (map fst kvs)" using so by (simp add: strict_sorted_iff)
  ultimately show "json_wf v" "json_norm v = v" by (simp_all add: v)
qed

lemma toy_serde_ok: "to_vec_ok toy_serde"
proof -
  have "v = v'" if "json_flat v" "json_flat v'" "canonical toy_number v = canonical toy_number v'"
    for v v' :: "unit json"
    using that(3) canonical_eq_iff [OF toy_number_ok json_flat_facts(1) [OF that(1)] json_flat_facts(1) [OF that(2)]]
      json_flat_facts(2) [OF that(1)] json_flat_facts(2) [OF that(2)] by simp
  then show ?thesis by (simp add: to_vec_ok_def toy_serde_def)
qed

end
