(* ===== verification/Pqdm.thy ===== *)
theory Pqdm
  imports Kem Json
begin

text \<open>
  Hybrid sealing of direct messages and envelope payloads (\<open>src/pqdm.rs\<close>): the downgrade-lock
  associated data, the wrap key, \<open>seal\<close>, \<open>open_sealed\<close> and the negotiation of the suite. The
  serialiser \<open>serde_json::to_vec\<close> is the parameter \<open>J\<close>.
\<close>

subsection \<open>Constants and errors\<close>

definition HYBRID_SUITE :: string where "HYBRID_SUITE = ''x25519-mlkem768''"
definition CLASSICAL_SUITE :: string where "CLASSICAL_SUITE = ''x25519-pgp-wrap-v1''"
definition D_INFO_WRAP :: bytes where "D_INFO_WRAP = lit ''skcomms/pqdm/wrap/v1''"
definition D_WRAP_NONCE_LEN :: nat where "D_WRAP_NONCE_LEN = 12"
definition D_AESGCM_TAG_LEN :: nat where "D_AESGCM_TAG_LEN = 16"
definition D_SEALED_MIN_LEN :: nat where
  "D_SEALED_MIN_LEN = CIPHERTEXT_LEN + D_WRAP_NONCE_LEN + D_AESGCM_TAG_LEN"

lemmas pqdm_lens [len_simps] = D_WRAP_NONCE_LEN_def D_AESGCM_TAG_LEN_def D_SEALED_MIN_LEN_def

datatype pqdm_error =
    DmFormat string
  | DowngradeDetected string
  | DmKem kem_error

text \<open>\<open>Display\<close> and \<open>Error::source\<close> for \<open>PqDmError\<close>.\<close>

fun pqdm_error_to_string :: "pqdm_error \<Rightarrow> string" where
  "pqdm_error_to_string (DmFormat m) = ''pqdm format error: '' @ m"
| "pqdm_error_to_string (DowngradeDetected m) = ''pqdm downgrade detected: '' @ m"
| "pqdm_error_to_string (DmKem e) = ''pqdm KEM error: '' @ kem_error_to_string e"

fun pqdm_error_source :: "pqdm_error \<Rightarrow> kem_error option" where
  "pqdm_error_source (DmKem e) = Some e"
| "pqdm_error_source _ = None"

subsection \<open>The downgrade lock\<close>

definition downgrade_lock_aad ::
  "'f serde \<Rightarrow> string \<Rightarrow> string \<Rightarrow> string \<Rightarrow> bytes option \<Rightarrow> (pqdm_error, bytes) result" where
  "downgrade_lock_aad J negotiated_suite sender recipient extra =
     (let map0 = [];
          map1 = btree_insert ''v'' (JNumber (PosInt 1)) map0;
          map2 = btree_insert ''negotiated_suite'' (JString negotiated_suite) map1;
          map3 = btree_insert ''sender'' (JString sender) map2;
          map4 = btree_insert ''recipient'' (JString recipient) map3
      in rbind (expect (sj_to_vec J (JObject map4))) (\<lambda>head.
         Ok (case extra of Some extra \<Rightarrow> head @ extra | None \<Rightarrow> head)))"

definition pqdm_wrap_key :: "('w, 'z) crypto_scheme \<Rightarrow> bytes \<Rightarrow> bytes \<Rightarrow> (pqdm_error, bytes) result" where
  "pqdm_wrap_key C shared aad = hkdf_expect C (lit '''') shared (D_INFO_WRAP @ lit ''|'' @ aad) 32"

subsection \<open>Seal, open, negotiate\<close>

definition pqdm_seal ::
  "('w, 'z) crypto_scheme \<Rightarrow> 'f serde \<Rightarrow> bytes \<Rightarrow> bytes \<Rightarrow> string \<Rightarrow> string \<Rightarrow> ('w, pqdm_error, bytes) eff" where
  "pqdm_seal C J plaintext recipient_hybrid_pub sender recipient =
     (if length recipient_hybrid_pub \<noteq> PUBLIC_KEY_LEN then
        lift (Err (DmFormat (''hybrid public key must be '' @ decimal PUBLIC_KEY_LEN @ '' bytes, got '' @
          decimal (length recipient_hybrid_pub))))
      else
        ebind (lift (downgrade_lock_aad J HYBRID_SUITE sender recipient None)) (\<lambda>aad.
        ebind (emap_err DmKem (hybrid_encap C recipient_hybrid_pub)) (\<lambda>(ciphertext, shared).
        ebind (lift (pqdm_wrap_key C shared aad)) (\<lambda>key.
        ebind (call (fill_bytes C D_WRAP_NONCE_LEN)) (\<lambda>nonce_bytes.
        ebind (lift (map_err (\<lambda>_. DmFormat ''AES-256-GCM encryption failed'')
          (aead_seal C key nonce_bytes aad plaintext))) (\<lambda>body.
        lift (Ok (ciphertext @ nonce_bytes @ body))))))))"

text \<open>The message of a failed open; \<open>U\<close> is the Unicode table behind \<open>{:?}\<close>.\<close>

definition downgrade_message :: "(nat \<Rightarrow> bool) \<Rightarrow> string \<Rightarrow> string" where
  "downgrade_message U expected_suite =
     ''hybrid-sealed open failed '' @ em_dash @
     '' wrong key, tampered ciphertext, or a suite-downgrade attempt (AAD bound suite='' @
     debug_str U expected_suite @ '')''"

definition pqdm_open_sealed ::
  "('w, 'z) crypto_scheme \<Rightarrow> 'f serde \<Rightarrow> (nat \<Rightarrow> bool) \<Rightarrow> bytes \<Rightarrow> bytes \<Rightarrow> string \<Rightarrow> string \<Rightarrow> string \<Rightarrow>
   (pqdm_error, bytes) result" where
  "pqdm_open_sealed C J U sealed hybrid_private sender recipient expected_suite =
     (if length sealed < D_SEALED_MIN_LEN then
        Err (DmFormat (''sealed blob must be >= '' @ decimal D_SEALED_MIN_LEN @ '' bytes, got '' @
          decimal (length sealed)))
      else
        rbind (slice sealed 0 CIPHERTEXT_LEN) (\<lambda>ciphertext.
        rbind (slice sealed CIPHERTEXT_LEN (CIPHERTEXT_LEN + D_WRAP_NONCE_LEN)) (\<lambda>nonce_bytes.
        rbind (slice sealed (CIPHERTEXT_LEN + D_WRAP_NONCE_LEN) (length sealed)) (\<lambda>body.
        rbind (downgrade_lock_aad J expected_suite sender recipient None) (\<lambda>aad.
        rbind (map_err DmKem (hybrid_decap C ciphertext hybrid_private)) (\<lambda>shared.
        rbind (pqdm_wrap_key C shared aad) (\<lambda>key.
        map_err (\<lambda>_. DowngradeDetected (downgrade_message U expected_suite)) (aead_open C key nonce_bytes aad body))))))))"

definition negotiate_suite :: "bool \<Rightarrow> bool \<Rightarrow> string" where
  "negotiate_suite local_supports_hybrid recipient_has_hybrid =
     (if local_supports_hybrid \<and> recipient_has_hybrid then HYBRID_SUITE else CLASSICAL_SUITE)"

subsection \<open>The associated data\<close>

text \<open>The value that is serialised: sorted keys, whatever the order of insertion.\<close>

definition aad_value :: "string \<Rightarrow> string \<Rightarrow> string \<Rightarrow> 'f json" where
  "aad_value suite sender recipient =
     JObject [(''negotiated_suite'', JString suite), (''recipient'', JString recipient),
              (''sender'', JString sender), (''v'', JNumber (PosInt 1))]"

lemma downgrade_lock_aad_eq:
  "downgrade_lock_aad J suite sender recipient extra =
     rbind (expect (sj_to_vec J (aad_value suite sender recipient))) (\<lambda>head.
       Ok (case extra of Some extra \<Rightarrow> head @ extra | None \<Rightarrow> head))"
  by (simp add: downgrade_lock_aad_def aad_value_def)

lemma aad_value_flat:
  "valid_str suite \<Longrightarrow> valid_str sender \<Longrightarrow> valid_str recipient \<Longrightarrow> json_flat (aad_value suite sender recipient)"
  by (simp add: aad_value_def ascii_valid ascii_def)

text \<open>With a lossless serialiser the associated data determines the suite and both parties.\<close>

lemma downgrade_lock_aad_Ok:
  assumes "to_vec_ok J" "valid_str suite" "valid_str sender" "valid_str recipient"
  shows "\<exists>aad. downgrade_lock_aad J suite sender recipient extra = Ok aad"
proof -
  obtain bs where "sj_to_vec J (aad_value suite sender recipient) = Some bs"
    using to_vec_okD(1) [OF assms(1) aad_value_flat [OF assms(2-4)]] by blast
  then show ?thesis by (simp add: downgrade_lock_aad_eq)
qed

lemma downgrade_lock_aad_inject:
  assumes "to_vec_ok J" "valid_str suite" "valid_str sender" "valid_str recipient"
    and "valid_str suite'" "valid_str sender'" "valid_str recipient'"
    and "downgrade_lock_aad J suite sender recipient extra = Ok aad"
    and "downgrade_lock_aad J suite' sender' recipient' extra = Ok aad"
  shows "suite = suite' \<and> sender = sender' \<and> recipient = recipient'"
proof -
  have "sj_to_vec J (aad_value suite sender recipient) = sj_to_vec J (aad_value suite' sender' recipient')"
    using assms(8,9) by (auto simp: downgrade_lock_aad_eq result_iffs split: option.splits)
  then have "aad_value suite sender recipient = (aad_value suite' sender' recipient' :: 'a json)"
    by (rule to_vec_okD(2) [OF assms(1) aad_value_flat [OF assms(2-4)] aad_value_flat [OF assms(5-7)]])
  then show ?thesis by (simp add: aad_value_def)
qed

subsection \<open>Seal and open\<close>

lemma pqdm_wrap_key_total:
  "crypto_ok C \<Longrightarrow> \<exists>key. pqdm_wrap_key C ss aad = Ok key \<and> length key = 32"
  using hkdf_expect_32 [of C] by (simp add: pqdm_wrap_key_def)

interpretation pqdm_box: hybrid_box crypto_ok generated_pair hybrid_encap hybrid_decap
    "\<lambda>C aad ss. pqdm_wrap_key C ss aad" aead_seal aead_open fill_bytes
  by (rule hybrid_boxI) (rule pqdm_wrap_key_total)

lemma pqdm_open_unfold:
  assumes "length ct = 1120" "length nonce = 12" "16 \<le> length body"
  shows "pqdm_open_sealed C J U (ct @ nonce @ body) priv sender recipient suite =
    rbind (downgrade_lock_aad J suite sender recipient None) (\<lambda>aad.
    rbind (map_err DmKem (hybrid_decap C ct priv)) (\<lambda>shared.
    rbind (pqdm_wrap_key C shared aad) (\<lambda>key.
    map_err (\<lambda>_. DowngradeDetected (downgrade_message U suite)) (aead_open C key nonce aad body))))"
  using assms by (simp add: pqdm_open_sealed_def len_simps result_simps)

lemma pqdm_roundtrip:
  assumes C: "crypto_ok C" and kp: "generated_pair C pub priv"
    and aad: "downgrade_lock_aad J HYBRID_SUITE sender recipient None = Ok aad"
    and l: "length m \<le> GCM_MAX" "length aad \<le> GCM_MAX"
  shows "\<exists>sealed w'. pqdm_seal C J m pub sender recipient w = (Ok sealed, w') \<and>
    length sealed = length m + D_SEALED_MIN_LEN \<and>
    pqdm_open_sealed C J U sealed priv sender recipient HYBRID_SUITE = Ok m"
proof -
  have lp: "length pub = 1216" by (rule generated_pair_lengths [OF C kp])
  obtain ct ss w1 key nonce w2 c where e: "hybrid_encap C pub w = (Ok (ct, ss), w1)"
    and k: "pqdm_wrap_key C ss aad = Ok key" and n: "fill_bytes C 12 w1 = (nonce, w2)"
    and c: "aead_seal C key nonce aad m = Ok c"
    and len: "length ct = 1120" "length nonce = 12" "length c = length m + 16"
    and d: "hybrid_decap C ct priv = Ok ss" "aead_open C key nonce aad c = Ok m"
    using pqdm_box.box [OF C kp l, of w] by auto
  have "pqdm_seal C J m pub sender recipient w = (Ok (ct @ nonce @ c), w2)"
    using lp aad e k n c by (simp add: pqdm_seal_def len_simps result_simps)
  moreover have "pqdm_open_sealed C J U (ct @ nonce @ c) priv sender recipient HYBRID_SUITE = Ok m"
    using len d k aad by (simp add: pqdm_open_unfold)
  ultimately show ?thesis using len by (auto simp: len_simps)
qed

lemma pqdm_seal_OkE:
  assumes "pqdm_seal C J m pub sender recipient w = (Ok sealed, w')"
  obtains aad ct ss w1 key nonce c where "length pub = 1216"
    "downgrade_lock_aad J HYBRID_SUITE sender recipient None = Ok aad"
    "hybrid_encap C pub w = (Ok (ct, ss), w1)" "fill_bytes C 12 w1 = (nonce, w')"
    "aead_seal C key nonce aad m = Ok c" "sealed = ct @ nonce @ c"
  using assms by (auto simp: pqdm_seal_def len_simps eff_iffs split: if_splits)

lemma pqdm_open_OkE:
  assumes "pqdm_open_sealed C J U sealed priv sender recipient suite = Ok m"
  obtains aad key where "1148 \<le> length sealed"
    "downgrade_lock_aad J suite sender recipient None = Ok aad"
    "aead_open C key (take 12 (drop 1120 sealed)) aad (drop 1132 sealed) = Ok m"
  using assms
  by (auto simp: pqdm_open_sealed_def len_simps result_iffs slice_eq_Ok_iff split: if_splits)

lemma pqdm_open_cases:
  assumes C: "crypto_ok C" and aad: "downgrade_lock_aad J suite sender recipient None = Ok aad"
    and l: "1148 \<le> length sealed"
  shows "(\<exists>e. pqdm_open_sealed C J U sealed priv sender recipient suite = Err (DmKem e) \<and>
            hybrid_decap C (take 1120 sealed) priv = Err e) \<or>
         pqdm_open_sealed C J U sealed priv sender recipient suite = Err (DowngradeDetected (downgrade_message U suite)) \<or>
         (\<exists>m. pqdm_open_sealed C J U sealed priv sender recipient suite = Ok m \<and> length sealed = length m + 1148)"
proof -
  define ct nonce body where "ct = take 1120 sealed" and "nonce = take 12 (drop 1120 sealed)"
    and "body = drop 1132 sealed"
  have p: "sealed = ct @ nonce @ body"
    using take_drop_3 [of sealed 1120 12] by (simp add: ct_def nonce_def body_def)
  have l1: "length ct = 1120" and l2: "length nonce = 12" "length body = length sealed - 1132"
    using l by (simp_all add: ct_def nonce_def body_def)
  have lb: "16 \<le> length body" using l2 l by simp
  note u = pqdm_open_unfold [OF l1 l2(1) lb, of C J U priv sender recipient suite, folded p]
  show ?thesis
  proof (cases "hybrid_decap C ct priv")
    case (Ok ss)
    obtain key where k: "pqdm_wrap_key C ss aad = Ok key" "length key = 32"
      using pqdm_wrap_key_total [OF C] by blast
    show ?thesis
    proof (cases "aead_open C key nonce aad body")
      case (Ok m)
      then have "length body = length m + 16" by (rule aead_open_OkD(3) [OF C])
      then show ?thesis using Ok \<open>hybrid_decap C ct priv = Ok ss\<close> k aad l l2 by (simp add: u)
    next
      case Panic
      then show ?thesis using k l2 by (simp add: aead_open_Panic_iff)
    qed (use \<open>hybrid_decap C ct priv = Ok ss\<close> k aad in \<open>simp add: u\<close>)
  next
    case (Err e)
    moreover have "take 1120 sealed = ct" using l1 by (simp add: p)
    ultimately show ?thesis using aad by (simp add: u)
  qed (use hybrid_decap_no_panic [OF C] in blast)
qed

subsection \<open>Properties\<close>

text \<open>
  C25: What is sealed to a generated key opens under its private key to the same bytes, when both sides
  name the same parties and the hybrid suite; the blob is the message plus 1148 bytes.
\<close>

theorem pqdm_seal_open:
  assumes "crypto_ok C" "to_vec_ok J" "generated_pair C pub priv" "valid_str sender" "valid_str recipient"
    and "length m \<le> GCM_MAX"
    and "\<forall>aad. downgrade_lock_aad J HYBRID_SUITE sender recipient None = Ok aad \<longrightarrow> length aad \<le> GCM_MAX"
  shows "\<exists>sealed w'. pqdm_seal C J m pub sender recipient w = (Ok sealed, w') \<and>
    length sealed = length m + D_SEALED_MIN_LEN \<and>
    pqdm_open_sealed C J U sealed priv sender recipient HYBRID_SUITE = Ok m"
proof -
  have "valid_str HYBRID_SUITE" by (rule ascii_valid) (simp add: ascii_def HYBRID_SUITE_def)
  then obtain aad where "downgrade_lock_aad J HYBRID_SUITE sender recipient None = Ok aad"
    using downgrade_lock_aad_Ok [OF assms(2) _ assms(4,5)] by blast
  then show ?thesis using pqdm_roundtrip [OF assms(1,3) _ assms(6)] assms(7) by blast
qed

lemma toy_aad:
  "downgrade_lock_aad toy_serde suite s r None = Ok (canonical toy_number (aad_value suite s r))"
  by (simp add: downgrade_lock_aad_eq toy_serde_def)

lemma canonical_aad_value:
  "canonical toy_number (aad_value suite s r) =
     lit ''{'' @ encode_string_ascii ''negotiated_suite'' @ lit '':'' @ encode_string_ascii suite @ lit '','' @
     encode_string_ascii ''recipient'' @ lit '':'' @ encode_string_ascii r @ lit '','' @
     encode_string_ascii ''sender'' @ lit '':'' @ encode_string_ascii s @ lit '','' @
     encode_string_ascii ''v'' @ lit '':'' @ lit (decimal 1) @ lit ''}''"
  by (simp add: aad_value_def)

lemma length_encode_string_ascii:
  assumes "ascii s"
  shows "length (encode_string_ascii s) \<le> 12 * length s + 2"
proof -
  have c: "length (encode_char_ascii c) \<le> 12" for c by (simp add: encode_char_ascii_def Let_def)
  have "length (concat (map encode_char_ascii cs)) \<le> 12 * length cs" for cs
  proof (induction cs)
    case (Cons d cs)
    then show ?case using c [of d] by simp
  qed simp
  from this [of "chars s"] show ?thesis by (simp add: encode_string_ascii_def chars_ascii assms)
qed

definition no_escapes :: "nat \<Rightarrow> bool" where "no_escapes c = False"

theorem pqdm_seal_open_witness:
  "\<exists>sealed w'. pqdm_seal toy toy_serde (lit ''hi'') toy_pub ''alice'' ''bob'' 0 = (Ok sealed, w') \<and>
    length sealed = length (lit ''hi'') + D_SEALED_MIN_LEN \<and>
    pqdm_open_sealed toy toy_serde no_escapes sealed toy_priv ''alice'' ''bob'' HYBRID_SUITE = Ok (lit ''hi'')"
proof (rule pqdm_seal_open [OF toy_ok toy_serde_ok])
  show "\<forall>aad. downgrade_lock_aad toy_serde HYBRID_SUITE ''alice'' ''bob'' None = Ok aad \<longrightarrow> length aad \<le> GCM_MAX"
    using length_encode_string_ascii [of HYBRID_SUITE] length_encode_string_ascii [of "''alice''"]
      length_encode_string_ascii [of "''bob''"] length_encode_string_ascii [of "''negotiated_suite''"]
      length_encode_string_ascii [of "''recipient''"] length_encode_string_ascii [of "''sender''"]
      length_encode_string_ascii [of "''v''"]
    by (simp add: toy_aad canonical_aad_value ascii_def HYBRID_SUITE_def GCM_MAX_def decimal.simps)
qed (simp_all add: toy_def ascii_valid ascii_def GCM_MAX_def)

text \<open>
  C26: The downgrade lock. A blob sealed for two parties under the hybrid suite opens under another
  suite, or for other parties, only with a forgery against the associated data of AES-GCM.
\<close>

theorem pqdm_downgrade_lock:
  assumes "crypto_ok C" "to_vec_ok J"
    and "valid_str sender" "valid_str recipient" "valid_str sender'" "valid_str recipient'" "valid_str suite'"
    and "pqdm_seal C J m pub sender recipient w = (Ok sealed, w')"
    and "pqdm_open_sealed C J U sealed priv sender' recipient' suite' = Ok m'"
    and "(suite', sender', recipient') \<noteq> (HYBRID_SUITE, sender, recipient)"
  shows "aad_forgery C (drop (CIPHERTEXT_LEN + D_WRAP_NONCE_LEN) sealed)"
proof (rule pqdm_seal_OkE [OF assms(8)], rule pqdm_open_OkE [OF assms(9)])
  fix aad ct ss w1 key nonce c aad' key'
  assume aad: "downgrade_lock_aad J HYBRID_SUITE sender recipient None = Ok aad"
    and aad': "downgrade_lock_aad J suite' sender' recipient' None = Ok aad'"
    and e: "hybrid_encap C pub w = (Ok (ct, ss), w1)" and n: "fill_bytes C 12 w1 = (nonce, w')"
    and c: "aead_seal C key nonce aad m = Ok c" and sealed: "sealed = ct @ nonce @ c"
    and o: "aead_open C key' (take 12 (drop 1120 sealed)) aad' (drop 1132 sealed) = Ok m'"
  have suite: "valid_str HYBRID_SUITE" by (rule ascii_valid) (simp add: ascii_def HYBRID_SUITE_def)
  have "aad' \<noteq> aad"
    using downgrade_lock_aad_inject [OF assms(2) suite assms(3,4,7,5,6) aad] aad' assms(10) by blast
  moreover have "drop 1132 sealed = c"
    using hybrid_encap_Ok_lengths(2) [OF assms(1) e] fill_bytes_length [OF assms(1) n] by (simp add: sealed)
  ultimately show ?thesis using aad_forgeryI [OF c] o by (simp add: len_simps)
qed

lemma toy_sum_lock: "toy_sum (canonical toy_number (aad_value suite s r)) = toy_sum (canonical toy_number (aad_value suite r s))"
  by (simp add: canonical_aad_value toy_sum_def add_ac)

theorem pqdm_downgrade_lock_witness:
  "\<exists>sealed w'. pqdm_seal toy toy_serde (lit ''hi'') toy_pub ''alice'' ''bob'' 0 = (Ok sealed, w') \<and>
     aad_forgery toy (drop (CIPHERTEXT_LEN + D_WRAP_NONCE_LEN) sealed)"
proof -
  have v: "valid_str ''alice''" "valid_str ''bob''" "valid_str HYBRID_SUITE"
    by (simp_all add: ascii_valid ascii_def HYBRID_SUITE_def)
  let ?a = "canonical toy_number (aad_value HYBRID_SUITE ''alice'' ''bob'')"
  let ?b = "canonical toy_number (aad_value HYBRID_SUITE ''bob'' ''alice'')"
  have l: "length ?a \<le> GCM_MAX"
    using length_encode_string_ascii [of HYBRID_SUITE] length_encode_string_ascii [of "''alice''"]
      length_encode_string_ascii [of "''bob''"] length_encode_string_ascii [of "''negotiated_suite''"]
      length_encode_string_ascii [of "''recipient''"] length_encode_string_ascii [of "''sender''"]
      length_encode_string_ascii [of "''v''"]
    by (simp add: canonical_aad_value ascii_def HYBRID_SUITE_def GCM_MAX_def decimal.simps)
  obtain sealed w' where s: "pqdm_seal toy toy_serde (lit ''hi'') toy_pub ''alice'' ''bob'' 0 = (Ok sealed, w')"
    and o: "pqdm_open_sealed toy toy_serde no_escapes sealed toy_priv ''alice'' ''bob'' HYBRID_SUITE = Ok (lit ''hi'')"
    using pqdm_roundtrip [OF toy_ok _ toy_aad _ l, of toy_pub toy_priv "lit ''hi''" 0 no_escapes]
    by (auto simp: toy_def GCM_MAX_def)
  have k: "pqdm_wrap_key toy ss ?a = pqdm_wrap_key toy ss ?b" for ss
    using toy_sum_lock [of HYBRID_SUITE "''alice''" "''bob''"]
    by (simp add: pqdm_wrap_key_def hkdf_expect_def toy_def toy_ext_def toy_sum_def)
  have d: "aead_open toy key n ?a c = aead_open toy key n ?b c" for key n c
    using toy_sum_lock [of HYBRID_SUITE "''alice''" "''bob''"]
    by (simp add: aead_open_def toy_def toy_ext_def toy_tag_def)
  have "pqdm_open_sealed toy toy_serde no_escapes sealed toy_priv ''bob'' ''alice'' HYBRID_SUITE =
      pqdm_open_sealed toy toy_serde no_escapes sealed toy_priv ''alice'' ''bob'' HYBRID_SUITE"
    unfolding pqdm_open_sealed_def toy_aad rbind.simps k d by (rule refl)
  with o have "pqdm_open_sealed toy toy_serde no_escapes sealed toy_priv ''bob'' ''alice'' HYBRID_SUITE = Ok (lit ''hi'')"
    by simp
  from pqdm_downgrade_lock [OF toy_ok toy_serde_ok v(1,2,2,1,3) s this] s show ?thesis by auto
qed

lemma pqdm_decimals: "decimal 1148 = ''1148''" "decimal 1216 = ''1216''"
  by code_simp+

text \<open>
  C27: Opening arbitrary bytes, with any key and for any parties and suite, never panics: a blob below
  the minimal length is a format error, otherwise the outcome is the error of the KEM on its first
  1120 bytes, \<open>DowngradeDetected\<close>, or a plaintext 1148 bytes shorter. Sealing to a key of the wrong
  length is a format error that draws nothing from the random generator.
\<close>

theorem pqdm_outcomes:
  assumes "crypto_ok C" "to_vec_ok J" "valid_str sender" "valid_str recipient" "valid_str suite"
  shows "(if length sealed < D_SEALED_MIN_LEN then
            pqdm_open_sealed C J U sealed priv sender recipient suite =
              Err (DmFormat (''sealed blob must be >= 1148 bytes, got '' @ decimal (length sealed)))
          else
            (\<exists>e. pqdm_open_sealed C J U sealed priv sender recipient suite = Err (DmKem e) \<and>
               hybrid_decap C (take CIPHERTEXT_LEN sealed) priv = Err e) \<or>
            pqdm_open_sealed C J U sealed priv sender recipient suite = Err (DowngradeDetected (downgrade_message U suite)) \<or>
            (\<exists>m. pqdm_open_sealed C J U sealed priv sender recipient suite = Ok m \<and>
               length sealed = length m + D_SEALED_MIN_LEN)) \<and>
         (length pub \<noteq> PUBLIC_KEY_LEN \<longrightarrow>
            pqdm_seal C J m pub sender recipient w =
              (Err (DmFormat (''hybrid public key must be 1216 bytes, got '' @ decimal (length pub))), w))"
proof -
  obtain aad where "downgrade_lock_aad J suite sender recipient None = Ok aad"
    using downgrade_lock_aad_Ok [OF assms(2,5,3,4)] by blast
  note cases = pqdm_open_cases [OF assms(1) this, of sealed U priv]
  have "length sealed < 1148 \<Longrightarrow> pqdm_open_sealed C J U sealed priv sender recipient suite =
      Err (DmFormat (''sealed blob must be >= 1148 bytes, got '' @ decimal (length sealed)))"
    by (simp add: pqdm_open_sealed_def len_simps pqdm_decimals)
  moreover have "length pub \<noteq> 1216 \<Longrightarrow> pqdm_seal C J m pub sender recipient w =
      (Err (DmFormat (''hybrid public key must be 1216 bytes, got '' @ decimal (length pub))), w)"
    by (simp add: pqdm_seal_def len_simps pqdm_decimals)
  ultimately show ?thesis using cases by (auto simp: len_simps not_less)
qed

theorem pqdm_outcomes_witness:
  "pqdm_open_sealed toy toy_serde no_escapes [1, 2, 3] toy_priv ''alice'' ''bob'' HYBRID_SUITE =
     Err (DmFormat (''sealed blob must be >= 1148 bytes, got '' @ decimal 3))"
proof -
  have v: "valid_str ''alice''" "valid_str ''bob''" "valid_str HYBRID_SUITE"
    by (simp_all add: ascii_valid ascii_def HYBRID_SUITE_def)
  show ?thesis
    using pqdm_outcomes [OF toy_ok toy_serde_ok v, of "[1, 2, 3]" no_escapes toy_priv, THEN conjunct1] by (simp add: len_simps numeral_3_eq_3)
qed

text \<open>
  The negotiated suite is the hybrid one exactly when both sides support it, and the classical one
  otherwise; the two ids differ, and the hybrid one is the KEM's own suite id.
\<close>

lemma negotiate_suite_honest:
  "(negotiate_suite local remote = HYBRID_SUITE \<longleftrightarrow> local \<and> remote) \<and>
   (negotiate_suite local remote = CLASSICAL_SUITE \<longleftrightarrow> \<not> (local \<and> remote)) \<and> HYBRID_SUITE = SUITE_ID"
  by (auto simp: negotiate_suite_def HYBRID_SUITE_def CLASSICAL_SUITE_def SUITE_ID_def)

end
