(* ===== verification/Pqroute.thy ===== *)
theory Pqroute
  imports Kem Json
begin

text \<open>
  The routing envelope \<open>pqroute1\<close> (\<open>src/pqroute.rs\<close>): a plaintext route header, a hybrid-sealed inner
  part bound to the header through the associated data. \<open>serde_json\<close>'s parser and number texts are
  the parameter \<open>J\<close>; the canonical encoder is in theory Json.
\<close>

subsection \<open>Constants and errors\<close>

definition ROUTE_SUITE :: string where "ROUTE_SUITE = ''pqroute1''"
definition R_INFO_WRAP :: bytes where "R_INFO_WRAP = lit ''skcomms/pqroute/wrap/v1''"
definition LEN_PREFIX :: nat where "LEN_PREFIX = 4"
definition R_WRAP_NONCE_LEN :: nat where "R_WRAP_NONCE_LEN = 12"
definition R_AESGCM_TAG_LEN :: nat where "R_AESGCM_TAG_LEN = 16"
definition WRAP_KEY_LEN :: nat where "WRAP_KEY_LEN = 32"
definition R_SEALED_MIN_LEN :: nat where
  "R_SEALED_MIN_LEN = CIPHERTEXT_LEN + R_WRAP_NONCE_LEN + R_AESGCM_TAG_LEN"

lemmas pqroute_lens [len_simps] =
  LEN_PREFIX_def R_WRAP_NONCE_LEN_def R_AESGCM_TAG_LEN_def WRAP_KEY_LEN_def R_SEALED_MIN_LEN_def

datatype pqroute_error =
    RtFormat string
  | RtOpen string
  | RtKem kem_error

text \<open>\<open>Display for PqRouteError\<close>.\<close>

fun pqroute_error_to_string :: "pqroute_error \<Rightarrow> string" where
  "pqroute_error_to_string (RtFormat m) = ''pqroute format error: '' @ m"
| "pqroute_error_to_string (RtOpen m) = ''pqroute open error: '' @ m"
| "pqroute_error_to_string (RtKem e) = ''pqroute KEM error: '' @ kem_error_to_string e"

subsection \<open>Associated data and wrap key\<close>

definition build_aad :: "bytes \<Rightarrow> bytes" where
  "build_aad route_canonical = lit ROUTE_SUITE @ lit ''|'' @ route_canonical"

definition route_wrap_key :: "('w, 'z) crypto_scheme \<Rightarrow> bytes \<Rightarrow> bytes \<Rightarrow> (pqroute_error, bytes) result" where
  "route_wrap_key C shared aad = hkdf_expect C (lit '''') shared (R_INFO_WRAP @ lit ''|'' @ aad) WRAP_KEY_LEN"

subsection \<open>Operations\<close>

text \<open>\<open>&blob[a..b]\<close> with a checked end (\<open>usize\<close> has 64 bits).\<close>

definition split_outer :: "bytes \<Rightarrow> (pqroute_error, bytes \<times> bytes) result" where
  "split_outer blob =
     (if length blob < LEN_PREFIX then Err (RtFormat ''blob too short for a route-header length prefix'')
      else
        rbind (slice blob 0 4) (\<lambda>prefix.
        let hdr_len = unat (u32_from_be prefix); start = LEN_PREFIX; stop = start + hdr_len in
        if 2 ^ 64 \<le> stop then Err (RtFormat ''route header length overflow'')
        else if length blob < stop then Err (RtFormat ''route header length exceeds blob size'')
        else rbind (slice blob start stop) (\<lambda>route. rbind (slice blob stop (length blob)) (\<lambda>sealed.
          Ok (route, sealed)))))"

definition parse_json :: "'f serde \<Rightarrow> bytes \<Rightarrow> (string, 'f json) result" where
  "parse_json J bs = (case sj_from_slice J bs of Inl e \<Rightarrow> Err e | Inr v \<Rightarrow> Ok v)"

definition seal_routed ::
  "('w, 'z) crypto_scheme \<Rightarrow> 'f serde \<Rightarrow> 'f json \<Rightarrow> bytes \<Rightarrow> bytes \<Rightarrow> 'f json \<Rightarrow> ('w, pqroute_error, bytes) eff" where
  "seal_routed C J inner_metadata content dest_hybrid_pub route_hdr =
     (if length dest_hybrid_pub \<noteq> PUBLIC_KEY_LEN then
        lift (Err (RtFormat (''dest_hybrid_pub must be '' @ decimal PUBLIC_KEY_LEN @ '' bytes, got '' @
          decimal (length dest_hybrid_pub))))
      else
        let route_bytes = canonical (sj_number J) route_hdr;
            meta_bytes = canonical (sj_number J) inner_metadata;
            inner = u32_be (word_of_nat (length meta_bytes)) @ meta_bytes @ content;
            aad = build_aad route_bytes in
        ebind (emap_err RtKem (hybrid_encap C dest_hybrid_pub)) (\<lambda>(ciphertext, shared).
        ebind (lift (route_wrap_key C shared aad)) (\<lambda>wrap_key.
        ebind (call (fill_bytes C R_WRAP_NONCE_LEN)) (\<lambda>nonce_bytes.
        ebind (lift (map_err (\<lambda>_. RtFormat ''AES-256-GCM seal failed'')
          (aead_seal C wrap_key nonce_bytes aad inner))) (\<lambda>sealed_inner.
        lift (Ok (u32_be (word_of_nat (length route_bytes)) @ route_bytes @ ciphertext @ nonce_bytes @
          sealed_inner)))))))"

definition read_route_header :: "'f serde \<Rightarrow> bytes \<Rightarrow> (pqroute_error, 'f json) result" where
  "read_route_header J blob =
     rbind (split_outer blob) (\<lambda>(route_bytes, _).
     map_err (\<lambda>e. RtFormat (''route header not valid JSON: '' @ e)) (parse_json J route_bytes))"

definition replace_route_header :: "'f serde \<Rightarrow> bytes \<Rightarrow> 'f json \<Rightarrow> (pqroute_error, bytes) result" where
  "replace_route_header J blob new_route_hdr =
     rbind (split_outer blob) (\<lambda>(_, sealed).
     let route_bytes = canonical (sj_number J) new_route_hdr in
     Ok (u32_be (word_of_nat (length route_bytes)) @ route_bytes @ sealed))"

text \<open>The end of \<open>open_routed\<close>: the decrypted inner part.\<close>

definition parse_inner :: "'f serde \<Rightarrow> bytes \<Rightarrow> (pqroute_error, 'f json \<times> bytes) result" where
  "parse_inner J inner =
     (if length inner < LEN_PREFIX then Err (RtOpen ''decrypted inner is truncated'')
      else
        rbind (slice inner 0 4) (\<lambda>prefix.
        let meta_len = unat (u32_from_be prefix) in
        if length inner < LEN_PREFIX + meta_len then
          Err (RtOpen ''decrypted inner metadata length is out of range'')
        else
          rbind (slice inner LEN_PREFIX (LEN_PREFIX + meta_len)) (\<lambda>meta_bytes.
          rbind (slice inner (LEN_PREFIX + meta_len) (length inner)) (\<lambda>content.
          rbind (map_err (\<lambda>e. RtOpen (''inner metadata not valid JSON: '' @ e)) (parse_json J meta_bytes))
            (\<lambda>inner_metadata. Ok (inner_metadata, content))))))"

definition open_routed ::
  "('w, 'z) crypto_scheme \<Rightarrow> 'f serde \<Rightarrow> bytes \<Rightarrow> bytes \<Rightarrow> (pqroute_error, 'f json \<times> 'f json \<times> bytes) result" where
  "open_routed C J blob dest_hybrid_priv =
     rbind (split_outer blob) (\<lambda>(route_bytes, sealed).
     if length sealed < R_SEALED_MIN_LEN then
       Err (RtFormat (''sealed inner must be >= '' @ decimal R_SEALED_MIN_LEN @ '' bytes, got '' @
         decimal (length sealed)))
     else
       rbind (map_err (\<lambda>e. RtFormat (''route header not valid JSON: '' @ e)) (parse_json J route_bytes)) (\<lambda>route_hdr.
       rbind (slice sealed 0 CIPHERTEXT_LEN) (\<lambda>ciphertext.
       rbind (slice sealed CIPHERTEXT_LEN (CIPHERTEXT_LEN + R_WRAP_NONCE_LEN)) (\<lambda>nonce.
       rbind (slice sealed (CIPHERTEXT_LEN + R_WRAP_NONCE_LEN) (length sealed)) (\<lambda>body.
       let aad = build_aad route_bytes in
       rbind (map_err (\<lambda>e. RtOpen (''hybrid decapsulation failed: '' @ kem_error_to_string e))
         (hybrid_decap C ciphertext dest_hybrid_priv)) (\<lambda>shared.
       rbind (route_wrap_key C shared aad) (\<lambda>wrap_key.
       rbind (map_err (\<lambda>_. RtOpen (''pqroute1 open failed '' @ em_dash @
         '' wrong key, tampered inner, or a rewritten route header (the header is AEAD-bound)''))
         (aead_open C wrap_key nonce aad body)) (\<lambda>inner.
       rbind (parse_inner J inner) (\<lambda>(inner_metadata, content).
       Ok (route_hdr, inner_metadata, content))))))))))"

subsection \<open>Framing\<close>

lemma split_outer_frame:
  assumes "length r < 2 ^ 32"
  shows "split_outer (u32_be (word_of_nat (length r)) @ r @ s) = Ok (r, s)"
  using assms by (simp add: split_outer_def len_simps result_simps Let_def unat_of_nat slice_def)

lemma split_outer_OkD:
  assumes "split_outer blob = Ok (r, s)"
  shows "length r < 2 ^ 32 \<and> blob = u32_be (word_of_nat (length r)) @ r @ s"
proof -
  let ?p = "take 4 blob"
  from assms have l: "4 \<le> length blob" "4 + unat (u32_from_be ?p) \<le> length blob"
    and r: "r = take (unat (u32_from_be ?p)) (drop 4 blob)" and s: "s = drop (4 + unat (u32_from_be ?p)) blob"
    by (auto simp: split_outer_def len_simps result_iffs slice_eq_Ok_iff Let_def split: if_splits)
  have lr: "length r = unat (u32_from_be ?p)" using r l by simp
  then have "?p = u32_be (word_of_nat (length r))" using l(1) by (simp add: u32_be_from_be)
  moreover have "blob = ?p @ r @ s" using take_drop_3 [of blob 4 "unat (u32_from_be ?p)"] r s by simp
  moreover have "length r < 2 ^ 32"
    using unsigned_less [of "u32_from_be ?p", where ?'a = nat] lr by simp
  ultimately show ?thesis by simp
qed

lemma split_outer_no_panic [simp]: "split_outer blob \<noteq> Panic"
  by (auto simp: split_outer_def len_simps result_iffs slice_def Let_def split: if_splits)

interpretation outer_frame: canonical_codec "\<lambda>(r, s). u32_be (word_of_nat (length r)) @ r @ s"
    "\<lambda>b. case split_outer b of Ok x \<Rightarrow> Some x | _ \<Rightarrow> None" "\<lambda>(r, s). length r < 2 ^ 32"
  by unfold_locales (auto simp: split_outer_frame dest: split_outer_OkD split: result.splits)

lemma parse_inner_frame:
  assumes "length meta < 2 ^ 32"
  shows "parse_inner J (u32_be (word_of_nat (length meta)) @ meta @ content) =
    rbind (map_err (\<lambda>e. RtOpen (''inner metadata not valid JSON: '' @ e)) (parse_json J meta))
      (\<lambda>v. Ok (v, content))"
  using assms by (simp add: parse_inner_def len_simps result_simps Let_def unat_of_nat slice_def)

lemma parse_json_neq_Panic [simp]: "parse_json J bs \<noteq> Panic"
  by (simp add: parse_json_def split: sum.splits)

lemma parse_inner_no_panic [simp]: "parse_inner J inner \<noteq> Panic"
  by (auto simp: parse_inner_def len_simps result_iffs slice_def Let_def split: if_splits)

subsection \<open>Seal and open\<close>

lemma route_wrap_key_total:
  "crypto_ok C \<Longrightarrow> \<exists>key. route_wrap_key C ss aad = Ok key \<and> length key = 32"
  using hkdf_expect_32 [of C] by (simp add: route_wrap_key_def len_simps)

interpretation route_box: hybrid_box crypto_ok generated_pair hybrid_encap hybrid_decap
    "\<lambda>C aad ss. route_wrap_key C ss aad" aead_seal aead_open fill_bytes
  by (rule hybrid_boxI) (rule route_wrap_key_total)

lemma open_routed_unfold:
  assumes "length r < 2 ^ 32" "length ct = 1120" "length nonce = 12" "16 \<le> length body"
  shows "open_routed C J (u32_be (word_of_nat (length r)) @ r @ ct @ nonce @ body) priv =
    rbind (map_err (\<lambda>e. RtFormat (''route header not valid JSON: '' @ e)) (parse_json J r)) (\<lambda>hdr.
    rbind (map_err (\<lambda>e. RtOpen (''hybrid decapsulation failed: '' @ kem_error_to_string e))
      (hybrid_decap C ct priv)) (\<lambda>shared.
    rbind (route_wrap_key C shared (build_aad r)) (\<lambda>key.
    rbind (map_err (\<lambda>_. RtOpen (''pqroute1 open failed '' @ em_dash @
         '' wrong key, tampered inner, or a rewritten route header (the header is AEAD-bound)''))
      (aead_open C key nonce (build_aad r) body)) (\<lambda>inner.
    rbind (parse_inner J inner) (\<lambda>(meta, content). Ok (hdr, meta, content))))))"
  using assms split_outer_frame [OF assms(1), of "ct @ nonce @ body"]
  by (simp add: open_routed_def len_simps result_simps Let_def)

lemma seal_routed_OkE:
  assumes "seal_routed C J meta content pub hdr w = (Ok blob, w')"
  obtains ct ss w1 key nonce c where "length pub = 1216"
    "hybrid_encap C pub w = (Ok (ct, ss), w1)"
    "route_wrap_key C ss (build_aad (canonical (sj_number J) hdr)) = Ok key" "fill_bytes C 12 w1 = (nonce, w')"
    "aead_seal C key nonce (build_aad (canonical (sj_number J) hdr))
       (u32_be (word_of_nat (length (canonical (sj_number J) meta))) @ canonical (sj_number J) meta @ content) = Ok c"
    "blob = u32_be (word_of_nat (length (canonical (sj_number J) hdr))) @ canonical (sj_number J) hdr @ ct @ nonce @ c"
  using assms by (auto simp: seal_routed_def len_simps eff_iffs Let_def split: if_splits)

lemma seal_routed_roundtrip:
  fixes J :: "'f serde"
  defines "can \<equiv> canonical (sj_number J)"
  assumes C: "crypto_ok C" and kp: "generated_pair C pub priv"
    and p: "parse_json J (can hdr) = Ok hdr'" "parse_json J (can meta) = Ok meta'"
    and l: "length (can hdr) < 2 ^ 32" "length (can meta) < 2 ^ 32"
      "length (can meta) + length content + 4 \<le> GCM_MAX"
  shows "\<exists>blob w'. seal_routed C J meta content pub hdr w = (Ok blob, w') \<and>
    read_route_header J blob = Ok hdr' \<and> open_routed C J blob priv = Ok (hdr', meta', content)"
proof -
  let ?inner = "u32_be (word_of_nat (length (can meta))) @ can meta @ content"
  let ?aad = "build_aad (can hdr)"
  have lp: "length pub = 1216" by (rule generated_pair_lengths [OF C kp])
  have li: "length ?inner \<le> GCM_MAX" using l(3) by simp
  have la: "length ?aad \<le> GCM_MAX" using l(1) by (simp add: build_aad_def ROUTE_SUITE_def GCM_MAX_def)
  obtain ct ss w1 key nonce w2 c where e: "hybrid_encap C pub w = (Ok (ct, ss), w1)"
    and k: "route_wrap_key C ss ?aad = Ok key" and n: "fill_bytes C 12 w1 = (nonce, w2)"
    and c: "aead_seal C key nonce ?aad ?inner = Ok c"
    and len: "length ct = 1120" "length nonce = 12" "length c = length ?inner + 16"
    and d: "hybrid_decap C ct priv = Ok ss" "aead_open C key nonce ?aad c = Ok ?inner"
    using route_box.box [OF C kp li la, of w] by auto
  let ?blob = "u32_be (word_of_nat (length (can hdr))) @ can hdr @ ct @ nonce @ c"
  have "seal_routed C J meta content pub hdr w = (Ok ?blob, w2)"
    using lp e k n c by (simp add: seal_routed_def len_simps result_simps Let_def can_def)
  moreover have "read_route_header J ?blob = Ok hdr'"
    using p(1) by (simp add: read_route_header_def split_outer_frame [OF l(1)])
  moreover have "open_routed C J ?blob priv = Ok (hdr', meta', content)"
    using p d k len by (simp add: open_routed_unfold [OF l(1) len(1,2)] parse_inner_frame [OF l(2)])
  ultimately show ?thesis by blast
qed

lemma open_routed_OkE:
  assumes "open_routed C J blob priv = Ok (hdr, meta, content)"
  obtains r s key inner where "split_outer blob = Ok (r, s)" "1148 \<le> length s"
    "parse_json J r = Ok hdr" "aead_open C key (take 12 (drop 1120 s)) (build_aad r) (drop 1132 s) = Ok inner"
    "parse_inner J inner = Ok (meta, content)"
  using assms
  by (auto simp: open_routed_def len_simps result_iffs slice_eq_Ok_iff Let_def split: if_splits)

lemma open_routed_no_panic:
  assumes C: "crypto_ok C"
  shows "open_routed C J blob priv \<noteq> Panic"
proof
  assume p: "open_routed C J blob priv = Panic"
  then obtain r s where sp: "split_outer blob = Ok (r, s)" and l: "1148 \<le> length s"
    by (auto simp: open_routed_def len_simps rbind_eq_Panic_iff split: if_splits)
  define ct nonce body where "ct = take 1120 s" and "nonce = take 12 (drop 1120 s)" and "body = drop 1132 s"
  have s: "s = ct @ nonce @ body"
    using take_drop_3 [of s 1120 12] by (simp add: ct_def nonce_def body_def)
  have ln: "length ct = 1120" "length nonce = 12" "16 \<le> length body" using l by (simp_all add: ct_def nonce_def body_def)
  have b: "length r < 2 ^ 32" "blob = u32_be (word_of_nat (length r)) @ r @ ct @ nonce @ body"
    using split_outer_OkD [OF sp] s by simp_all
  have np: "aead_open C key nonce aad body \<noteq> Panic" if "route_wrap_key C ss (build_aad r) = Ok key" for key ss aad
    using route_wrap_key_total [OF C, of ss "build_aad r"] that ln(2) by (auto simp: aead_open_Panic_iff)
  show False
    using p hybrid_decap_no_panic [OF C] np route_wrap_key_total [OF C]
    unfolding b(2) open_routed_unfold [OF b(1) ln]
    by (auto simp: rbind_eq_Panic_iff split: prod.splits) (metis result.distinct(3))+
qed

subsection \<open>Properties of the canonical encoder\<close>

text \<open>
  C28: Canonical bytes determine the value. Two well-formed values have the same canonical encoding
  exactly when they are equal up to the order of object entries at every level; in particular the
  encoding does not depend on the order in which a map is iterated.
\<close>

theorem canonical_injective:
  assumes "number_text_ok to_string" "json_wf v" "json_wf v'"
  shows "canonical to_string v = canonical to_string v' \<longleftrightarrow> json_norm v = json_norm v'"
  by (rule canonical_eq_iff [OF assms])

theorem canonical_injective_witness:
  "canonical toy_number (JObject [(''v'', JNumber (PosInt 1)), (''to'', JString ''r7'')]) =
   canonical toy_number (JObject [(''to'', JString ''r7''), (''v'', JNumber (PosInt 1))]) \<and>
   canonical toy_number (JArray [JString ''1'']) \<noteq> canonical toy_number (JArray [JNumber (PosInt 1)])"
  using canonical_injective [OF toy_number_ok, of "JObject [(''v'', JNumber (PosInt 1)), (''to'', JString ''r7'')]"
      "JObject [(''to'', JString ''r7''), (''v'', JNumber (PosInt 1))]"]
    canonical_injective [OF toy_number_ok, of "JArray [JString ''1'']" "JArray [JNumber (PosInt 1)]"]
  by (simp add: ascii_valid ascii_def)

text \<open>
  Canonical bytes are printable ASCII, whatever characters the strings contain: what is outside
  \<open>0x20..0x7e\<close> is escaped.
\<close>

lemma canonical_ascii:
  assumes "number_text_ok to_string"
  shows "printable (canonical to_string v)"
  by (rule canonical_printable [OF assms])

lemma canonical_ascii_witness:
  "printable (canonical toy_number (JString [CHR 0xC3, CHR 0xA9]))"
  by (rule canonical_ascii [OF toy_number_ok])

subsection \<open>Properties of the envelope\<close>

text \<open>
  C29: An envelope sealed to a generated key opens to what was put in: a relay reads the header, the
  destination reads the header, the metadata and the content. (\<open>hdr'\<close> and \<open>meta'\<close> are what the JSON
  parser reads in the canonical texts of the header and the metadata.)
\<close>

theorem route_roundtrip:
  assumes "crypto_ok C" "generated_pair C pub priv"
    and "parse_json J (canonical (sj_number J) hdr) = Ok hdr'"
    and "parse_json J (canonical (sj_number J) meta) = Ok meta'"
    and "length (canonical (sj_number J) hdr) < 2 ^ 32" "length (canonical (sj_number J) meta) < 2 ^ 32"
    and "length (canonical (sj_number J) meta) + length content + 4 \<le> GCM_MAX"
  shows "\<exists>blob w'. seal_routed C J meta content pub hdr w = (Ok blob, w') \<and>
    read_route_header J blob = Ok hdr' \<and> open_routed C J blob priv = Ok (hdr', meta', content)"
  by (rule seal_routed_roundtrip [OF assms])

text \<open>A header, metadata, and a parser that knows their texts.\<close>

definition toy_hdr :: "string \<Rightarrow> unit json" where "toy_hdr relay = JObject [(''to'', JString relay)]"
definition toy_meta :: "unit json" where "toy_meta = JNull"

definition toy_route :: "unit serde" where
  "toy_route = toy_serde\<lparr>sj_from_slice := (\<lambda>bs.
     if bs = canonical toy_number (toy_hdr ''ab'') then Inr (toy_hdr ''ab'')
     else if bs = canonical toy_number (toy_hdr ''ba'') then Inr (toy_hdr ''ba'')
     else if bs = canonical toy_number toy_meta then Inr toy_meta else Inl ''unknown'')\<rparr>"

lemma canonical_toy_hdr:
  "canonical toy_number (toy_hdr r) =
     lit ''{'' @ encode_string_ascii ''to'' @ lit '':'' @ encode_string_ascii r @ lit ''}''"
  by (simp add: toy_hdr_def)

lemma canonical_toy_meta: "canonical toy_number toy_meta = lit ''null''"
  by (simp add: toy_meta_def)

lemma toy_hdr_distinct: "canonical toy_number (toy_hdr ''ba'') \<noteq> canonical toy_number (toy_hdr ''ab'')"
  using canonical_eq_iff [OF toy_number_ok, of "toy_hdr ''ba''" "toy_hdr ''ab''"]
  by (simp add: toy_hdr_def ascii_valid ascii_def)

lemma toy_route_number [simp]: "sj_number toy_route = toy_number"
  by (simp add: toy_route_def toy_serde_def)

lemma toy_route_parses:
  "parse_json toy_route (canonical toy_number (toy_hdr ''ab'')) = Ok (toy_hdr ''ab'')"
  "parse_json toy_route (canonical toy_number (toy_hdr ''ba'')) = Ok (toy_hdr ''ba'')"
  "parse_json toy_route (canonical toy_number toy_meta) = Ok toy_meta"
proof -
  have "canonical toy_number toy_meta \<noteq> canonical toy_number (toy_hdr r)" for r
    by (simp add: canonical_toy_hdr canonical_toy_meta)
  then show "parse_json toy_route (canonical toy_number (toy_hdr ''ab'')) = Ok (toy_hdr ''ab'')"
    "parse_json toy_route (canonical toy_number (toy_hdr ''ba'')) = Ok (toy_hdr ''ba'')"
    "parse_json toy_route (canonical toy_number toy_meta) = Ok toy_meta"
    using toy_hdr_distinct by (simp_all add: parse_json_def toy_route_def)
qed

lemma toy_route_lengths:
  "length (canonical toy_number (toy_hdr ''ab'')) < 100" "length (canonical toy_number (toy_hdr ''ba'')) < 100"
  "length (canonical toy_number toy_meta) < 100"
  by (simp_all add: canonical_toy_hdr canonical_toy_meta encode_string_ascii_def chars_ascii ascii_def encode_char_ascii_def)

theorem route_roundtrip_witness:
  "\<exists>blob w'. seal_routed toy toy_route toy_meta (lit ''hi'') toy_pub (toy_hdr ''ab'') 0 = (Ok blob, w') \<and>
    read_route_header toy_route blob = Ok (toy_hdr ''ab'') \<and>
    open_routed toy toy_route blob toy_priv = Ok (toy_hdr ''ab'', toy_meta, lit ''hi'')"
  using route_roundtrip [OF toy_ok, of toy_pub toy_priv toy_route "toy_hdr ''ab''" "toy_hdr ''ab''" toy_meta toy_meta "lit ''hi''" 0]
    toy_route_lengths
  by (simp add: toy_def toy_route_parses GCM_MAX_def)

text \<open>
  C30: The route header is authenticated although it travels in the clear. If a relay replaces it by a
  header that is not the same value, and the destination still opens the envelope, with any key, then
  a forgery against the associated data of AES-GCM has been found.
\<close>

theorem route_header_bound:
  assumes "crypto_ok C" "number_text_ok (sj_number J)" "json_wf hdr" "json_wf new" "json_norm new \<noteq> json_norm hdr"
    and "length (canonical (sj_number J) hdr) < 2 ^ 32" "length (canonical (sj_number J) new) < 2 ^ 32"
    and "seal_routed C J meta content pub hdr w = (Ok blob, w')"
    and "replace_route_header J blob new = Ok blob'" "open_routed C J blob' priv = Ok x"
  shows "\<exists>body. aad_forgery C body \<and> blob = take (length blob - length body) blob @ body"
proof -
  let ?h = "canonical (sj_number J) hdr" and ?n = "canonical (sj_number J) new"
  obtain ct ss w1 key nonce c msg where e: "hybrid_encap C pub w = (Ok (ct, ss), w1)"
    and n: "fill_bytes C 12 w1 = (nonce, w')" and c: "aead_seal C key nonce (build_aad ?h) msg = Ok c"
    and blob: "blob = u32_be (word_of_nat (length ?h)) @ ?h @ ct @ nonce @ c"
    using seal_routed_OkE [OF assms(8)] by metis
  have "blob' = u32_be (word_of_nat (length ?n)) @ ?n @ ct @ nonce @ c"
    using assms(9) split_outer_frame [OF assms(6), of "ct @ nonce @ c"]
    by (simp add: replace_route_header_def blob Let_def)
  then have sp: "split_outer blob' = Ok (?n, ct @ nonce @ c)"
    by (simp add: split_outer_frame [OF assms(7)])
  obtain h m co where x: "x = (h, m, co)" by (cases x)
  have "drop 1132 (ct @ nonce @ c) = c"
    using hybrid_encap_Ok_lengths(2) [OF assms(1) e] fill_bytes_length [OF assms(1) n] by simp
  then obtain key' nonce' inner where o: "aead_open C key' nonce' (build_aad ?n) c = Ok inner"
    using open_routed_OkE [OF assms(10) [unfolded x]] sp by (metis Pair_inject result.inject(1))
  have "build_aad ?n \<noteq> build_aad ?h"
    using canonical_eq_iff [OF assms(2,4,3)] assms(5) by (simp add: build_aad_def)
  from aad_forgeryI [OF c o this] have "aad_forgery C c" .
  moreover have "blob = take (length blob - length c) blob @ c" by (simp add: blob)
  ultimately show ?thesis by blast
qed

lemma toy_hdr_sum: "toy_sum (canonical toy_number (toy_hdr ''ba'')) = toy_sum (canonical toy_number (toy_hdr ''ab''))"
  by (simp add: canonical_toy_hdr toy_sum_def encode_string_ascii_def chars_ascii ascii_def encode_char_ascii_def)

theorem route_header_bound_witness:
  "\<exists>blob w' body. seal_routed toy toy_route toy_meta (lit ''hi'') toy_pub (toy_hdr ''ab'') 0 = (Ok blob, w') \<and>
     aad_forgery toy body \<and> blob = take (length blob - length body) blob @ body"
proof -
  let ?a = "canonical toy_number (toy_hdr ''ab'')" and ?b = "canonical toy_number (toy_hdr ''ba'')"
  obtain blob w' where s: "seal_routed toy toy_route toy_meta (lit ''hi'') toy_pub (toy_hdr ''ab'') 0 = (Ok blob, w')"
    and o: "open_routed toy toy_route blob toy_priv = Ok (toy_hdr ''ab'', toy_meta, lit ''hi'')"
    using seal_routed_roundtrip [OF toy_ok, of toy_pub toy_priv toy_route "toy_hdr ''ab''" "toy_hdr ''ab''"
        toy_meta toy_meta "lit ''hi''" 0] toy_route_lengths
    by (auto simp: toy_def toy_route_parses GCM_MAX_def)
  obtain ct ss w1 key nonce c where blob: "blob = u32_be (word_of_nat (length ?a)) @ ?a @ ct @ nonce @ c"
    and e: "hybrid_encap toy toy_pub 0 = (Ok (ct, ss), w1)" and n: "fill_bytes toy 12 w1 = (nonce, w')"
    and c: "aead_seal toy key nonce (build_aad ?a)
       (u32_be (word_of_nat (length (canonical toy_number toy_meta))) @ canonical toy_number toy_meta @ lit ''hi'') = Ok c"
    using seal_routed_OkE [OF s] unfolding toy_route_number by metis
  let ?blob = "u32_be (word_of_nat (length ?b)) @ ?b @ ct @ nonce @ c"
  have la: "length ?a < 2 ^ 32" and lb: "length ?b < 2 ^ 32" using toy_route_lengths by simp_all
  have ln: "length ct = 1120" "length nonce = 12" "16 \<le> length c"
    using hybrid_encap_Ok_lengths(2) [OF toy_ok e] fill_bytes_length [OF toy_ok n] aead_seal_OkD(3) [OF toy_ok c]
    by simp_all
  have r: "replace_route_header toy_route blob (toy_hdr ''ba'') = Ok ?blob"
    by (simp add: replace_route_header_def blob split_outer_frame [OF la] Let_def)
  have k: "route_wrap_key toy ss (build_aad ?b) = route_wrap_key toy ss (build_aad ?a)" for ss
    using toy_hdr_sum by (simp add: route_wrap_key_def hkdf_expect_def toy_def toy_ext_def toy_sum_def build_aad_def)
  have d: "aead_open toy key n (build_aad ?b) c = aead_open toy key n (build_aad ?a) c" for key n c
    using toy_hdr_sum by (simp add: aead_open_def toy_def toy_ext_def toy_tag_def toy_sum_def build_aad_def)
  have "open_routed toy toy_route ?blob toy_priv = Ok (toy_hdr ''ba'', toy_meta, lit ''hi'')"
    using o unfolding blob open_routed_unfold [OF la ln] open_routed_unfold [OF lb ln] toy_route_parses k d
    by (auto simp: result_iffs)
  from route_header_bound [OF toy_ok _ _ _ _ _ _ s r this] la lb
  show ?thesis using s toy_number_ok by (auto simp: toy_hdr_def ascii_valid ascii_def)
qed

text \<open>
  Framing. An envelope splits into its header and its sealed part exactly when it is the length of
  the header, the header and the sealed part, and no bytes make the split panic.
\<close>

lemma route_framing:
  "(split_outer blob = Ok (r, s) \<longleftrightarrow> length r < 2 ^ 32 \<and> blob = u32_be (word_of_nat (length r)) @ r @ s) \<and>
   split_outer blob \<noteq> Panic"
  using split_outer_frame [of r s] split_outer_OkD [of blob r s] split_outer_no_panic by blast

text \<open>
  C31: Opening arbitrary bytes with any key never panics, nor does reading or replacing the header. A
  private key of the wrong length shows as an open error that quotes the KEM's message, not as a
  format error.
\<close>

theorem route_outcomes:
  assumes "crypto_ok C"
  shows "open_routed C J blob priv \<noteq> Panic \<and> read_route_header J blob \<noteq> Panic \<and>
    replace_route_header J blob new \<noteq> Panic \<and>
    (\<forall>r s hdr. split_outer blob = Ok (r, s) \<longrightarrow> R_SEALED_MIN_LEN \<le> length s \<longrightarrow> parse_json J r = Ok hdr \<longrightarrow>
       length priv \<noteq> PRIVATE_KEY_LEN \<longrightarrow>
       open_routed C J blob priv = Err (RtOpen (''hybrid decapsulation failed: '' @
         kem_error_to_string (BadLength ''hybrid private key'' PRIVATE_KEY_LEN (length priv)))))"
proof (intro conjI allI impI)
  show "open_routed C J blob priv \<noteq> Panic" by (rule open_routed_no_panic [OF assms])
  show "read_route_header J blob \<noteq> Panic"
    by (auto simp: read_route_header_def result_iffs split: prod.splits)
  show "replace_route_header J blob new \<noteq> Panic"
    by (auto simp: replace_route_header_def result_iffs Let_def split: prod.splits)
  fix r s hdr
  assume sp: "split_outer blob = Ok (r, s)" and l: "R_SEALED_MIN_LEN \<le> length s"
    and h: "parse_json J r = Ok hdr" and p: "length priv \<noteq> PRIVATE_KEY_LEN"
  have ct: "length (take 1120 s) = 1120" using l by (simp add: len_simps)
  have "hybrid_decap C (take 1120 s) priv = Err (BadLength ''hybrid private key'' 2432 (length priv))"
    using hybrid.decap_bad_lengths [OF assms ct] p by (simp add: len_simps)
  then show "open_routed C J blob priv = Err (RtOpen (''hybrid decapsulation failed: '' @
      kem_error_to_string (BadLength ''hybrid private key'' PRIVATE_KEY_LEN (length priv))))"
    using sp l h by (simp add: open_routed_def len_simps slice_def Let_def)
qed

theorem route_outcomes_witness:
  "open_routed toy toy_route [0, 0, 0] toy_priv \<noteq> Panic"
  using route_outcomes [OF toy_ok] by blast

end
