(* ===== verification/Key_Properties.thy ===== *)
theory Key_Properties
  imports Ratchet Group_Ratchet Pqdm Pqroute
begin

text \<open>
  The properties of the key layer: the hybrid KEM (\<open>src/kem.rs\<close>), the direct-message ratchet
  (\<open>src/ratchet.rs\<close>) and the group ratchet (\<open>src/group_ratchet.rs\<close>).
\<close>

subsection \<open>The hybrid KEM\<close>

text \<open>
  C22: Agreement. Encapsulating to the public key of a generated pair always succeeds, the ciphertext
  and the secret have their wire lengths, and decapsulating under the private key gives the same
  32-byte secret.
\<close>

theorem hybrid_agreement:
  assumes "crypto_ok C" "generated_pair C pub priv"
  shows "length pub = PUBLIC_KEY_LEN \<and> length priv = PRIVATE_KEY_LEN \<and>
    (\<exists>ct ss w'. hybrid_encap C pub w = (Ok (ct, ss), w') \<and> length ct = CIPHERTEXT_LEN \<and>
       length ss = SHARED_SECRET_LEN \<and> hybrid_decap C ct priv = Ok ss)"
  using generated_pair_lengths [OF assms] hybrid_roundtrip [OF assms, of w] by (simp add: len_simps)

theorem hybrid_agreement_witness:
  "\<exists>ct ss w'. hybrid_encap toy toy_pub 5 = (Ok (ct, ss), w') \<and> hybrid_decap toy ct toy_priv = Ok ss"
proof -
  have "generated_pair toy toy_pub toy_priv" by (simp add: toy_def)
  from hybrid_agreement [OF toy_ok this, of 5] show ?thesis by blast
qed

text \<open>
  C23: Decapsulation of arbitrary bytes under an arbitrary key never panics: it reports the length of
  the ciphertext, then the length of the private key, then the KEM's own failure, or returns a
  32-byte secret; under a generated key every ciphertext of the right length gives some secret
  (implicit rejection), never an error.
\<close>

theorem hybrid_decap_outcomes:
  assumes "crypto_ok C"
  shows "(if length ct \<noteq> CIPHERTEXT_LEN then
            hybrid_decap C ct priv = Err (BadLength ''hybrid ciphertext'' CIPHERTEXT_LEN (length ct))
          else if length priv \<noteq> PRIVATE_KEY_LEN then
            hybrid_decap C ct priv = Err (BadLength ''hybrid private key'' PRIVATE_KEY_LEN (length priv))
          else hybrid_decap C ct priv = Err (MlKem ''decapsulation failed'') \<or>
            (\<exists>ss. hybrid_decap C ct priv = Ok ss \<and> length ss = 32)) \<and>
         (\<forall>pub. generated_pair C pub priv \<longrightarrow> length ct = CIPHERTEXT_LEN \<longrightarrow> is_ok (hybrid_decap C ct priv))"
  using hybrid_decap_cases [OF assms, of ct priv] hybrid_decap_total [OF assms, of _ priv ct]
  by (auto simp: len_simps)

theorem hybrid_decap_outcomes_witness:
  "hybrid_decap toy (replicate 1120 3) [] = Err (BadLength ''hybrid private key'' 2432 0) \<and>
   is_ok (hybrid_decap toy (replicate 1120 3) toy_priv)"
proof -
  have g: "generated_pair toy toy_pub toy_priv" by (simp add: toy_def)
  have "is_ok (hybrid_decap toy (replicate 1120 3) toy_priv)"
    using hybrid_decap_outcomes [OF toy_ok, of "replicate 1120 3" toy_priv] g by (auto simp: len_simps)
  then show ?thesis
    using hybrid_decap_outcomes [OF toy_ok, of "replicate 1120 3" "[]"] by (simp add: len_simps)
qed

subsection \<open>Epoch secrets\<close>

text \<open>
  An epoch secret wrapped to a member or a peer comes back: for both ratchets, wrapping a 32-byte
  secret to a generated key succeeds with a payload of 1180 bytes, and unwrapping the payload with
  the private key gives the secret; and two payloads a member unwraps alike carry the same secret.
\<close>

lemma epoch_secret_roundtrip:
  assumes "crypto_ok C" "generated_pair C pub priv" "length secret = 32"
  shows "(\<exists>p w'. wrap_dm_epoch_secret C secret pub w = (Ok p, w') \<and> length p = WRAPPED_PAYLOAD_LEN \<and>
            unwrap_dm_epoch_secret C p priv = Ok secret) \<and>
         (\<exists>p w'. wrap_epoch_secret C secret pub w = (Ok p, w') \<and> length p = G_WRAPPED_PAYLOAD_LEN \<and>
            unwrap_epoch_secret C p priv = Ok secret) \<and>
         (\<forall>secret' p w1 w2 v1 v2. wrap_epoch_secret C secret pub w1 = (Ok p, v1) \<longrightarrow>
            wrap_epoch_secret C secret' pub w2 = (Ok p, v2) \<longrightarrow> secret = secret')"
  using wrap_dm_roundtrip [OF assms, of w] wrap_group_roundtrip [OF assms, of w]
    group_wrap.wrapped_secret_unique [OF assms(1,2)]
  by (auto simp: len_simps)

text \<open>
  Unwrapping arbitrary bytes with an arbitrary key never panics. The direct-message ratchet
  checks the payload only and lets the KEM report a private key of the wrong length; the group
  ratchet checks both itself; beyond that the outcome is a KEM error, \<open>UnwrapFailed\<close> or a 32-byte
  secret.
\<close>

lemma unwrap_outcomes:
  assumes "crypto_ok C"
  shows "(if length p \<noteq> 1180 then unwrap_dm_epoch_secret C p priv = Err (BadPayloadLen (length p))
          else (\<exists>e. unwrap_dm_epoch_secret C p priv = Err (RKem e)) \<or>
            unwrap_dm_epoch_secret C p priv = Err UnwrapFailed \<or>
            (\<exists>s. unwrap_dm_epoch_secret C p priv = Ok s \<and> length s = 32)) \<and>
         (if length p \<noteq> 1180 then unwrap_epoch_secret C p priv = Err (GBadPayloadLen (length p))
          else if length priv \<noteq> 2432 then unwrap_epoch_secret C p priv = Err (GBadPrivateKeyLen (length priv))
          else (\<exists>e. unwrap_epoch_secret C p priv = Err (GKem e)) \<or>
            unwrap_epoch_secret C p priv = Err GUnwrapFailed \<or>
            (\<exists>s. unwrap_epoch_secret C p priv = Ok s \<and> length s = 32))"
proof -
  have "length p = 1180 \<Longrightarrow> length priv = 2432 \<Longrightarrow> (\<exists>e. unwrap_epoch_secret C p priv = Err (GKem e)) \<or>
      unwrap_epoch_secret C p priv = Err GUnwrapFailed \<or> (\<exists>s. unwrap_epoch_secret C p priv = Ok s \<and> length s = 32)"
    using unwrap_group_cases [OF assms, of p priv] by blast
  then show ?thesis
    using unwrap_dm_cases [OF assms, of p priv] by (auto simp: unwrap_group_bad_inputs)
qed

subsection \<open>Message keys\<close>

text \<open>
  \<open>n\<close> outbound keys of either ratchet carry the next \<open>n\<close> indices in order, and each is the key a
  holder of the same epoch secret derives for that index, in any order and at any time.
\<close>

lemma outbound_keys:
  assumes "crypto_ok C" "length (dr_epoch_secret r) = 32"
  shows "(\<exists>ks r'. run_outbound (dm_next_outbound_key C) n r = (Ok (ks, r') :: (ratchet_error, _) result) \<and> length ks = n \<and>
           dr_message_index r' = dr_message_index r + of_nat n \<and>
           (\<forall>j < n. fst (ks ! j) = dr_message_index r + of_nat j \<and>
              derive_dm_message_key C (dr_epoch_secret r) (dr_epoch r) (fst (ks ! j)) = Ok (snd (ks ! j)))) \<and>
         (\<exists>ks g'. run_outbound (er_next_outbound_key C) n g = (Ok (ks, g') :: (ratchet_error, _) result) \<and>
           length ks = n \<and> er_message_index g' = er_message_index g + of_nat n \<and>
           (\<forall>j < n. fst (ks ! j) = er_message_index g + of_nat j \<and>
              (derive_message_key_arr C (er_epoch_secret g) (er_epoch g) (fst (ks ! j)) :: (ratchet_error, _) result) =
                Ok (snd (ks ! j))))"
proof -
  have wf: "dm_ratchet_wf r" using assms(2) by (simp add: dm_ratchet_wf_def)
  show ?thesis
    using dm_outbound.run [OF assms(1) wf, of n] group_outbound.run [OF assms(1) TrueI, of n g]
    unfolding dm_message_key_def er_message_key_def Let_def option.case by blast
qed

text \<open>
  Every symmetric key of the crate is an HKDF output. A use names the derivation and its arguments:
  the message keys of the two ratchets (secret, epoch, index), the keys that wrap an epoch secret
  (hybrid shared secret), the keys of the two sealed boxes (shared secret, associated data), and the
  shared secret of the hybrid KEM itself (X25519 secret, ML-KEM secret).
\<close>

datatype key_use =
    DmMessage bytes u64 u64
  | GroupMessage bytes u64 u64
  | DmWrap bytes
  | GroupWrap bytes
  | PqdmBox bytes bytes
  | RouteBox bytes bytes
  | HybridSecret bytes bytes

fun result_key :: "('e, bytes) result \<Rightarrow> bytes option" where
  "result_key (Ok k) = Some k"
| "result_key _ = None"

text \<open>The key the code derives for a use.\<close>

fun key_of :: "('w, 'z) crypto_scheme \<Rightarrow> key_use \<Rightarrow> bytes option" where
  "key_of C (DmMessage secret e i) = result_key (derive_dm_message_key C secret e i)"
| "key_of C (GroupMessage secret e i) = result_key (derive_message_key C secret e i)"
| "key_of C (DmWrap shared) = result_key (dm_wrap_key C shared)"
| "key_of C (GroupWrap shared) = result_key (group_derive_wrap_key C shared)"
| "key_of C (PqdmBox shared aad) = result_key (pqdm_wrap_key C shared aad)"
| "key_of C (RouteBox shared aad) = result_key (route_wrap_key C shared aad)"
| "key_of C (HybridSecret x m) = result_key (combine C x m :: (kem_error, bytes) result)"

text \<open>The salt, the input keying material and the info the schedule prescribes for it.\<close>

fun key_input :: "key_use \<Rightarrow> bytes \<times> bytes \<times> bytes" where
  "key_input (DmMessage secret e i) =
     (lit ''skchat/dm-epoch/'' @ u64_be e, secret, lit ''skchat/dm-ratchet/msg/v1/'' @ u64_be i)"
| "key_input (GroupMessage secret e i) =
     (lit ''skchat/epoch/'' @ u64_be e, secret, lit ''skchat/group-ratchet/msg/v1/'' @ u64_be i)"
| "key_input (DmWrap shared) = ([], shared, lit ''skchat/dm-ratchet/epoch-wrap/v1'')"
| "key_input (GroupWrap shared) = ([], shared, lit ''skchat/group-ratchet/epoch-wrap/v1'')"
| "key_input (PqdmBox shared aad) = ([], shared, lit ''skcomms/pqdm/wrap/v1|'' @ aad)"
| "key_input (RouteBox shared aad) = ([], shared, lit ''skcomms/pqroute/wrap/v1|'' @ aad)"
| "key_input (HybridSecret x m) = ([], x @ m, lit ''sk_pqc/x25519-mlkem768/v1'')"

text \<open>The lengths the code gives: epoch secrets and X25519 secrets have 32 bytes.\<close>

fun key_use_ok :: "key_use \<Rightarrow> bool" where
  "key_use_ok (DmMessage secret _ _) \<longleftrightarrow> length secret = 32"
| "key_use_ok (GroupMessage secret _ _) \<longleftrightarrow> length secret = 32"
| "key_use_ok (HybridSecret x _) \<longleftrightarrow> length x = 32"
| "key_use_ok _ \<longleftrightarrow> True"

lemma key_of_input:
  assumes "key_use_ok u"
  shows "key_of C u = (case key_input u of (salt, ikm, info) \<Rightarrow> hkdf_sha256 C salt ikm info 32)"
proof -
  have *: "result_key (hkdf_expect C salt ikm info n :: ('e, bytes) result) = hkdf_sha256 C salt ikm info n"
    for salt ikm info n
    by (cases "hkdf_sha256 C salt ikm info n") (simp_all add: hkdf_expect_def)
  show ?thesis
    using assms
    by (cases u)
      (simp_all add: * derive_dm_message_key_def derive_message_key_def derive_message_key_arr_def dm_wrap_key_def
        group_derive_wrap_key_def pqdm_wrap_key_def route_wrap_key_def combine_def len_simps
        dm_salt_def dm_info_def group_salt_def group_info_def EPOCH_SALT_PREFIX_def MSG_INFO_PREFIX_def
        INFO_DM_WRAP_def G_MSG_SALT_PREFIX_def G_MSG_INFO_PREFIX_def EPOCH_WRAP_INFO_def D_INFO_WRAP_def
        R_INFO_WRAP_def HKDF_INFO_def)
qed

lemma key_input_inject:
  assumes "key_use_ok u" "key_use_ok v" "key_input u = key_input v"
  shows "u = v"
  using assms by (cases u; cases v) auto

text \<open>A primitive that tells one input from all others.\<close>

definition marking :: "bytes \<times> bytes \<times> bytes \<Rightarrow> nat crypto" where
  "marking x = toy\<lparr>hkdf_sha256 := (\<lambda>salt ikm info n.
     if n \<le> HKDF_MAX then Some (replicate n (if (salt, ikm, info) = x then 1 else 0)) else None)\<rparr>"

lemma marking_ok: "crypto_ok (marking x)"
proof -
  have "rng_ok (marking x) = rng_ok toy" "x25519_ok (marking x) = x25519_ok toy"
    "aead_ok (marking x) = aead_ok toy" "hmac_ok (marking x) = hmac_ok toy"
    by (simp_all add: marking_def rng_ok_def x25519_ok_def aead_ok_def hmac_ok_def)
  moreover have "mlkem_ok (marking x) = mlkem_ok toy"
    by (simp add: marking_def mlkem_ok_def mlkem_lengths_def mlkem_sound_def mlkem_total_def mlkem_generated_def)
  moreover have "hkdf_ok (marking x)" by (simp add: marking_def hkdf_ok_def)
  ultimately show ?thesis using toy_ok by (simp add: crypto_ok_def)
qed

text \<open>
  C24: Every key has an HKDF input of its own. For each of the seven key derivations of the crate the
  key is the 32-byte HKDF-SHA256 output of exactly the salt, input keying material and info written
  above; different uses have different inputs, so two uses with one key exhibit a collision of HKDF
  at these two inputs; and no two uses get the same key for every HKDF that satisfies the
  contract: derivation, epoch, index, secret and associated data all matter.
\<close>

theorem key_separation:
  assumes "key_use_ok u" "key_use_ok v"
  shows "key_of C u = (case key_input u of (salt, ikm, info) \<Rightarrow> hkdf_sha256 C salt ikm info 32) \<and>
    (crypto_ok C \<longrightarrow> (\<exists>key. key_of C u = Some key \<and> length key = 32)) \<and>
    (key_input u = key_input v \<longleftrightarrow> u = v) \<and>
    ((\<forall>D :: nat crypto. crypto_ok D \<longrightarrow> key_of D u = key_of D v) \<longleftrightarrow> u = v)"
proof -
  have "u = v" if "\<forall>D :: nat crypto. crypto_ok D \<longrightarrow> key_of D u = key_of D v"
  proof -
    have "key_of (marking (key_input u)) u = key_of (marking (key_input u)) v"
      using that marking_ok by blast
    then have "key_input v = key_input u"
      by (auto simp: key_of_input assms marking_def HKDF_MAX_def split: prod.splits if_splits)
    then show ?thesis using key_input_inject [OF assms] by simp
  qed
  moreover have "crypto_ok C \<longrightarrow> (\<exists>key. key_of C u = Some key \<and> length key = 32)"
    using hkdf_total [of C 32] by (auto simp: key_of_input assms HKDF_MAX_def split: prod.splits)
  ultimately show ?thesis using key_of_input [OF assms(1)] key_input_inject [OF assms] by blast
qed

text \<open>The first key of an epoch, in the direct-message and in the group ratchet, from one secret.\<close>

theorem key_separation_witness:
  "key_of toy (DmMessage (replicate 32 7) 0 0) =
     hkdf_sha256 toy (lit ''skchat/dm-epoch/'' @ u64_be 0) (replicate 32 7) (lit ''skchat/dm-ratchet/msg/v1/'' @ u64_be 0) 32 \<and>
   (\<exists>D :: nat crypto. crypto_ok D \<and>
     key_of D (DmMessage (replicate 32 7) 0 0) \<noteq> key_of D (GroupMessage (replicate 32 7) 0 0))"
proof -
  note sep = key_separation [of "DmMessage (replicate 32 7) 0 0" "GroupMessage (replicate 32 7) 0 0" toy]
  show ?thesis using sep by (auto simp del: key_of.simps)
qed

subsection \<open>When to re-key\<close>

text \<open>
  A ratchet asks for a re-key exactly when its message bound is reached or its epoch is as old as
  the age bound; the direct-message ratchet reads the clock when no time is given, and a clock that
  fails counts as time zero; the group ratchet decides alike on the same state.
\<close>

lemma should_rekey_spec:
  "(fst (dm_should_rekey S r now w) \<longleftrightarrow>
     dr_rekey_msg_bound r \<le> dr_message_index r \<or>
     as_f64 S (dr_rekey_age_seconds r) \<le>
       (case now of Some t \<Rightarrow> t | None \<Rightarrow> (case fst (system_time S w) of Some t \<Rightarrow> t | None \<Rightarrow> 0)) -
       dr_epoch_started_at r) \<and>
   (er_should_rekey to_f64 g t \<longleftrightarrow>
     er_rekey_msg_bound g \<le> er_message_index g \<or> to_f64 (er_rekey_age_seconds g) \<le> t - er_epoch_started_at g)"
  by (auto simp: dm_should_rekey_def now_seconds_def should_rekey_iff er_should_rekey_def
      split: option.splits prod.splits)

end
