(* ===== verification/Group_Conversation.thy ===== *)
theory Group_Conversation
  imports Group_Ratchet
begin

text \<open>
  The group ratchet in use. The operations of \<open>src/group_ratchet.rs\<close> are composed the way its module
  text describes a group: a re-key draws an epoch secret and wraps it to every member, a member that
  is sent a payload unwraps it into an \<open>EpochRatchet\<close>, and every member of an epoch sends with its own
  ratchet and derives the keys of the others by the carried epoch and index. Any number of members,
  payloads in flight for any epoch, joins and sends interleave in any order, and every call may find
  the random source and the clock in any state.
\<close>

subsection \<open>Distribution of an epoch\<close>

fun wrap_members ::
  "('w, 'z) crypto_scheme \<Rightarrow> bytes \<Rightarrow> bytes list \<Rightarrow> ('w, group_ratchet_error, bytes list) eff" where
  "wrap_members C secret [] = lift (Ok [])"
| "wrap_members C secret (pub # pubs) =
     ebind (wrap_epoch_secret C secret pub) (\<lambda>p.
     ebind (wrap_members C secret pubs) (\<lambda>ps. lift (Ok (p # ps))))"

definition join_epoch ::
  "('w, 'f :: zero, 'z) sys_scheme \<Rightarrow> u64 \<Rightarrow> bytes \<Rightarrow> bytes \<Rightarrow> ('w, group_ratchet_error, 'f epoch_ratchet) eff" where
  "join_epoch S epoch payload priv =
     ebind (lift (unwrap_epoch_secret S payload priv)) (\<lambda>secret. call (epoch_ratchet_new S epoch secret))"

lemma wrap_members_ok:
  assumes "crypto_ok C" "length secret = 32" "list_all (\<lambda>pub. \<exists>priv. generated_pair C pub priv) pubs"
  shows "\<exists>ps w'. wrap_members C secret pubs w = (Ok ps, w') \<and>
    list_all2 (\<lambda>pub p. \<exists>v v'. wrap_epoch_secret C secret pub v = (Ok p, v')) pubs ps"
  using assms(3)
proof (induction pubs arbitrary: w)
  case (Cons pub pubs)
  obtain priv where "generated_pair C pub priv" using Cons.prems by auto
  then obtain p w1 where p: "wrap_epoch_secret C secret pub w = (Ok p, w1)"
    using wrap_group_roundtrip [OF assms(1) _ assms(2)] by blast
  obtain ps w2 where ps: "wrap_members C secret pubs w1 = (Ok ps, w2)"
    "list_all2 (\<lambda>pub p. \<exists>v v'. wrap_epoch_secret C secret pub v = (Ok p, v')) pubs ps"
    using Cons.IH [of w1] Cons.prems by auto
  have "wrap_members C secret (pub # pubs) w = (Ok (p # ps), w2)"
    using p ps(1) by (simp add: result_simps)
  moreover have "list_all2 (\<lambda>pub p. \<exists>v v'. wrap_epoch_secret C secret pub v = (Ok p, v')) (pub # pubs) (p # ps)"
    using p ps(2) by auto
  ultimately show ?case by blast
qed simp

lemma wrap_members_OkD:
  "wrap_members C secret pubs w = (Ok ps, w') \<Longrightarrow>
   list_all2 (\<lambda>pub p. \<exists>v v'. wrap_epoch_secret C secret pub v = (Ok p, v')) pubs ps"
  by (induction pubs arbitrary: ps w) (auto simp: eff_iffs)

lemma join_epoch_wrapped:
  assumes "crypto_ok S" "generated_pair S pub priv" "wrap_epoch_secret S secret pub v = (Ok p, v')"
  shows "\<exists>r w'. join_epoch S e p priv w = (Ok r, w') \<and>
    er_epoch r = e \<and> er_epoch_secret r = secret \<and> er_message_index r = 0"
  using group_wrap.unwrap_wrapped [OF assms]
  by (auto simp: join_epoch_def call_def epoch_ratchet_new_def split: prod.splits)

subsection \<open>The group\<close>

text \<open>
  What the members hold (\<open>gp_state\<close>), the payloads handed to the transport (\<open>gp_mail\<close>: member, epoch,
  payload) and the keys messages were sent under (\<open>gp_posts\<close>: sender, epoch, index, key).
  \<open>gp_secrets\<close> remembers the secret drawn for each epoch; no step reads it.
\<close>

record 'f group =
  gp_epoch :: u64
  gp_state :: "nat \<Rightarrow> u64 \<Rightarrow> 'f epoch_ratchet option"
  gp_mail :: "(nat \<times> u64 \<times> bytes) list"
  gp_posts :: "(nat \<times> u64 \<times> u64 \<times> bytes) list"
  gp_secrets :: "u64 \<Rightarrow> bytes option"

definition group_init :: "'f group" where
  "group_init = \<lparr>gp_epoch = 0, gp_state = (\<lambda>_ _. None), gp_mail = [], gp_posts = [], gp_secrets = (\<lambda>_. None)\<rparr>"

inductive group_reachable ::
  "('w, 'f :: zero, 'z) sys_scheme \<Rightarrow> (nat \<Rightarrow> bytes \<times> bytes) \<Rightarrow> 'f group \<Rightarrow> bool"
  for S :: "('w, 'f :: zero, 'z) sys_scheme" and keys :: "nat \<Rightarrow> bytes \<times> bytes" where
  group_start: "group_reachable S keys group_init"
| group_rekey: "group_reachable S keys G \<Longrightarrow> gp_epoch G < gp_epoch G + 1 \<Longrightarrow>
     group_new_epoch_secret S w = (secret, w1) \<Longrightarrow>
     wrap_members S secret (map (\<lambda>m. fst (keys m)) ms) w1 = (Ok ps, w2) \<Longrightarrow>
     group_reachable S keys (G\<lparr>gp_epoch := gp_epoch G + 1,
       gp_mail := gp_mail G @ map2 (\<lambda>m p. (m, gp_epoch G + 1, p)) ms ps,
       gp_secrets := (gp_secrets G)(gp_epoch G + 1 \<mapsto> secret)\<rparr>)"
| group_join: "group_reachable S keys G \<Longrightarrow> (m, e, p) \<in> set (gp_mail G) \<Longrightarrow> gp_state G m e = None \<Longrightarrow>
     join_epoch S e p (snd (keys m)) w = (Ok r, w1) \<Longrightarrow>
     group_reachable S keys (G\<lparr>gp_state := (gp_state G)(m := (gp_state G m)(e \<mapsto> r))\<rparr>)"
| group_send: "group_reachable S keys G \<Longrightarrow> gp_state G m e = Some r \<Longrightarrow>
     er_next_outbound_key S r = (Ok ((i, k), r') :: (group_ratchet_error, _) result) \<Longrightarrow>
     group_reachable S keys (G\<lparr>gp_state := (gp_state G)(m := (gp_state G m)(e \<mapsto> r')),
       gp_posts := gp_posts G @ [(m, e, i, k)]\<rparr>)"

text \<open>What one member sent in one epoch, in order.\<close>

definition posts_of :: "nat \<Rightarrow> u64 \<Rightarrow> 'f group \<Rightarrow> (u64 \<times> bytes) list" where
  "posts_of m e G = map (\<lambda>(_, _, i, k). (i, k)) (filter (\<lambda>(m', e', _). m' = m \<and> e' = e) (gp_posts G))"

lemma posts_of_init [simp]: "posts_of m e group_init = []"
  by (simp add: posts_of_def group_init_def)

lemma posts_of_update [simp]:
  "posts_of m e (G\<lparr>gp_epoch := n, gp_mail := ml, gp_secrets := sc\<rparr>) = posts_of m e G"
  "posts_of m e (G\<lparr>gp_state := st\<rparr>) = posts_of m e G"
  "posts_of m e (G\<lparr>gp_state := st, gp_posts := gp_posts G @ [(m', e', i, k)]\<rparr>) =
     (if m' = m \<and> e' = e then posts_of m e G @ [(i, k)] else posts_of m e G)"
  by (simp_all add: posts_of_def)

text \<open>Every member has a key pair of its own making.\<close>

definition members_ok :: "('w, 'z) crypto_scheme \<Rightarrow> (nat \<Rightarrow> bytes \<times> bytes) \<Rightarrow> bool" where
  "members_ok C keys \<longleftrightarrow> (\<forall>m. generated_pair C (fst (keys m)) (snd (keys m)))"

lemma members_okD: "members_ok C keys \<Longrightarrow> generated_pair C (fst (keys m)) (snd (keys m))"
  by (simp add: members_ok_def)

subsection \<open>The invariant\<close>

definition mail_inv :: "('w, 'z) crypto_scheme \<Rightarrow> (nat \<Rightarrow> bytes \<times> bytes) \<Rightarrow> 'f group \<Rightarrow> bool" where
  "mail_inv C keys G \<longleftrightarrow>
     (\<forall>e s. gp_secrets G e = Some s \<longrightarrow> e \<le> gp_epoch G \<and> length s = 32) \<and>
     (\<forall>(m, e, p) \<in> set (gp_mail G). \<exists>s v v'. gp_secrets G e = Some s \<and>
        wrap_epoch_secret C s (fst (keys m)) v = (Ok p, v'))"

definition holder_inv :: "'f group \<Rightarrow> bool" where
  "holder_inv G \<longleftrightarrow> (\<forall>m e r. gp_state G m e = Some r \<longrightarrow>
     er_epoch r = e \<and> gp_secrets G e = Some (er_epoch_secret r) \<and> (\<exists>p. (m, e, p) \<in> set (gp_mail G)) \<and>
     er_message_index r = of_nat (length (posts_of m e G))) \<and>
   (\<forall>m e. gp_state G m e = None \<longrightarrow> posts_of m e G = [])"

definition post_inv :: "('w, 'z) crypto_scheme \<Rightarrow> 'f group \<Rightarrow> bool" where
  "post_inv C G \<longleftrightarrow>
     (\<forall>(m, e, i, k) \<in> set (gp_posts G). \<exists>s. gp_secrets G e = Some s \<and>
        (derive_message_key_arr C s e i :: (group_ratchet_error, bytes) result) = Ok k) \<and>
     (\<forall>m e. map fst (posts_of m e G) = map of_nat [0..<length (posts_of m e G)])"

lemmas group_invs = mail_inv_def holder_inv_def post_inv_def

lemma set_map2_mail:
  assumes "list_all2 P (map f ms) ps" "(m, e, p) \<in> set (map2 (\<lambda>m p. (m, n, p)) ms ps)"
  shows "e = n \<and> P (f m) p"
  using assms by (auto simp: list_all2_iff zip_map1 in_set_zip)

lemma mail_inv_fresh:
  assumes "mail_inv C keys G" "gp_epoch G < gp_epoch G + 1"
  shows "gp_secrets G (gp_epoch G + 1) = None"
proof (rule ccontr)
  assume "gp_secrets G (gp_epoch G + 1) \<noteq> None"
  then have "gp_epoch G + 1 \<le> gp_epoch G" using assms(1) by (auto simp: mail_inv_def)
  with assms(2) show False by simp
qed

lemma reachable_mail_inv:
  assumes "crypto_ok S" "group_reachable S keys G"
  shows "mail_inv S keys G"
  using assms(2)
proof induction
  case (group_rekey G w secret w1 ms ps w2)
  have l: "length secret = 32"
    using fill_bytes_length [OF assms(1)] group_rekey.hyps(3) by (simp add: group_new_epoch_secret_def len_simps)
  note new = set_map2_mail [OF wrap_members_OkD [OF group_rekey.hyps(4)], where n = "gp_epoch G + 1"]
  have fresh: "gp_secrets G (gp_epoch G + 1) = None"
    by (rule mail_inv_fresh [OF group_rekey.IH group_rekey.hyps(2)])
  have bound: "e \<le> gp_epoch G + 1" if "e \<le> gp_epoch G" for e
    using that group_rekey.hyps(2) by simp
  show ?case using group_rekey.IH l fresh bound new by (fastforce simp: mail_inv_def)
qed (auto simp: mail_inv_def group_init_def)

lemma outbound_step:
  "(er_next_outbound_key S r :: ('e, _) result) = Ok ((i, k), r') \<Longrightarrow>
     i = er_message_index r \<and> r' = r\<lparr>er_message_index := i + 1\<rparr> \<and> (er_message_key S r i :: ('e, _) result) = Ok k"
  by (auto simp: er_next_outbound_key_def er_message_key_def Let_def result_iffs)

lemma reachable_holder_inv:
  assumes "crypto_ok S" "members_ok S keys" "group_reachable S keys G"
  shows "holder_inv G"
  using assms(3)
proof induction
  case (group_rekey G w secret w1 ms ps w2)
  then have "gp_secrets G (gp_epoch G + 1) = None"
    using mail_inv_fresh reachable_mail_inv [OF assms(1)] by blast
  then show ?case using group_rekey.IH by (fastforce simp: holder_inv_def)
next
  case (group_join G m e p w r w1)
  then obtain s v v' where "gp_secrets G e = Some s" "wrap_epoch_secret S s (fst (keys m)) v = (Ok p, v')"
    using reachable_mail_inv [OF assms(1)] by (fastforce simp: mail_inv_def)
  moreover have "posts_of m e G = []" using group_join by (simp add: holder_inv_def)
  ultimately have "er_epoch r = e" "gp_secrets G e = Some (er_epoch_secret r)" "er_message_index r = 0"
    using join_epoch_wrapped [OF assms(1) members_okD [OF assms(2)], of s m v p v' e w] group_join.hyps(4) by auto
  with group_join show ?case by (auto simp: holder_inv_def)
next
  case (group_send G m e r i k r')
  then show ?case by (auto simp: holder_inv_def dest!: outbound_step)
qed (auto simp: holder_inv_def posts_of_def group_init_def)

lemma posts_of_iff: "(i, k) \<in> set (posts_of m e G) \<longleftrightarrow> (m, e, i, k) \<in> set (gp_posts G)"
  by (force simp: posts_of_def)

lemma reachable_post_inv:
  assumes "crypto_ok S" "members_ok S keys" "group_reachable S keys G"
  shows "post_inv S G"
  using assms(3)
proof induction
  case (group_rekey G w secret w1 ms ps w2)
  then have "gp_secrets G (gp_epoch G + 1) = None"
    using mail_inv_fresh reachable_mail_inv [OF assms(1)] by blast
  then show ?case using group_rekey.IH by (fastforce simp: post_inv_def)
next
  case (group_send G m e r i k r')
  note h = reachable_holder_inv [OF assms(1,2) group_send.hyps(1)]
  have r: "er_epoch r = e" "gp_secrets G e = Some (er_epoch_secret r)"
    "er_message_index r = of_nat (length (posts_of m e G))"
    using h group_send.hyps(2) by (auto simp: holder_inv_def)
  have "(derive_message_key_arr S (er_epoch_secret r) e i :: (group_ratchet_error, bytes) result) = Ok k"
    "i = of_nat (length (posts_of m e G))"
    using outbound_step [OF group_send.hyps(3), THEN conjunct2, THEN conjunct2]
      outbound_step [OF group_send.hyps(3), THEN conjunct1] r by (simp_all only: er_message_key_def)
  then show ?case using group_send.IH r(2) by (auto simp: post_inv_def)
qed (auto simp: post_inv_def posts_of_def group_init_def)

text \<open>Any two ratchets of an epoch give the key of a slot alike.\<close>

lemma reachable_post_key:
  fixes G :: "'f :: zero group" and r :: "'f epoch_ratchet"
  assumes "crypto_ok S" "members_ok S keys" "group_reachable S keys G"
    and "(s, e, i, k) \<in> set (gp_posts G)" "gp_secrets G e = Some (er_epoch_secret r)" "er_epoch r = e"
  shows "(er_message_key S r i :: (group_ratchet_error, bytes) result) = Ok k"
  using reachable_post_inv [OF assms(1-3)] assms(4-6) by (fastforce simp: post_inv_def er_message_key_def)

lemma reachable_mail_joins:
  assumes "crypto_ok S" "members_ok S keys" "group_reachable S keys G"
    and "(m, e, p) \<in> set (gp_mail G)"
  shows "\<exists>r w'. join_epoch S e p (snd (keys m)) w = (Ok r, w') \<and> er_epoch r = e \<and>
    gp_secrets G e = Some (er_epoch_secret r) \<and> er_message_index r = 0"
proof -
  obtain s v v' where "gp_secrets G e = Some s" "wrap_epoch_secret S s (fst (keys m)) v = (Ok p, v')"
    using reachable_mail_inv [OF assms(1,3)] assms(4) by (fastforce simp: mail_inv_def)
  with join_epoch_wrapped [OF assms(1) members_okD [OF assms(2)], of s m v p v' e w] show ?thesis by auto
qed

lemma rekey_ok:
  assumes "crypto_ok S" "members_ok S keys"
    "group_new_epoch_secret S w = (secret, w1)"
  shows "\<exists>ps w2. wrap_members S secret (map (\<lambda>m. fst (keys m)) ms) w1 = (Ok ps, w2) \<and> length ps = length ms"
proof -
  have "length secret = 32"
    using fill_bytes_length [OF assms(1)] assms(3) by (simp add: group_new_epoch_secret_def len_simps)
  moreover have "list_all (\<lambda>pub. \<exists>priv. generated_pair S pub priv) (map (\<lambda>m. fst (keys m)) ms)"
    using members_okD [OF assms(2)] by (auto simp: list_all_iff)
  ultimately show ?thesis
    using wrap_members_ok [OF assms(1), of secret "map (\<lambda>m. fst (keys m)) ms" w1]
    by (auto dest: list_all2_lengthD)
qed

subsection \<open>Agreement\<close>

text \<open>
  C3: The members of an epoch agree on its keys. In every reachable state of a group, a member that
  holds the ratchet of an epoch derives exactly the key each message of that epoch was sent under,
  whoever sent it and in whatever order; it holds the ratchet only if it was sent a payload of that
  epoch, every payload sent can still be joined, whatever the clock reads, with the same agreement, and a
  re-key to any list of members succeeds.
\<close>

theorem group_agreement:
  assumes "crypto_ok S" "members_ok S keys" "group_reachable S keys G"
  shows "(\<forall>m e r. gp_state G m e = Some r \<longrightarrow> (\<exists>p. (m, e, p) \<in> set (gp_mail G)) \<and>
            (\<forall>s i k. (s, e, i, k) \<in> set (gp_posts G) \<longrightarrow>
               (er_message_key S r i :: (group_ratchet_error, bytes) result) = Ok k)) \<and>
         (\<forall>(m, e, p) \<in> set (gp_mail G). \<forall>w. \<exists>r w'. join_epoch S e p (snd (keys m)) w = (Ok r, w') \<and>
            (\<forall>s i k. (s, e, i, k) \<in> set (gp_posts G) \<longrightarrow>
               (er_message_key S r i :: (group_ratchet_error, bytes) result) = Ok k)) \<and>
         (\<forall>ms w secret w1. group_new_epoch_secret S w = (secret, w1) \<longrightarrow>
            (\<exists>ps w2. wrap_members S secret (map (\<lambda>m. fst (keys m)) ms) w1 = (Ok ps, w2) \<and> length ps = length ms))"
proof -
  note key = reachable_post_key [OF assms]
  have "(\<exists>p. (m, e, p) \<in> set (gp_mail G)) \<and> (\<forall>s i k. (s, e, i, k) \<in> set (gp_posts G) \<longrightarrow>
      (er_message_key S r i :: (group_ratchet_error, bytes) result) = Ok k)"
    if "gp_state G m e = Some r" for m e r
    using reachable_holder_inv [OF assms] key that by (auto simp: holder_inv_def)
  moreover have "\<exists>r w'. join_epoch S e p (snd (keys m)) w = (Ok r, w') \<and>
      (\<forall>s i k. (s, e, i, k) \<in> set (gp_posts G) \<longrightarrow>
        (er_message_key S r i :: (group_ratchet_error, bytes) result) = Ok k)"
    if "(m, e, p) \<in> set (gp_mail G)" for m e p w
    using reachable_mail_joins [OF assms that, of w] key by blast
  moreover have "\<exists>ps w2. wrap_members S secret (map (\<lambda>m. fst (keys m)) ms) w1 = (Ok ps, w2) \<and> length ps = length ms"
    if "group_new_epoch_secret S w = (secret, w1)" for ms w secret w1
    by (rule rekey_ok [OF assms(1,2) that])
  ultimately show ?thesis by auto
qed

subsection \<open>Progress\<close>

text \<open>No step is ever refused: the re-key, the join of a payload and the send of a holder exist.\<close>

lemma rekey_step:
  assumes "crypto_ok S" "members_ok S keys" "group_reachable S keys G"
    "gp_epoch G < gp_epoch G + 1"
  shows "\<exists>G'. group_reachable S keys G' \<and> gp_state G' = gp_state G \<and> gp_posts G' = gp_posts G \<and>
    (\<forall>m \<in> set ms. \<exists>p. (m, gp_epoch G + 1, p) \<in> set (gp_mail G'))"
proof -
  obtain secret w1 where s: "group_new_epoch_secret S w = (secret, w1)" by (metis surj_pair)
  obtain ps w2 where ps: "wrap_members S secret (map (\<lambda>m. fst (keys m)) ms) w1 = (Ok ps, w2)" "length ps = length ms"
    using rekey_ok [OF assms(1,2) s] by blast
  have "\<exists>p. (m, p) \<in> set (zip ms ps)" if "m \<in> set ms" for m
    using that ps(2) by (metis in_set_impl_in_set_zip1)
  then have "\<forall>m \<in> set ms. \<exists>p. (m, gp_epoch G + 1, p) \<in> set (gp_mail G @ map2 (\<lambda>m p. (m, gp_epoch G + 1, p)) ms ps)"
    by force
  moreover note group_rekey [OF assms(3,4) s ps(1)]
  ultimately show ?thesis
    by (intro exI [of _ "G\<lparr>gp_epoch := gp_epoch G + 1,
       gp_mail := gp_mail G @ map2 (\<lambda>m p. (m, gp_epoch G + 1, p)) ms ps,
       gp_secrets := (gp_secrets G)(gp_epoch G + 1 \<mapsto> secret)\<rparr>"] conjI) simp_all
qed

lemma join_step:
  assumes "crypto_ok S" "members_ok S keys" "group_reachable S keys G"
    and "(m, e, p) \<in> set (gp_mail G)" "gp_state G m e = None"
  shows "\<exists>G' r. group_reachable S keys G' \<and> gp_state G' = (gp_state G)(m := (gp_state G m)(e \<mapsto> r)) \<and>
    er_message_index r = 0 \<and> gp_posts G' = gp_posts G \<and> gp_mail G' = gp_mail G"
proof -
  obtain r w' where "join_epoch S e p (snd (keys m)) w = (Ok r, w')" "er_message_index r = 0"
    using reachable_mail_joins [OF assms(1-4)] by blast
  with group_join [OF assms(3-5)] show ?thesis by fastforce
qed

lemma send_step:
  assumes "crypto_ok S" "group_reachable S keys G" "gp_state G m e = Some r"
  shows "\<exists>G' k r'. group_reachable S keys G' \<and> gp_state G' = (gp_state G)(m := (gp_state G m)(e \<mapsto> r')) \<and>
    gp_posts G' = gp_posts G @ [(m, e, er_message_index r, k)]"
proof -
  obtain k r' where "(er_next_outbound_key S r :: (group_ratchet_error, _) result) = Ok ((er_message_index r, k), r')"
    using group_outbound.advance_step [OF assms(1) TrueI, of r] by metis
  from group_send [OF assms(2,3) this] show ?thesis by fastforce
qed

text \<open>An epoch for two members, in which both join and each sends a message.\<close>

lemma two_senders:
  assumes C: "crypto_ok S" and kp: "members_ok S keys"
  shows "\<exists>G k k' r. group_reachable S keys G \<and> gp_posts G = [(0, 1, 0, k), (1, 1, 0, k')] \<and> gp_state G 1 1 = Some r"
proof -
  obtain G1 where G1: "group_reachable S keys G1" "gp_state G1 = (\<lambda>_ _. None)" "gp_posts G1 = []"
    and "\<forall>m \<in> set [0, 1]. \<exists>p. (m, 1, p) \<in> set (gp_mail G1)"
    using rekey_step [OF C kp group_start, where ms = "[0, 1]"] by (auto simp: group_init_def)
  then obtain p0 p1 where mail: "(0, 1, p0) \<in> set (gp_mail G1)" "(1, 1, p1) \<in> set (gp_mail G1)" by auto
  obtain G2 r0 where G2: "group_reachable S keys G2" "gp_state G2 = (\<lambda>_ _. None)(0 := [1 \<mapsto> r0])"
      "er_message_index r0 = 0" "gp_posts G2 = []" "gp_mail G2 = gp_mail G1"
    using join_step [OF C kp G1(1) mail(1)] G1 by auto
  obtain G3 r1 where G3: "group_reachable S keys G3"
      "gp_state G3 = (\<lambda>_ _. None)(0 := [1 \<mapsto> r0], 1 := [1 \<mapsto> r1])"
      "er_message_index r1 = 0" "gp_posts G3 = []"
    using join_step [OF C kp G2(1), of 1 1 p1] mail(2) G2 by auto
  obtain G4 r0' k where G4: "group_reachable S keys G4" "gp_state G4 1 1 = Some r1" "gp_posts G4 = [(0, 1, 0, k)]"
    using send_step [OF C G3(1), of 0 1 r0] G2(3) G3 by auto
  show ?thesis using send_step [OF C G4(1,2)] G3(3) G4(3) by auto
qed

definition toy_keys :: "nat \<Rightarrow> bytes \<times> bytes" where "toy_keys m = (toy_pub, toy_priv)"

theorem group_agreement_witness:
  "\<exists>G k r. group_reachable toy_sys toy_keys G \<and> (0, 1, 0, k) \<in> set (gp_posts G) \<and> gp_state G 1 1 = Some r \<and>
     (er_message_key toy_sys r 0 :: (group_ratchet_error, bytes) result) = Ok k"
proof -
  have kp: "members_ok toy_sys toy_keys" by (simp add: members_ok_def toy_keys_def)
  obtain G k k' r where G: "group_reachable toy_sys toy_keys G" "gp_posts G = [(0, 1, 0, k), (1, 1, 0, k')]"
    "gp_state G 1 1 = Some r" using two_senders [OF toy_sys_ok kp] by blast
  then show ?thesis using group_agreement [OF toy_sys_ok kp G(1), THEN conjunct1] by auto
qed

subsection \<open>The slots of an epoch\<close>

text \<open>
  C9: Who uses which slot. In every reachable state, the messages of one member in one epoch carry
  the indices 0, 1, 2, \<open>\<dots>\<close> in order, all different while there are at most \<open>2 ^ 64\<close> of them. The key
  of a slot does not depend on the sender: the \<open>n\<close>th messages of two members in one epoch are sent
  under the same index and the same key, so a nonce must not repeat across the members either.
\<close>

theorem group_slots:
  assumes "crypto_ok S" "members_ok S keys" "group_reachable S keys G"
  shows "map fst (posts_of m e G) = map of_nat [0..<length (posts_of m e G)] \<and>
    (length (posts_of m e G) \<le> 2 ^ 64 \<longrightarrow> distinct (map fst (posts_of m e G))) \<and>
    (n < length (posts_of m e G) \<and> n < length (posts_of m' e G) \<longrightarrow>
       posts_of m e G ! n = posts_of m' e G ! n)"
proof -
  note inv = reachable_post_inv [OF assms, unfolded post_inv_def]
  have idx: "map fst (posts_of m e G) = map of_nat [0..<length (posts_of m e G)]" for m using inv by blast
  have "inj_on (of_nat :: nat \<Rightarrow> u64) {..< 2 ^ 64}"
    by (rule inj_onI) (simp add: word_of_nat_eq_iff take_bit_nat_eq_self)
  then have "distinct (map fst (posts_of m e G))" if "length (posts_of m e G) \<le> 2 ^ 64"
    unfolding idx using that by (auto simp: distinct_map intro: inj_on_subset)
  moreover have "posts_of m e G ! n = posts_of m' e G ! n"
    if n: "n < length (posts_of m e G)" "n < length (posts_of m' e G)"
  proof -
    have i: "fst (posts_of x e G ! n) = of_nat n" if "n < length (posts_of x e G)" for x
      using that arg_cong [OF idx [of x], of "\<lambda>xs. xs ! n"] by simp
    have k: "\<exists>s. gp_secrets G e = Some s \<and>
        (derive_message_key_arr S s e (of_nat n) :: (group_ratchet_error, bytes) result) = Ok (snd (posts_of x e G ! n))"
      if "n < length (posts_of x e G)" for x
    proof -
      have "(of_nat n, snd (posts_of x e G ! n)) \<in> set (posts_of x e G)"
        using nth_mem [OF that] i [OF that] by (metis prod.collapse)
      then show ?thesis using inv unfolding posts_of_iff by fastforce
    qed
    have "snd (posts_of m e G ! n) = snd (posts_of m' e G ! n)" using k [OF n(1)] k [OF n(2)] by auto
    with i [OF n(1)] i [OF n(2)] show ?thesis by (simp add: prod_eq_iff)
  qed
  ultimately show ?thesis using idx by blast
qed

theorem group_slots_witness:
  "\<exists>G k. group_reachable toy_sys toy_keys G \<and> posts_of 0 1 G = [(0, k)] \<and> posts_of 1 1 G = [(0, k)]"
proof -
  have kp: "members_ok toy_sys toy_keys" by (simp add: members_ok_def toy_keys_def)
  obtain G k k' where G: "group_reachable toy_sys toy_keys G" "gp_posts G = [(0, 1, 0, k), (1, 1, 0, k')]"
    using two_senders [OF toy_sys_ok kp] by blast
  then have "posts_of 0 1 G = [(0, k)]" "posts_of 1 1 G = [(0, k')]" by (simp_all add: posts_of_def)
  then show ?thesis using group_slots [OF toy_sys_ok kp G(1), of 0 1 0 1] G(1) by auto
qed

end
