(* ===== verification/Dm_Token.thy ===== *)
theory Dm_Token
  imports Ratchet Text
begin

text \<open>
  The sealed frame of a direct-message session and its wire token (\<open>SealedDmFrame\<close>, \<open>to_token\<close>,
  \<open>from_token\<close> of \<open>src/dm_session.rs\<close>), the associated data of a frame, and the session errors.
  The \<open>base64\<close> engine is the parameter \<open>B\<close>.
\<close>

subsection \<open>Constants, errors, associated data\<close>

definition FRAME_NONCE_LEN :: nat where "FRAME_NONCE_LEN = 12"
definition AAD_PREFIX :: bytes where "AAD_PREFIX = lit ''skchat/dm-frame/v1''"
definition KAM_REPEAT :: u64 where "KAM_REPEAT = 3"
definition PQDR_SCHEME :: string where "PQDR_SCHEME = ''pqdr1:''"

definition frame_aad :: "u64 \<Rightarrow> u64 \<Rightarrow> bytes" where
  "frame_aad epoch index = AAD_PREFIX @ lit ''|'' @ u64_be epoch @ u64_be index"

datatype dm_session_error =
    BadToken string
  | DmOpenFailed
  | MissingEpochSecret u64
  | DmRatchetError ratchet_error

text \<open>\<open>Display for DmSessionError\<close>.\<close>

fun dm_session_error_to_string :: "dm_session_error \<Rightarrow> string" where
  "dm_session_error_to_string (BadToken why) = ''invalid '' @ PQDR_SCHEME @ '' token: '' @ why"
| "dm_session_error_to_string DmOpenFailed = ''dm frame open failed (tamper or wrong key)''"
| "dm_session_error_to_string (MissingEpochSecret e) =
     ''no epoch secret for epoch '' @ u64_to_string e @ '' (missing key-agreement message)''"
| "dm_session_error_to_string (DmRatchetError e) = ''ratchet error: '' @ ratchet_error_to_string e"

record sealed_dm_frame =
  sf_epoch :: u64
  sf_index :: u64
  sf_nonce :: bytes
  sf_body :: bytes
  sf_kam :: "bytes option"

subsection \<open>Serialising a frame\<close>

definition frame_blob :: "sealed_dm_frame \<Rightarrow> bytes" where
  "frame_blob f =
     u64_be (sf_epoch f) @ u64_be (sf_index f) @
     u32_be (word_of_nat (length (sf_nonce f))) @ sf_nonce f @
     u32_be (word_of_nat (length (sf_body f))) @ sf_body f @
     (case sf_kam f of
        None \<Rightarrow> [0]
      | Some kam \<Rightarrow> [1] @ u32_be (word_of_nat (length kam)) @ kam)"

definition to_token :: "text_codec \<Rightarrow> sealed_dm_frame \<Rightarrow> string" where
  "to_token B f = PQDR_SCHEME @ tc_encode B (frame_blob f)"

subsection \<open>Parsing a token\<close>

text \<open>The macro \<open>take!(n)\<close>: the next \<open>n\<close> bytes at the cursor \<open>off\<close>, and the moved cursor.\<close>

definition take_chunk :: "bytes \<Rightarrow> nat \<Rightarrow> nat \<Rightarrow> (dm_session_error, bytes \<times> nat) result" where
  "take_chunk blob off n =
     (if length blob < off + n then Err (BadToken ''truncated frame'')
      else rbind (slice blob off (off + n)) (\<lambda>chunk. Ok (chunk, off + n)))"

text \<open>\<open>u64::from_be_bytes(take!(8).try_into().unwrap())\<close>, and a \<open>u32\<close> length with its field.\<close>

definition take_u64 :: "bytes \<Rightarrow> nat \<Rightarrow> (dm_session_error, u64 \<times> nat) result" where
  "take_u64 blob off =
     rbind (take_chunk blob off 8) (\<lambda>(c, off). rbind (to_array 8 c) (\<lambda>a. Ok (u64_from_be a, off)))"

definition take_field :: "bytes \<Rightarrow> nat \<Rightarrow> (dm_session_error, bytes \<times> nat) result" where
  "take_field blob off =
     rbind (take_chunk blob off 4) (\<lambda>(c, off). rbind (to_array 4 c) (\<lambda>a.
       take_chunk blob off (unat (u32_from_be a))))"

definition parse_frame :: "bytes \<Rightarrow> (dm_session_error, sealed_dm_frame) result" where
  "parse_frame blob =
     rbind (take_u64 blob 0) (\<lambda>(epoch, off).
     rbind (take_u64 blob off) (\<lambda>(index, off).
     rbind (take_field blob off) (\<lambda>(nonce, off).
     rbind (take_field blob off) (\<lambda>(frame_body, off).
     rbind (take_chunk blob off 1) (\<lambda>(flag, off).
     rbind
       (if flag ! 0 = 0 then Ok (None, off)
        else if flag ! 0 = 1 then rbind (take_field blob off) (\<lambda>(kam, off). Ok (Some kam, off))
        else Err (BadToken (''invalid kam presence flag: '' @ decimal (unat (flag ! 0))))) (\<lambda>(kam, off).
     if off \<noteq> length blob then Err (BadToken ''trailing bytes after frame'')
     else Ok \<lparr>sf_epoch = epoch, sf_index = index, sf_nonce = nonce, sf_body = frame_body, sf_kam = kam\<rparr>))))))"

definition from_token :: "text_codec \<Rightarrow> string \<Rightarrow> (dm_session_error, sealed_dm_frame) result" where
  "from_token B token =
     rbind (ok_or (BadToken (''not a '' @ PQDR_SCHEME @ '' token'')) (strip_prefix PQDR_SCHEME token))
       (\<lambda>body.
     rbind (case tc_decode B body of
              Inl e \<Rightarrow> Err (BadToken (''invalid base64: '' @ e)) | Inr blob \<Rightarrow> Ok blob) (\<lambda>blob.
     parse_frame blob))"

subsection \<open>The cursor\<close>

lemma take_chunk_eq_Ok_iff:
  "take_chunk blob off n = Ok (c, off') \<longleftrightarrow>
     off + n \<le> length blob \<and> c = take n (drop off blob) \<and> off' = off + n"
  by (auto simp: take_chunk_def slice_def)

lemma take_chunk_neq_Panic [simp]: "take_chunk blob off n \<noteq> Panic"
  by (simp add: take_chunk_def slice_def)

lemma take_chunk_at:
  assumes "drop off blob = c @ rest" "length c = n" "off \<le> length blob"
  shows "take_chunk blob off n = Ok (c, off + n) \<and> drop (off + n) blob = rest \<and> off + n \<le> length blob"
proof -
  have "length blob - off = n + length rest" using assms(1,2) by (metis length_append length_drop)
  moreover have "drop (off + n) blob = drop n (drop off blob)" by (simp add: add.commute)
  ultimately show ?thesis using assms by (simp add: take_chunk_eq_Ok_iff)
qed

lemma take_u64_at:
  assumes "drop off blob = u64_be x @ rest" "off \<le> length blob"
  shows "take_u64 blob off = Ok (x, off + 8) \<and> drop (off + 8) blob = rest \<and> off + 8 \<le> length blob"
  using take_chunk_at [OF assms(1) _ assms(2), of 8] by (simp add: take_u64_def to_array_def)

lemma take_field_at:
  assumes "drop off blob = u32_be (word_of_nat (length c)) @ c @ rest" "off \<le> length blob"
    and "length c < 2 ^ 32"
  shows "take_field blob off = Ok (c, off + 4 + length c) \<and>
         drop (off + 4 + length c) blob = rest \<and> off + 4 + length c \<le> length blob"
  using take_chunk_at [OF assms(1) _ assms(2), of 4] take_chunk_at [of "off + 4" blob c rest] assms(3)
  by (simp add: take_field_def to_array_def unat_of_nat)

lemma take_u64_OkD:
  assumes "take_u64 blob off = Ok (x, off')"
  shows "off' = off + 8 \<and> off' \<le> length blob \<and> drop off blob = u64_be x @ drop off' blob"
  using assms
  by (auto simp: take_u64_def result_iffs take_chunk_eq_Ok_iff to_array_def u64_be_from_be)
    (metis append_take_drop_id drop_drop add.commute)

lemma take_field_OkD:
  assumes "take_field blob off = Ok (c, off')"
  shows "off \<le> off' \<and> off' \<le> length blob \<and> length c < 2 ^ 32 \<and>
         drop off blob = u32_be (word_of_nat (length c)) @ c @ drop off' blob"
proof -
  let ?h = "take 4 (drop off blob)"
  from assms have l: "off + 4 \<le> length blob"
    and c: "c = take (unat (u32_from_be ?h)) (drop (off + 4) blob)"
    and o': "off' = off + 4 + unat (u32_from_be ?h)" "off' \<le> length blob"
    by (auto simp: take_field_def result_iffs take_chunk_eq_Ok_iff to_array_def)
  have lc: "length c = unat (u32_from_be ?h)" using c o' by simp
  then have h: "?h = u32_be (word_of_nat (length c))" using l by (simp add: u32_be_from_be)
  have "drop (off + 4) blob = c @ drop off' blob"
    using c o' by (metis append_take_drop_id drop_drop add.commute)
  then have "drop off blob = ?h @ c @ drop off' blob"
    by (metis append_take_drop_id drop_drop add.commute)
  moreover have "length c < 2 ^ 32"
    using unsigned_less [of "u32_from_be ?h", where ?'a = nat] lc by simp
  ultimately show ?thesis using h o' by simp
qed

lemma take_u64_no_panic [simp]: "take_u64 blob off \<noteq> Panic"
  by (auto simp: take_u64_def result_iffs take_chunk_eq_Ok_iff to_array_def)

lemma take_field_no_panic [simp]: "take_field blob off \<noteq> Panic"
  by (auto simp: take_field_def result_iffs take_chunk_eq_Ok_iff to_array_def)

subsection \<open>Round trip and canonicity\<close>

definition frame_fits :: "sealed_dm_frame \<Rightarrow> bool" where
  "frame_fits f \<longleftrightarrow> length (sf_nonce f) < 2 ^ 32 \<and> length (sf_body f) < 2 ^ 32 \<and>
     (case sf_kam f of None \<Rightarrow> True | Some kam \<Rightarrow> length kam < 2 ^ 32)"

lemma parse_frame_blob:
  assumes "frame_fits f"
  shows "parse_frame (frame_blob f) = Ok f"
proof -
  let ?b = "frame_blob f"
  let ?kam = "case sf_kam f of None \<Rightarrow> [0] | Some kam \<Rightarrow> [1] @ u32_be (word_of_nat (length kam)) @ kam"
  have 0: "drop 0 ?b = u64_be (sf_epoch f) @ u64_be (sf_index f) @
      u32_be (word_of_nat (length (sf_nonce f))) @ sf_nonce f @
      u32_be (word_of_nat (length (sf_body f))) @ sf_body f @ ?kam"
    by (simp add: frame_blob_def)
  note 1 = take_u64_at [OF 0 le0]
  note 2 = take_u64_at [OF 1 [THEN conjunct2, THEN conjunct1] 1 [THEN conjunct2, THEN conjunct2]]
  note 3 = take_field_at [OF 2 [THEN conjunct2, THEN conjunct1] 2 [THEN conjunct2, THEN conjunct2]]
  note 4 = take_field_at [OF 3 [THEN conjunct2, THEN conjunct1] 3 [THEN conjunct2, THEN conjunct2]]
  let ?o = "0 + 8 + 8 + 4 + length (sf_nonce f) + 4 + length (sf_body f)"
  have l: "length (sf_nonce f) < 2 ^ 32" "length (sf_body f) < 2 ^ 32"
    using assms by (simp_all add: frame_fits_def)
  have d: "drop ?o ?b = ?kam" and o: "?o \<le> length ?b" using 4 l by simp_all
  have pre: "parse_frame ?b = rbind (take_chunk ?b ?o 1) (\<lambda>(flag, off).
     rbind (if flag ! 0 = 0 then Ok (None, off)
        else if flag ! 0 = 1 then rbind (take_field ?b off) (\<lambda>(kam, off). Ok (Some kam, off))
        else Err (BadToken (''invalid kam presence flag: '' @ decimal (unat (flag ! 0))))) (\<lambda>(kam, off).
     if off \<noteq> length ?b then Err (BadToken ''trailing bytes after frame'')
     else Ok \<lparr>sf_epoch = sf_epoch f, sf_index = sf_index f, sf_nonce = sf_nonce f,
       sf_body = sf_body f, sf_kam = kam\<rparr>))"
    using 1 2 3 4 l by (simp add: parse_frame_def)
  show ?thesis
  proof (cases "sf_kam f")
    case None
    then have "drop ?o ?b = [0] @ []" using d by simp
    from take_chunk_at [OF this _ o, of 1] None show ?thesis
      unfolding pre by (auto simp: drop_eq_Nil2)
  next
    case (Some kam)
    then have "drop ?o ?b = [1] @ u32_be (word_of_nat (length kam)) @ kam" using d by simp
    from take_chunk_at [OF this _ o, of 1]
    have c: "take_chunk ?b ?o 1 = Ok ([1], ?o + 1)"
      and c': "drop (?o + 1) ?b = u32_be (word_of_nat (length kam)) @ kam @ []" "?o + 1 \<le> length ?b"
      by simp_all
    have "length kam < 2 ^ 32" using assms Some by (simp add: frame_fits_def)
    from take_field_at [OF c' this] Some show ?thesis
      unfolding pre c by (auto simp: drop_eq_Nil2)
  qed
qed

lemma parse_frame_OkD:
  assumes "parse_frame blob = Ok f"
  shows "frame_fits f \<and> frame_blob f = blob"
proof -
  from assms obtain epoch o1 index o2 nonce o3 body o4 flag o5 kam where
    1: "take_u64 blob 0 = Ok (epoch, o1)" and 2: "take_u64 blob o1 = Ok (index, o2)"
    and 3: "take_field blob o2 = Ok (nonce, o3)" and 4: "take_field blob o3 = Ok (body, o4)"
    and 5: "take_chunk blob o4 1 = Ok (flag, o5)"
    and 6: "flag ! 0 = 0 \<and> kam = None \<and> o5 = length blob \<or>
      flag ! 0 = 1 \<and> (\<exists>k. take_field blob o5 = Ok (k, length blob) \<and> kam = Some k)"
    and f: "f = \<lparr>sf_epoch = epoch, sf_index = index, sf_nonce = nonce, sf_body = body, sf_kam = kam\<rparr>"
    by (auto simp: parse_frame_def result_iffs split: if_splits)
  have fl: "drop o4 blob = [flag ! 0] @ drop o5 blob"
  proof -
    have "flag = take 1 (drop o4 blob)" "o5 = o4 + 1" "o4 < length blob"
      using 5 by (auto simp: take_chunk_eq_Ok_iff)
    then show ?thesis by (simp add: Cons_nth_drop_Suc)
  qed
  let ?rest = "case kam of None \<Rightarrow> [0] | Some k \<Rightarrow> [1] @ u32_be (word_of_nat (length k)) @ k"
  have rest: "drop o4 blob = ?rest" and kl: "case kam of None \<Rightarrow> True | Some k \<Rightarrow> length k < 2 ^ 32"
    using 6 fl by (auto dest: take_field_OkD)
  have b0: "blob = u64_be epoch @ drop o1 blob" and b1: "drop o1 blob = u64_be index @ drop o2 blob"
    using take_u64_OkD [OF 1] take_u64_OkD [OF 2] by (metis drop_0)+
  have b2: "drop o2 blob = u32_be (word_of_nat (length nonce)) @ nonce @ drop o3 blob"
    and b3: "drop o3 blob = u32_be (word_of_nat (length body)) @ body @ drop o4 blob"
    using take_field_OkD [OF 3] take_field_OkD [OF 4] by simp_all
  have "blob = frame_blob f"
    using b0 unfolding frame_blob_def f sealed_dm_frame.simps b1 b2 b3 rest .
  moreover have "frame_fits f"
    using take_field_OkD [OF 3] take_field_OkD [OF 4] kl by (simp add: f frame_fits_def)
  ultimately show ?thesis by simp
qed

lemma parse_frame_no_panic: "parse_frame blob \<noteq> Panic"
  by (auto simp: parse_frame_def result_iffs split: if_splits)

interpretation frame_codec: canonical_codec frame_blob
    "\<lambda>b. case parse_frame b of Ok f \<Rightarrow> Some f | _ \<Rightarrow> None" frame_fits
  by unfold_locales (auto simp: parse_frame_blob dest: parse_frame_OkD split: result.splits)

lemma from_token_to_token:
  "text_codec_ok B \<Longrightarrow> frame_fits f \<Longrightarrow> from_token B (to_token B f) = Ok f"
  by (simp add: from_token_def to_token_def tc_decode_encode parse_frame_blob)

lemma from_token_OkD:
  "text_codec_ok B \<Longrightarrow> from_token B t = Ok f \<Longrightarrow> frame_fits f \<and> to_token B f = t"
  by (cases "tc_decode B (drop (length PQDR_SCHEME) t)")
    (auto simp: from_token_def to_token_def result_iffs strip_prefix_eq_Some_iff tc_encode_decode
      dest: parse_frame_OkD)

lemma from_token_no_panic: "from_token B t \<noteq> Panic"
  by (auto simp: from_token_def result_iffs parse_frame_no_panic split: sum.splits)

text \<open>The contract of the wire token, for the sessions that send and receive it.\<close>

lemma token_codec:
  "text_codec_ok B \<Longrightarrow> canonical_codec (to_token B)
     (\<lambda>t. case from_token B t of Ok f \<Rightarrow> Some f | _ \<Rightarrow> None) frame_fits"
  by unfold_locales (auto simp: from_token_to_token dest: from_token_OkD split: result.splits)

subsection \<open>Associated data\<close>

lemma frame_aad_inject: "frame_aad e i = frame_aad e' i' \<longleftrightarrow> e = e' \<and> i = i'"
  by (simp add: frame_aad_def)

lemma length_frame_aad [simp]: "length (frame_aad e i) = 35"
  by (simp add: frame_aad_def AAD_PREFIX_def)

end
