(* ===== verification/Dm_Session.thy ===== *)
theory Dm_Session
  imports Dm_Token "HOL-Library.AList"
begin

text \<open>
  The stateful session driver of \<open>src/dm_session.rs\<close> (\<open>DmSession\<close>): epochs are opened and re-keyed
  by \<open>seal\<close>, learnt from key-agreement messages by \<open>open\<close>. The \<open>HashMap\<close> of epoch secrets is an
  association list with distinct keys; the operations of \<open>&mut self\<close> return the session on every
  branch, errors included.
\<close>

subsection \<open>State and constructors\<close>

record 'f dm_session =
  ds_peer :: string
  ds_rekey_msg_bound :: u64
  ds_rekey_age_seconds :: u64
  ds_ratchet :: "'f dm_ratchet option"
  ds_epoch_secrets :: "(u64 \<times> bytes) list"
  ds_current_kam :: "bytes option"

definition dm_session_with_bounds :: "string \<Rightarrow> u64 \<Rightarrow> u64 \<Rightarrow> 'f dm_session" where
  "dm_session_with_bounds peer rekey_msg_bound rekey_age_seconds =
     \<lparr>ds_peer = peer, ds_rekey_msg_bound = rekey_msg_bound,
      ds_rekey_age_seconds = rekey_age_seconds, ds_ratchet = None, ds_epoch_secrets = [],
      ds_current_kam = None\<rparr>"

definition dm_session_new :: "string \<Rightarrow> 'f dm_session" where
  "dm_session_new peer =
     dm_session_with_bounds peer DEFAULT_REKEY_MSG_BOUND DEFAULT_REKEY_AGE_SECONDS"

definition insert_secret :: "u64 \<Rightarrow> bytes \<Rightarrow> 'f dm_session \<Rightarrow> 'f dm_session" where
  "insert_secret epoch secret s =
     s\<lparr>ds_epoch_secrets := AList.update epoch secret (ds_epoch_secrets s)\<rparr>"

definition epoch_secret_for_test :: "'f dm_session \<Rightarrow> u64 \<Rightarrow> bytes option" where
  "epoch_secret_for_test s epoch = map_of (ds_epoch_secrets s) epoch"

subsection \<open>Sender\<close>

definition begin_epoch ::
  "('w, 'f :: zero, 'z) sys_scheme \<Rightarrow> u64 \<Rightarrow> bytes \<Rightarrow> ('f dm_session \<times> 'w, dm_session_error, unit) eff" where
  "begin_epoch S epoch peer_hybrid_pub =
     ebind (on_world (call (new_epoch_secret S))) (\<lambda>secret.
     ebind (on_world (emap_err DmRatchetError (wrap_dm_epoch_secret S secret peer_hybrid_pub))) (\<lambda>kam.
     ebind (on_self (upd (insert_secret epoch secret))) (\<lambda>_.
     ebind (on_self (rd ds_rekey_msg_bound)) (\<lambda>bound.
     ebind (on_self (rd ds_rekey_age_seconds)) (\<lambda>age.
     ebind (on_world (call (dm_ratchet_with_bounds S epoch secret bound age))) (\<lambda>r.
     ebind (on_self (upd (\<lambda>s. s\<lparr>ds_ratchet := Some r\<rparr>))) (\<lambda>_.
     on_self (upd (\<lambda>s. s\<lparr>ds_current_kam := Some kam\<rparr>)))))))))"

text \<open>The first two statements of \<open>seal\<close>: decide whether an epoch begins, and begin it.\<close>

definition begin_at ::
  "('w, 'f :: {minus, ord, zero}, 'z) sys_scheme \<Rightarrow> ('f dm_session \<times> 'w, dm_session_error, u64 option) eff" where
  "begin_at S =
     ebind (on_self (rd ds_ratchet)) (\<lambda>ratchet.
     case ratchet of
       None \<Rightarrow> lift (Ok (Some 0))
     | Some r \<Rightarrow>
         ebind (on_world (call (dm_should_rekey S r None))) (\<lambda>b.
         lift (Ok (if b then Some (dr_epoch r + 1) else None))))"

definition ensure_epoch ::
  "('w, 'f :: {minus, ord, zero}, 'z) sys_scheme \<Rightarrow> bytes \<Rightarrow> ('f dm_session \<times> 'w, dm_session_error, unit) eff" where
  "ensure_epoch S peer_hybrid_pub =
     ebind (begin_at S) (\<lambda>epoch.
     case epoch of Some e \<Rightarrow> begin_epoch S e peer_hybrid_pub | None \<Rightarrow> lift (Ok ()))"

text \<open>The rest of \<open>seal\<close>: take the next key, attach the KAM, encrypt.\<close>

definition emit_frame ::
  "('w, 'z) crypto_scheme \<Rightarrow> bytes \<Rightarrow> ('f dm_session \<times> 'w, dm_session_error, sealed_dm_frame) eff" where
  "emit_frame S plaintext =
     ebind (on_self (rd ds_ratchet)) (\<lambda>ratchet.
     ebind (lift (expect ratchet)) (\<lambda>r.
     ebind (lift (dm_next_outbound_key S r)) (\<lambda>((idx, key), r').
     ebind (on_self (upd (\<lambda>s. s\<lparr>ds_ratchet := Some r'\<rparr>))) (\<lambda>_.
     ebind (on_self (rd ds_current_kam)) (\<lambda>current_kam.
     let kam = (if idx < KAM_REPEAT then current_kam else None); epoch = dr_epoch r' in
     ebind (on_world (call (fill_bytes S FRAME_NONCE_LEN))) (\<lambda>nonce.
     let aad = frame_aad epoch idx in
     ebind (lift (map_err (\<lambda>_. DmOpenFailed) (aead_seal S key nonce aad plaintext))) (\<lambda>body.
     lift (Ok \<lparr>sf_epoch = epoch, sf_index = idx, sf_nonce = nonce, sf_body = body, sf_kam = kam\<rparr>))))))))"

definition dm_seal ::
  "('w, 'f :: {minus, ord, zero}, 'z) sys_scheme \<Rightarrow> bytes \<Rightarrow> bytes \<Rightarrow>
   ('f dm_session \<times> 'w, dm_session_error, sealed_dm_frame) eff" where
  "dm_seal S plaintext peer_hybrid_pub =
     ebind (ensure_epoch S peer_hybrid_pub) (\<lambda>_. emit_frame S plaintext)"

subsection \<open>Receiver\<close>

definition dm_open ::
  "('w, 'z) crypto_scheme \<Rightarrow> sealed_dm_frame \<Rightarrow> bytes \<Rightarrow> ('f dm_session, dm_session_error, bytes) eff" where
  "dm_open C frame my_hybrid_priv =
     ebind
       (case sf_kam frame of
          None \<Rightarrow> lift (Ok ())
        | Some kam \<Rightarrow>
            ebind (rd ds_epoch_secrets) (\<lambda>secrets.
            if map_of secrets (sf_epoch frame) = None
            then ebind (lift (map_err DmRatchetError (unwrap_dm_epoch_secret C kam my_hybrid_priv)))
                   (\<lambda>secret. upd (insert_secret (sf_epoch frame) secret))
            else lift (Ok ()))) (\<lambda>_.
     ebind (rd ds_epoch_secrets) (\<lambda>secrets.
     ebind (lift (ok_or (MissingEpochSecret (sf_epoch frame)) (map_of secrets (sf_epoch frame)))) (\<lambda>secret.
     ebind (lift (map_err DmRatchetError
       (derive_dm_message_key C secret (sf_epoch frame) (sf_index frame)))) (\<lambda>key.
     let aad = frame_aad (sf_epoch frame) (sf_index frame) in
     lift (map_err (\<lambda>_. DmOpenFailed) (aead_open C key (sf_nonce frame) aad (sf_body frame)))))))"

subsection \<open>One call of seal\<close>

text \<open>The session after an epoch has begun, in the words of the record.\<close>

definition opened_epoch :: "u64 \<Rightarrow> bytes \<Rightarrow> bytes \<Rightarrow> 'f \<Rightarrow> 'f dm_session \<Rightarrow> 'f dm_session" where
  "opened_epoch epoch secret kam t s =
     (insert_secret epoch secret s)
       \<lparr>ds_ratchet := Some \<lparr>dr_epoch = epoch, dr_epoch_secret = secret, dr_message_index = 0,
          dr_rekey_msg_bound = ds_rekey_msg_bound s, dr_rekey_age_seconds = ds_rekey_age_seconds s,
          dr_epoch_started_at = t\<rparr>,
        ds_current_kam := Some kam\<rparr>"

lemma begin_epoch_Ok:
  assumes "new_epoch_secret S w = (secret, w1)" "wrap_dm_epoch_secret S secret pub w1 = (Ok kam, w2)"
    and "now_seconds S w2 = (t, w3)"
  shows "begin_epoch S e pub (s, w) = (Ok (), (opened_epoch e secret kam t s, w3))"
  using assms
  by (simp add: begin_epoch_def result_simps opened_epoch_def insert_secret_def dm_ratchet_with_bounds_def)

lemma begin_epoch_Err:
  assumes "new_epoch_secret S w = (secret, w1)" "wrap_dm_epoch_secret S secret pub w1 = (Err x, w2)"
  shows "begin_epoch S e pub (s, w) = (Err (DmRatchetError x), (s, w2))"
  using assms by (simp add: begin_epoch_def result_simps)

definition next_epoch :: "'f dm_session \<Rightarrow> u64" where
  "next_epoch s = (case ds_ratchet s of None \<Rightarrow> 0 | Some r \<Rightarrow> dr_epoch r + 1)"

text \<open>Beginning an epoch either fails in the KEM and changes nothing, or installs a fresh secret.\<close>

lemma begin_epoch_cases:
  assumes C: "crypto_ok S" and "begin_epoch S e pub (s, w) = (res, (s', w'))"
  obtains (failed) x where "res = Err (DmRatchetError x)" "s' = s"
      "\<exists>secret w1 w2. length secret = 32 \<and> wrap_dm_epoch_secret S secret pub w1 = (Err x, w2)"
  | (opened) secret kam t w1 w2 where "res = Ok ()" "s' = opened_epoch e secret kam t s"
      "length secret = 32" "wrap_dm_epoch_secret S secret pub w1 = (Ok kam, w2)"
      "new_epoch_secret S w = (secret, w1)" "t = fst (now_seconds S w2)"
proof -
  obtain secret w1 where n: "new_epoch_secret S w = (secret, w1)" by (metis surj_pair)
  have l: "length secret = 32"
    using fill_bytes_length [OF C] n by (simp add: new_epoch_secret_def EPOCH_SECRET_LEN_def)
  obtain r w2 where wr: "wrap_dm_epoch_secret S secret pub w1 = (r, w2)" by (metis surj_pair)
  obtain t w3 where t: "now_seconds S w2 = (t, w3)" by (metis surj_pair)
  show thesis
  proof (cases r)
    case (Ok kam)
    with begin_epoch_Ok [OF n _ t] wr assms(2) l n t show thesis by (intro opened) auto
  next
    case (Err x)
    with begin_epoch_Err [OF n] wr assms(2) l show thesis by (intro failed) auto
  next
    case Panic
    with wrap_dm_no_panic [OF C, of secret pub w1] wr show thesis by simp
  qed
qed

lemma ensure_epoch_cases:
  assumes C: "crypto_ok S" and e: "ensure_epoch S pub (s, w) = (res, (s', w'))"
  obtains (current) r where "res = Ok ()" "s' = s" "ds_ratchet s = Some r"
      "dr_message_index r < dr_rekey_msg_bound r"
  | (failed) x where "res = Err (DmRatchetError x)" "s' = s"
      "\<exists>secret w1 w2. length secret = 32 \<and> wrap_dm_epoch_secret S secret pub w1 = (Err x, w2)"
  | (opened) secret kam t w1 w2 where "res = Ok ()" "s' = opened_epoch (next_epoch s) secret kam t s"
      "length secret = 32" "wrap_dm_epoch_secret S secret pub w1 = (Ok kam, w2)" "t = fst (now_seconds S w2)"
proof -
  have *: thesis if "begin_epoch S (next_epoch s) pub (s, v) = (res, (s', w'))" for v
  proof (rule begin_epoch_cases [OF C that], goal_cases)
    case (1 x)
    then show thesis by (rule failed)
  next
    case (2 secret kam t w1 w2)
    from 2(1-4,6) show thesis by (rule opened)
  qed
  show thesis
  proof (cases "ds_ratchet s")
    case None
    with e show thesis
      by (intro * [of w]) (simp add: ensure_epoch_def begin_at_def next_epoch_def ebind_def on_self_def rd_def)
  next
    case (Some r)
    obtain b v where b: "dm_should_rekey S r None w = (b, v)" by (metis surj_pair)
    have ba: "begin_at S (s, w) = (Ok (if b then Some (dr_epoch r + 1) else None), (s, v))"
      using Some b by (simp add: begin_at_def result_simps)
    show thesis
    proof (cases b)
      case True
      with e ba Some show thesis
        by (intro * [of v]) (simp add: ensure_epoch_def next_epoch_def ebind_def)
    next
      case False
      with b have "dr_message_index r < dr_rekey_msg_bound r"
        by (auto simp: dm_should_rekey_def should_rekey_def not_le split: prod.splits if_splits)
      with e ba Some False show thesis
        by (intro current [of r]) (simp_all add: ensure_epoch_def ebind_def)
    qed
  qed
qed

text \<open>Emitting a frame: the counter moves on every branch, also when encryption fails.\<close>

definition advanced :: "'f dm_session \<Rightarrow> 'f dm_session" where
  "advanced s = s\<lparr>ds_ratchet := map_option (\<lambda>r. r\<lparr>dr_message_index := dr_message_index r + 1\<rparr>) (ds_ratchet s)\<rparr>"

definition kam_for :: "'f dm_session \<Rightarrow> u64 \<Rightarrow> bytes option" where
  "kam_for s idx = (if idx < KAM_REPEAT then ds_current_kam s else None)"

lemma emit_frame_cases:
  assumes C: "crypto_ok S" and r: "ds_ratchet s = Some r" "length (dr_epoch_secret r) = 32"
    and e: "emit_frame S m (s, w) = (res, (s', w'))"
  obtains (too_long) "res = Err DmOpenFailed" "s' = advanced s" "GCM_MAX < length m"
  | (sealed) key nonce body where
      "res = Ok \<lparr>sf_epoch = dr_epoch r, sf_index = dr_message_index r, sf_nonce = nonce,
                  sf_body = body, sf_kam = kam_for s (dr_message_index r)\<rparr>"
      "s' = advanced s" "length nonce = 12" "length body = length m + 16"
      "derive_dm_message_key S (dr_epoch_secret r) (dr_epoch r) (dr_message_index r) = Ok key"
      "aead_seal S key nonce (frame_aad (dr_epoch r) (dr_message_index r)) m = Ok body"
proof -
  obtain key where k: "derive_dm_message_key S (dr_epoch_secret r) (dr_epoch r) (dr_message_index r) = Ok key"
    and kl: "length key = 32"
    using derive_dm_Ok [OF C r(2)] by blast
  have nk: "(dm_next_outbound_key S r :: (dm_session_error, _) result) =
      Ok ((dr_message_index r, key), r\<lparr>dr_message_index := dr_message_index r + 1\<rparr>)"
    by (simp add: dm_next_outbound_key_def k Let_def)
  obtain nonce v where n: "fill_bytes S 12 w = (nonce, v)" by (metis surj_pair)
  have nl: "length nonce = 12" by (rule fill_bytes_length [OF C n])
  let ?aad = "frame_aad (dr_epoch r) (dr_message_index r)"
  have em: "emit_frame S m (s, w) =
      (rbind (map_err (\<lambda>_. DmOpenFailed) (aead_seal S key nonce ?aad m)) (\<lambda>body.
         Ok \<lparr>sf_epoch = dr_epoch r, sf_index = dr_message_index r, sf_nonce = nonce,
              sf_body = body, sf_kam = kam_for s (dr_message_index r)\<rparr>), (advanced s, v))"
    using n by (cases "aead_seal S key nonce ?aad m")
      (simp_all add: emit_frame_def r nk result_simps Let_def FRAME_NONCE_LEN_def kam_for_def advanced_def)
  show thesis
  proof (cases "aead_seal S key nonce ?aad m")
    case (Ok body)
    with em e k nl aead_seal_OkD(3) [OF C Ok] show thesis by (intro sealed) auto
  next
    case (Err x)
    have "GCM_MAX < length m"
    proof (rule ccontr)
      assume "\<not> GCM_MAX < length m"
      then have "\<exists>c. aead_seal S key nonce ?aad m = Ok c"
        using aead_seal_Ok [OF C kl nl, of m ?aad] by (auto simp: GCM_MAX_def)
      with Err show False by simp
    qed
    with em e Err show thesis by (intro too_long) auto
  next
    case Panic
    with kl nl show thesis by (simp add: aead_seal_Panic_iff)
  qed
qed

subsection \<open>Well-formed sessions\<close>

definition session_wf :: "'f dm_session \<Rightarrow> bool" where
  "session_wf s \<longleftrightarrow>
     distinct (map fst (ds_epoch_secrets s)) \<and>
     (\<forall>(e, k) \<in> set (ds_epoch_secrets s). length k = 32) \<and>
     (case ds_ratchet s of
        None \<Rightarrow> True
      | Some r \<Rightarrow>
          map_of (ds_epoch_secrets s) (dr_epoch r) = Some (dr_epoch_secret r) \<and>
          dr_message_index r \<le> max 1 (dr_rekey_msg_bound r) \<and>
          dr_rekey_msg_bound r = ds_rekey_msg_bound s \<and>
          dr_rekey_age_seconds r = ds_rekey_age_seconds s \<and>
          ds_current_kam s \<noteq> None)"

lemma session_wf_secret_length:
  "session_wf s \<Longrightarrow> map_of (ds_epoch_secrets s) e = Some k \<Longrightarrow> length k = 32"
  by (auto simp: session_wf_def dest: map_of_SomeD)

lemma session_wf_ratchet:
  assumes "session_wf s" "ds_ratchet s = Some r"
  shows "map_of (ds_epoch_secrets s) (dr_epoch r) = Some (dr_epoch_secret r)"
    "length (dr_epoch_secret r) = 32" "dr_message_index r \<le> max 1 (dr_rekey_msg_bound r)"
    "ds_current_kam s \<noteq> None"
  using assms session_wf_secret_length [OF assms(1)] by (auto simp: session_wf_def)

lemma session_wf_init [simp]: "session_wf (dm_session_with_bounds peer bound age)"
  by (simp add: session_wf_def dm_session_with_bounds_def)

lemma set_AList_update: "set (AList.update k v xs) \<subseteq> insert (k, v) (set xs)"
  by (induction xs) auto

lemma session_wf_insert:
  assumes "session_wf s" "length k = 32" "map_of (ds_epoch_secrets s) e = None"
  shows "session_wf (insert_secret e k s)"
  using assms set_AList_update [of e k "ds_epoch_secrets s"]
  by (auto simp: session_wf_def insert_secret_def distinct_update update_conv' split: option.splits)

lemma session_wf_opened:
  assumes "session_wf s" "length secret = 32"
  shows "session_wf (opened_epoch e secret kam t s)"
  using assms set_AList_update [of e secret "ds_epoch_secrets s"]
  by (auto simp: session_wf_def opened_epoch_def insert_secret_def distinct_update update_conv')

lemma word_inc_le_max:
  fixes i b :: u64
  assumes "i < b \<or> i = 0"
  shows "i + 1 \<le> max 1 b"
proof (cases "i < b")
  case True
  then have "i + 1 \<le> b" by (simp add: inc_le)
  then show ?thesis by (simp add: le_max_iff_disj)
qed (use assms in simp)

lemma session_wf_advanced:
  assumes "session_wf s" "ds_ratchet s = Some r" "dr_message_index r < dr_rekey_msg_bound r \<or> dr_message_index r = 0"
  shows "session_wf (advanced s)"
  using assms word_inc_le_max [OF assms(3)] by (auto simp: session_wf_def advanced_def)

subsection \<open>Seal and open, case by case\<close>

text \<open>\<open>s1\<close> is the session in which the frame is emitted: \<open>s\<close> itself, or \<open>s\<close> with a new epoch.\<close>

definition epoch_ready :: "('w, 'z) crypto_scheme \<Rightarrow> bytes \<Rightarrow> 'f dm_session \<Rightarrow> 'f dm_session \<Rightarrow> bool" where
  "epoch_ready S pub s s1 \<longleftrightarrow>
     s1 = s \<and> (\<exists>r. ds_ratchet s = Some r \<and> dr_message_index r < dr_rekey_msg_bound r) \<or>
     (\<exists>secret kam t w1 w2. s1 = opened_epoch (next_epoch s) secret kam t s \<and> length secret = 32 \<and>
        wrap_dm_epoch_secret S secret pub w1 = (Ok kam, w2))"

lemma epoch_ready_wf:
  assumes "session_wf s" "epoch_ready S pub s s1"
  obtains r where "session_wf s1" "ds_ratchet s1 = Some r" "length (dr_epoch_secret r) = 32"
    "dr_message_index r < dr_rekey_msg_bound r \<or> dr_message_index r = 0" "session_wf (advanced s1)"
    "dr_rekey_msg_bound r = ds_rekey_msg_bound s" "ds_rekey_msg_bound s1 = ds_rekey_msg_bound s"
proof -
  have wf: "session_wf s1"
    using assms by (auto simp: epoch_ready_def intro: session_wf_opened)
  obtain r where r: "ds_ratchet s1 = Some r" "dr_message_index r < dr_rekey_msg_bound r \<or> dr_message_index r = 0"
    using assms(2) by (auto simp: epoch_ready_def opened_epoch_def)
  have b: "ds_rekey_msg_bound s1 = ds_rekey_msg_bound s"
    using assms(2) by (auto simp: epoch_ready_def opened_epoch_def insert_secret_def)
  moreover have "dr_rekey_msg_bound r = ds_rekey_msg_bound s1"
    using wf r(1) by (simp add: session_wf_def)
  ultimately show thesis
    using that wf r session_wf_ratchet(2) [OF wf r(1)] session_wf_advanced [OF wf r] by simp
qed

lemma dm_seal_cases:
  assumes C: "crypto_ok S" and wf: "session_wf s" and e: "dm_seal S m pub (s, w) = (res, (s', w'))"
  obtains (failed) x where "res = Err (DmRatchetError x)" "s' = s"
      "\<exists>secret w1 w2. length secret = 32 \<and> wrap_dm_epoch_secret S secret pub w1 = (Err x, w2)"
  | (too_long) s1 where "res = Err DmOpenFailed" "epoch_ready S pub s s1" "s' = advanced s1"
      "GCM_MAX < length m"
  | (sealed) s1 r key nonce body where
      "res = Ok \<lparr>sf_epoch = dr_epoch r, sf_index = dr_message_index r, sf_nonce = nonce,
                  sf_body = body, sf_kam = kam_for s1 (dr_message_index r)\<rparr>"
      "epoch_ready S pub s s1" "s' = advanced s1" "ds_ratchet s1 = Some r"
      "length nonce = 12" "length body = length m + 16"
      "derive_dm_message_key S (dr_epoch_secret r) (dr_epoch r) (dr_message_index r) = Ok key"
      "aead_seal S key nonce (frame_aad (dr_epoch r) (dr_message_index r)) m = Ok body"
proof -
  obtain r1 s1 w1 where en: "ensure_epoch S pub (s, w) = (r1, (s1, w1))" by (metis surj_pair)
  have *: thesis if ok: "r1 = Ok ()" and ready: "epoch_ready S pub s s1"
  proof -
    obtain r where r: "ds_ratchet s1 = Some r" "length (dr_epoch_secret r) = 32"
      using epoch_ready_wf [OF wf ready] by metis
    have em: "emit_frame S m (s1, w1) = (res, (s', w'))"
      using e en ok by (simp add: dm_seal_def ebind_def)
    show thesis
    proof (rule emit_frame_cases [OF C r em], goal_cases)
      case 1
      then show thesis using ready by (intro too_long)
    next
      case (2 key nonce body)
      then show thesis using ready r(1) by (intro sealed)
    qed
  qed
  show thesis
  proof (rule ensure_epoch_cases [OF C en], goal_cases)
    case (1 r)
    then show thesis by (intro *) (auto simp: epoch_ready_def)
  next
    case (2 x)
    then show thesis using e en by (intro failed) (auto simp: dm_seal_def ebind_def)
  next
    case (3 secret kam t w1 w2)
    then have "epoch_ready S pub s s1" unfolding epoch_ready_def by blast
    with 3(1) show thesis by (rule *)
  qed
qed

lemma dm_seal_wf:
  assumes "crypto_ok S" "session_wf s" "dm_seal S m pub (s, w) = (res, (s', w'))"
  shows "session_wf s'"
  by (rule dm_seal_cases [OF assms]) (auto elim: epoch_ready_wf [OF assms(2)] simp: assms(2))

lemma dm_seal_no_panic:
  assumes "crypto_ok S" "session_wf s"
  shows "fst (dm_seal S m pub (s, w)) \<noteq> Panic"
proof -
  obtain res s' w' where e: "dm_seal S m pub (s, w) = (res, (s', w'))" by (metis surj_pair)
  show ?thesis by (rule dm_seal_cases [OF assms e]) (simp_all add: e)
qed

lemma dm_open_cases:
  assumes C: "crypto_ok C" and wf: "session_wf s" and o: "dm_open C f priv s = (res, s')"
  obtains (unknown) "sf_kam f = None" "map_of (ds_epoch_secrets s) (sf_epoch f) = None"
      "res = Err (MissingEpochSecret (sf_epoch f))" "s' = s"
  | (bad_kam) kam x where "sf_kam f = Some kam" "map_of (ds_epoch_secrets s) (sf_epoch f) = None"
      "unwrap_dm_epoch_secret C kam priv = Err x" "res = Err (DmRatchetError x)" "s' = s"
  | (keyed) secret key where
      "map_of (ds_epoch_secrets s) (sf_epoch f) = Some secret \<and> s' = s \<or>
       map_of (ds_epoch_secrets s) (sf_epoch f) = None \<and> s' = insert_secret (sf_epoch f) secret s \<and>
         (\<exists>kam. sf_kam f = Some kam \<and> unwrap_dm_epoch_secret C kam priv = Ok secret)"
      "length secret = 32" "derive_dm_message_key C secret (sf_epoch f) (sf_index f) = Ok key"
      "length key = 32"
      "res = map_err (\<lambda>_. DmOpenFailed)
         (aead_open C key (sf_nonce f) (frame_aad (sf_epoch f) (sf_index f)) (sf_body f))"
proof (cases "map_of (ds_epoch_secrets s) (sf_epoch f)")
  case (Some secret)
  obtain key where k: "derive_dm_message_key C secret (sf_epoch f) (sf_index f) = Ok key" "length key = 32"
    using derive_dm_Ok [OF C session_wf_secret_length [OF wf Some]] by blast
  show thesis
    using o Some k session_wf_secret_length [OF wf Some]
    by (intro keyed [of secret key]) (auto simp: dm_open_def ebind_assoc split: option.splits)
next
  case None
  show thesis
  proof (cases "sf_kam f")
    case None
    with \<open>map_of _ _ = None\<close> o show thesis by (intro unknown) (auto simp: dm_open_def)
  next
    case (Some kam)
    show thesis
    proof (cases "unwrap_dm_epoch_secret C kam priv")
      case (Ok secret)
      then have l: "length secret = 32" by (auto dest: unwrap_dm_OkD)
      obtain key where k: "derive_dm_message_key C secret (sf_epoch f) (sf_index f) = Ok key" "length key = 32"
        using derive_dm_Ok [OF C l] by blast
      show thesis
        using o None Some Ok l k
        by (intro keyed [of secret key]) (auto simp: dm_open_def ebind_assoc insert_secret_def update_conv')
    next
      case (Err x)
      with None Some o show thesis by (intro bad_kam) (auto simp: dm_open_def ebind_assoc)
    next
      case Panic
      with unwrap_dm_no_panic [OF C] show thesis by blast
    qed
  qed
qed

lemma dm_open_wf:
  assumes "crypto_ok C" "session_wf s" "dm_open C f priv s = (res, s')"
  shows "session_wf s'"
  by (rule dm_open_cases [OF assms]) (auto simp: assms(2) intro: session_wf_insert)

text \<open>The only panic of \<open>open\<close>: a frame whose nonce does not have 12 bytes, for a known epoch.\<close>

lemma dm_open_Panic_iff:
  assumes "crypto_ok C" "session_wf s"
  shows "fst (dm_open C f priv s) = Panic \<longleftrightarrow>
    length (sf_nonce f) \<noteq> 12 \<and>
    (map_of (ds_epoch_secrets s) (sf_epoch f) \<noteq> None \<or>
     (\<exists>kam secret. sf_kam f = Some kam \<and> unwrap_dm_epoch_secret C kam priv = Ok secret))"
proof -
  obtain res s' where o: "dm_open C f priv s = (res, s')" by (metis surj_pair)
  show ?thesis
    by (rule dm_open_cases [OF assms o]) (auto simp: o aead_open_Panic_iff)
qed

subsection \<open>The epoch a frame is sealed in\<close>

lemma ensure_epoch_None:
  "ds_ratchet s = None \<Longrightarrow> ensure_epoch S pub (s, w) = begin_epoch S 0 pub (s, w)"
  by (simp add: ensure_epoch_def begin_at_def ebind_def on_self_def rd_def)

lemma ensure_epoch_Some:
  assumes "ds_ratchet s = Some r" "dm_should_rekey S r None w = (b, v)"
  shows "ensure_epoch S pub (s, w) =
    (if b then begin_epoch S (dr_epoch r + 1) pub (s, v) else (Ok (), (s, v)))"
proof -
  have "begin_at S (s, w) = (Ok (if b then Some (dr_epoch r + 1) else None), (s, v))"
    using assms by (simp add: begin_at_def result_simps)
  then show ?thesis by (simp add: ensure_epoch_def ebind_def)
qed

text \<open>A frame sealed right after an epoch \<open>e\<close> began, and one sealed in the current epoch.\<close>

lemma seal_in_new_epoch:
  assumes C: "crypto_ok S" and en: "ensure_epoch S pub (s, w) = begin_epoch S e pub (s, v)"
    and seal: "dm_seal S m pub (s, w) = (Ok f, (s', w'))"
  shows "sf_epoch f = e \<and> sf_index f = 0 \<and> sf_kam f = ds_current_kam s' \<and>
    (\<exists>secret w1 kam w2. new_epoch_secret S v = (secret, w1) \<and>
      wrap_dm_epoch_secret S secret pub w1 = (Ok kam, w2) \<and> sf_kam f = Some kam \<and>
      ds_epoch_secrets s' = AList.update e secret (ds_epoch_secrets s))"
proof -
  obtain r1 s1 w1 where b: "begin_epoch S e pub (s, v) = (r1, (s1, w1))" by (metis surj_pair)
  show ?thesis
  proof (rule begin_epoch_cases [OF C b], goal_cases)
    case (1 x)
    then show ?thesis using seal en b by (simp add: dm_seal_def ebind_def)
  next
    case (2 secret kam t v1 v2)
    let ?r = "\<lparr>dr_epoch = e, dr_epoch_secret = secret, dr_message_index = 0,
      dr_rekey_msg_bound = ds_rekey_msg_bound s, dr_rekey_age_seconds = ds_rekey_age_seconds s,
      dr_epoch_started_at = t\<rparr>"
    have r: "ds_ratchet s1 = Some ?r" using 2 by (simp add: opened_epoch_def)
    have em: "emit_frame S m (s1, w1) = (Ok f, (s', w'))"
      using seal en b 2 by (simp add: dm_seal_def ebind_def)
    have l: "length (dr_epoch_secret ?r) = 32" using 2 by simp
    show ?thesis
      by (rule emit_frame_cases [OF C r l em])
        (use 2 in \<open>auto simp: advanced_def kam_for_def KAM_REPEAT_def opened_epoch_def insert_secret_def\<close>)
  qed
qed

lemma seal_in_current_epoch:
  assumes C: "crypto_ok S" and en: "ensure_epoch S pub (s, w) = (Ok (), (s, v))"
    and r: "ds_ratchet s = Some r" "length (dr_epoch_secret r) = 32"
    and seal: "dm_seal S m pub (s, w) = (Ok f, (s', w'))"
  shows "sf_epoch f = dr_epoch r \<and> sf_index f = dr_message_index r \<and>
    sf_kam f = kam_for s (dr_message_index r) \<and> s' = advanced s"
proof -
  have em: "emit_frame S m (s, v) = (Ok f, (s', w'))"
    using seal en by (simp add: dm_seal_def ebind_def)
  show ?thesis by (rule emit_frame_cases [OF C r em]) simp_all
qed

text \<open>To a generated key a seal of a message within the limit succeeds.\<close>

lemma dm_seal_total:
  assumes C: "crypto_ok S" and kp: "generated_pair S pub priv" and wf: "session_wf s"
    and m: "length m \<le> GCM_MAX"
  shows "\<exists>f s' w'. dm_seal S m pub (s, w) = (Ok f, (s', w'))"
proof -
  obtain res s' w' where e: "dm_seal S m pub (s, w) = (res, (s', w'))" by (metis surj_pair)
  show ?thesis
  proof (rule dm_seal_cases [OF C wf e], goal_cases)
    case (1 x)
    then obtain secret w1 w2 where "length secret = 32" "wrap_dm_epoch_secret S secret pub w1 = (Err x, w2)"
      by blast
    then show ?thesis using wrap_dm_roundtrip [OF C kp, of secret w1] by auto
  qed (use e m in auto)
qed

end
