(* ===== verification/Dm_Delivery.thy ===== *)
theory Dm_Delivery
  imports Dm_Session
begin

text \<open>
  Runs of a direct-message session: the frames a sender emits for a sequence of plaintexts, what a
  receiver gets from any selection of them, the slots \<open>(epoch, index)\<close> they occupy, and the
  sessions reachable by sealing and by opening arbitrary frames.
\<close>

subsection \<open>Slots\<close>

text \<open>A slot of the AEAD associated data, ordered by epoch and then by index.\<close>

datatype slot = Slot (slot_epoch: u64) (slot_index: u64)

instantiation slot :: linorder
begin

definition less_eq_slot :: "slot \<Rightarrow> slot \<Rightarrow> bool" where
  "less_eq_slot a b \<longleftrightarrow>
     slot_epoch a < slot_epoch b \<or> slot_epoch a = slot_epoch b \<and> slot_index a \<le> slot_index b"

definition less_slot :: "slot \<Rightarrow> slot \<Rightarrow> bool" where
  "less_slot a b \<longleftrightarrow>
     slot_epoch a < slot_epoch b \<or> slot_epoch a = slot_epoch b \<and> slot_index a < slot_index b"

instance
  by standard (auto simp: less_eq_slot_def less_slot_def slot.expand)

end

definition frame_slot :: "sealed_dm_frame \<Rightarrow> slot" where
  "frame_slot f = Slot (sf_epoch f) (sf_index f)"

lemma frame_slot_less_iff:
  "frame_slot f < frame_slot g \<longleftrightarrow>
     sf_epoch f < sf_epoch g \<or> sf_epoch f = sf_epoch g \<and> sf_index f < sf_index g"
  by (simp add: frame_slot_def less_slot_def)

subsection \<open>Runs\<close>

fun dm_seal_all ::
  "('w, 'f :: {minus, ord, zero}, 'z) sys_scheme \<Rightarrow> bytes \<Rightarrow> bytes list \<Rightarrow>
   ('f dm_session \<times> 'w, dm_session_error, sealed_dm_frame list) eff" where
  "dm_seal_all S pub [] = lift (Ok [])"
| "dm_seal_all S pub (m # ms) =
     ebind (dm_seal S m pub) (\<lambda>f. ebind (dm_seal_all S pub ms) (\<lambda>fs. lift (Ok (f # fs))))"

fun dm_open_all ::
  "('w, 'z) crypto_scheme \<Rightarrow> bytes \<Rightarrow> sealed_dm_frame list \<Rightarrow> 'f dm_session \<Rightarrow>
   (dm_session_error, bytes) result list \<times> 'f dm_session" where
  "dm_open_all C priv [] s = ([], s)"
| "dm_open_all C priv (f # fs) s =
     (case dm_open C f priv s of (r, s1) \<Rightarrow>
       case dm_open_all C priv fs s1 of (rs, s2) \<Rightarrow> (r # rs, s2))"

subsection \<open>The sender\<close>

text \<open>
  A frame is deliverable, relative to a store of epoch secrets, when it opens to its plaintext with
  the secret of its epoch, and its KAM, if it has one, unwraps to that secret.
\<close>

definition deliverable ::
  "('w, 'z) crypto_scheme \<Rightarrow> bytes \<Rightarrow> (u64 \<Rightarrow> bytes option) \<Rightarrow> sealed_dm_frame \<Rightarrow> bytes \<Rightarrow> bool" where
  "deliverable C priv sec f m \<longleftrightarrow>
     (\<exists>secret key. sec (sf_epoch f) = Some secret \<and>
        derive_dm_message_key C secret (sf_epoch f) (sf_index f) = Ok key \<and>
        aead_open C key (sf_nonce f) (frame_aad (sf_epoch f) (sf_index f)) (sf_body f) = Ok m \<and>
        (\<forall>kam. sf_kam f = Some kam \<longrightarrow> unwrap_dm_epoch_secret C kam priv = Ok secret))"

lemma deliverable_mono: "deliverable C priv sec f m \<Longrightarrow> sec \<subseteq>\<^sub>m sec' \<Longrightarrow> deliverable C priv sec' f m"
  unfolding deliverable_def map_le_def dom_def by (metis (mono_tags, lifting) mem_Collect_eq option.distinct(1))

definition epochs_used :: "'f dm_session \<Rightarrow> nat" where
  "epochs_used s = (case ds_ratchet s of None \<Rightarrow> 0 | Some r \<Rightarrow> unat (dr_epoch r) + 1)"

definition sender_inv :: "('w, 'z) crypto_scheme \<Rightarrow> bytes \<Rightarrow> 'f dm_session \<Rightarrow> bool" where
  "sender_inv C priv s \<longleftrightarrow> session_wf s \<and>
     (case ds_ratchet s of
        None \<Rightarrow> ds_epoch_secrets s = []
      | Some r \<Rightarrow>
          (\<forall>e k. map_of (ds_epoch_secrets s) e = Some k \<longrightarrow> e \<le> dr_epoch r) \<and>
          (\<forall>kam. ds_current_kam s = Some kam \<longrightarrow>
             unwrap_dm_epoch_secret C kam priv = Ok (dr_epoch_secret r)))"

lemma sender_inv_init: "sender_inv C priv (dm_session_with_bounds peer bound age)"
  by (simp add: sender_inv_def) (simp add: dm_session_with_bounds_def)

text \<open>The slots a session has not used yet.\<close>

definition slot_free :: "'f dm_session \<Rightarrow> sealed_dm_frame \<Rightarrow> bool" where
  "slot_free s f \<longleftrightarrow>
     (case ds_ratchet s of
        None \<Rightarrow> True
      | Some r \<Rightarrow> dr_epoch r < sf_epoch f \<or> dr_epoch r = sf_epoch f \<and> dr_message_index r \<le> sf_index f)"

lemma next_epoch_fresh:
  assumes "sender_inv C priv s" "epochs_used s < 2 ^ 64"
  shows "map_of (ds_epoch_secrets s) (next_epoch s) = None"
    and "unat (next_epoch s) = epochs_used s"
    and "\<And>e k. map_of (ds_epoch_secrets s) e = Some k \<Longrightarrow> e < next_epoch s"
proof -
  show u: "unat (next_epoch s) = epochs_used s"
  proof (cases "ds_ratchet s")
    case (Some r)
    then have "unat (dr_epoch r) + 1 < 2 ^ LENGTH(64)" using assms(2) by (simp add: epochs_used_def)
    then show ?thesis using Some by (simp add: next_epoch_def epochs_used_def unat_word_ariths(1))
  qed (simp add: next_epoch_def epochs_used_def)
  show *: "e < next_epoch s" if "map_of (ds_epoch_secrets s) e = Some k" for e k
  proof (cases "ds_ratchet s")
    case None
    then show ?thesis using assms(1) that by (simp add: sender_inv_def)
  next
    case (Some r)
    then have "e \<le> dr_epoch r" using assms(1) that by (auto simp: sender_inv_def)
    then have "unat e < unat (next_epoch s)"
      using u Some by (simp add: epochs_used_def word_le_nat_alt)
    then show ?thesis by (simp add: word_less_nat_alt)
  qed
  show "map_of (ds_epoch_secrets s) (next_epoch s) = None"
    using * by fastforce
qed

lemma epoch_ready_sender:
  assumes C: "crypto_ok C" and kp: "generated_pair C pub priv" and inv: "sender_inv C priv s"
    and n: "epochs_used s < 2 ^ 64" and ready: "epoch_ready C pub s s1" and r: "ds_ratchet s1 = Some r"
  shows "sender_inv C priv s1" "map_of (ds_epoch_secrets s) \<subseteq>\<^sub>m map_of (ds_epoch_secrets s1)"
    "epochs_used s1 \<le> Suc (epochs_used s)"
    "case ds_ratchet s of None \<Rightarrow> True | Some r0 \<Rightarrow>
       dr_epoch r0 < dr_epoch r \<or> dr_epoch r0 = dr_epoch r \<and> dr_message_index r0 \<le> dr_message_index r"
proof -
  have "sender_inv C priv s1 \<and> map_of (ds_epoch_secrets s) \<subseteq>\<^sub>m map_of (ds_epoch_secrets s1) \<and>
    epochs_used s1 \<le> Suc (epochs_used s) \<and>
    (case ds_ratchet s of None \<Rightarrow> True | Some r0 \<Rightarrow>
       dr_epoch r0 < dr_epoch r \<or> dr_epoch r0 = dr_epoch r \<and> dr_message_index r0 \<le> dr_message_index r)"
  proof (cases "s1 = s")
    case True
    then show ?thesis using inv r by simp
  next
    case False
    then obtain secret kam t w1 w2 where s1: "s1 = opened_epoch (next_epoch s) secret kam t s"
      and l: "length secret = 32" and wr: "wrap_dm_epoch_secret C secret pub w1 = (Ok kam, w2)"
      using ready by (auto simp: epoch_ready_def)
    note fresh = next_epoch_fresh [OF inv n]
    have "unwrap_dm_epoch_secret C kam priv = Ok secret" by (rule dm_wrap.unwrap_wrapped [OF C kp wr])
    moreover have "session_wf s1"
      using inv l by (simp add: s1 sender_inv_def session_wf_opened)
    ultimately have "sender_inv C priv s1"
      using fresh(3) by (auto simp: sender_inv_def s1 opened_epoch_def insert_secret_def update_conv'
          intro: less_imp_le split: if_splits)
    moreover have "map_of (ds_epoch_secrets s) \<subseteq>\<^sub>m map_of (ds_epoch_secrets s1)"
      using fresh(1) by (auto simp: s1 opened_epoch_def insert_secret_def update_conv' map_le_def)
    moreover have "epochs_used s1 \<le> Suc (epochs_used s)"
      using fresh(2) by (subst epochs_used_def) (simp add: s1 opened_epoch_def)
    moreover have "dr_epoch r0 < dr_epoch r" if "ds_ratchet s = Some r0" for r0
      using inv that r fresh(3) session_wf_ratchet(1) [of s r0]
      by (auto simp: s1 opened_epoch_def sender_inv_def)
    ultimately show ?thesis by (auto split: option.splits)
  qed
  then show "sender_inv C priv s1" "map_of (ds_epoch_secrets s) \<subseteq>\<^sub>m map_of (ds_epoch_secrets s1)"
    "epochs_used s1 \<le> Suc (epochs_used s)"
    "case ds_ratchet s of None \<Rightarrow> True | Some r0 \<Rightarrow>
       dr_epoch r0 < dr_epoch r \<or> dr_epoch r0 = dr_epoch r \<and> dr_message_index r0 \<le> dr_message_index r"
    by blast+
qed

lemma sender_inv_advanced:
  assumes "sender_inv C priv s" "session_wf (advanced s)"
  shows "sender_inv C priv (advanced s)"
  using assms by (auto simp: sender_inv_def advanced_def split: option.splits)

text \<open>What one frame promises about its slot and its key-agreement message.\<close>

definition frame_shape :: "u64 \<Rightarrow> sealed_dm_frame \<Rightarrow> bool" where
  "frame_shape bound f \<longleftrightarrow>
     (sf_kam f \<noteq> None \<longleftrightarrow> sf_index f < KAM_REPEAT) \<and> sf_index f < max 1 bound \<and> length (sf_nonce f) = 12"

lemma dm_seal_delivers:
  assumes C: "crypto_ok S" and kp: "generated_pair S pub priv" and inv: "sender_inv S priv s"
    and n: "epochs_used s < 2 ^ 64" and m: "length m \<le> GCM_MAX"
  shows "\<exists>f s' w'. dm_seal S m pub (s, w) = (Ok f, (s', w')) \<and> sender_inv S priv s' \<and>
    map_of (ds_epoch_secrets s) \<subseteq>\<^sub>m map_of (ds_epoch_secrets s') \<and>
    epochs_used s' \<le> Suc (epochs_used s) \<and> ds_rekey_msg_bound s' = ds_rekey_msg_bound s \<and>
    deliverable S priv (map_of (ds_epoch_secrets s')) f m \<and> frame_shape (ds_rekey_msg_bound s) f \<and>
    slot_free s f \<and> (\<forall>g. slot_free s' g \<longrightarrow> frame_slot f < frame_slot g \<and> slot_free s g)"
proof -
  have wf: "session_wf s" using inv by (simp add: sender_inv_def)
  obtain res s' w' where e: "dm_seal S m pub (s, w) = (res, (s', w'))" by (metis surj_pair)
  show ?thesis
  proof (rule dm_seal_cases [OF C wf e], goal_cases)
    case (1 x)
    then obtain secret w1 w2 where "length secret = 32" "wrap_dm_epoch_secret S secret pub w1 = (Err x, w2)"
      by blast
    then show ?thesis using wrap_dm_roundtrip [OF C kp, of secret w1] by auto
  next
    case (2 s1)
    then show ?thesis using m by simp
  next
    case (3 s1 r key nonce body)
    note sender = epoch_ready_sender [OF C kp inv n 3(2,4)]
    obtain idx: "dr_message_index r < dr_rekey_msg_bound r \<or> dr_message_index r = 0"
      and wf1: "session_wf s1" "session_wf (advanced s1)"
      and b: "dr_rekey_msg_bound r = ds_rekey_msg_bound s" "ds_rekey_msg_bound s1 = ds_rekey_msg_bound s"
      using epoch_ready_wf [OF wf 3(2)] 3(4) by (metis option.inject)
    let ?f = "\<lparr>sf_epoch = dr_epoch r, sf_index = dr_message_index r, sf_nonce = nonce,
      sf_body = body, sf_kam = kam_for s1 (dr_message_index r)\<rparr>"
    have store: "ds_epoch_secrets s' = ds_epoch_secrets s1" using 3 by (simp add: advanced_def)
    have r1: "map_of (ds_epoch_secrets s1) (dr_epoch r) = Some (dr_epoch_secret r)"
      "ds_current_kam s1 \<noteq> None"
      using session_wf_ratchet [OF wf1(1) 3(4)] by simp_all
    have d: "deliverable S priv (map_of (ds_epoch_secrets s')) ?f m"
      unfolding store using 3(4,7) r1 sender(1) aead_seal_OkD(4) [OF C 3(8)]
      by (auto simp: deliverable_def kam_for_def sender_inv_def split: if_splits)
    have lt: "dr_message_index r < dr_message_index r + 1"
    proof -
      have "dr_message_index r < max 1 (dr_rekey_msg_bound r)"
        using idx by (auto simp: less_max_iff_disj)
      then show ?thesis by (rule word_less_inc(1))
    qed
    have shape: "frame_shape (ds_rekey_msg_bound s) ?f"
      using idx b r1(2) 3(5) by (auto simp: frame_shape_def kam_for_def less_max_iff_disj KAM_REPEAT_def)
    have "frame_slot ?f < frame_slot g \<and> slot_free s g" if "slot_free s' g" for g
      using that 3(3,4) lt sender(4)
      by (auto simp: slot_free_def advanced_def frame_slot_less_iff split: option.splits)
    moreover have "slot_free s ?f" using sender(4) by (simp add: slot_free_def split: option.splits)
    moreover have "epochs_used s' = epochs_used s1" "ds_rekey_msg_bound s' = ds_rekey_msg_bound s"
      using 3(3,4) b by (simp_all add: epochs_used_def advanced_def)
    moreover have "sender_inv S priv s'" using 3(3) wf1 sender(1) by (simp add: sender_inv_advanced)
    ultimately show ?thesis using e 3(1) sender(2,3) store d shape by auto
  qed
qed

lemma dm_seal_all_delivers:
  assumes C: "crypto_ok S" and kp: "generated_pair S pub priv" and inv: "sender_inv S priv s"
    and n: "epochs_used s + length ms \<le> 2 ^ 64" and m: "\<forall>m \<in> set ms. length m \<le> GCM_MAX"
  shows "\<exists>fs s' w'. dm_seal_all S pub ms (s, w) = (Ok fs, (s', w')) \<and> sender_inv S priv s' \<and>
    map_of (ds_epoch_secrets s) \<subseteq>\<^sub>m map_of (ds_epoch_secrets s') \<and>
    list_all2 (deliverable S priv (map_of (ds_epoch_secrets s'))) fs ms \<and>
    (\<forall>f \<in> set fs. frame_shape (ds_rekey_msg_bound s) f \<and> slot_free s f) \<and>
    sorted_wrt (<) (map frame_slot fs)"
  using inv n m
proof (induction ms arbitrary: s w)
  case Nil
  then show ?case by auto
next
  case (Cons m ms)
  have n: "epochs_used s < 2 ^ 64" using Cons.prems(2) by simp
  have m: "length m \<le> GCM_MAX" using Cons.prems(3) by simp
  obtain f s1 w1 where e1: "dm_seal S m pub (s, w) = (Ok f, (s1, w1))" and i1: "sender_inv S priv s1"
    and le1: "map_of (ds_epoch_secrets s) \<subseteq>\<^sub>m map_of (ds_epoch_secrets s1)"
    and u1: "epochs_used s1 \<le> Suc (epochs_used s)" and b1: "ds_rekey_msg_bound s1 = ds_rekey_msg_bound s"
    and d1: "deliverable S priv (map_of (ds_epoch_secrets s1)) f m"
    and sh: "frame_shape (ds_rekey_msg_bound s) f" "slot_free s f"
    and fr: "\<And>g. slot_free s1 g \<Longrightarrow> frame_slot f < frame_slot g \<and> slot_free s g"
    using dm_seal_delivers [OF C kp Cons.prems(1) n m, of w] by blast
  have u: "epochs_used s1 + length ms \<le> 2 ^ 64" using Cons.prems(2) u1 by simp
  have ms: "\<forall>m \<in> set ms. length m \<le> GCM_MAX" using Cons.prems(3) by simp
  obtain fs s2 w2 where e2: "dm_seal_all S pub ms (s1, w1) = (Ok fs, (s2, w2))" and i2: "sender_inv S priv s2"
    and le2: "map_of (ds_epoch_secrets s1) \<subseteq>\<^sub>m map_of (ds_epoch_secrets s2)"
    and d2: "list_all2 (deliverable S priv (map_of (ds_epoch_secrets s2))) fs ms"
    and sh2: "\<forall>f \<in> set fs. frame_shape (ds_rekey_msg_bound s) f \<and> slot_free s1 f"
    and so: "sorted_wrt (<) (map frame_slot fs)"
    using Cons.IH [OF i1 u ms, of w1] b1 by auto
  have "dm_seal_all S pub (m # ms) (s, w) = (Ok (f # fs), (s2, w2))"
    using e1 e2 by (simp add: result_simps)
  moreover have "deliverable S priv (map_of (ds_epoch_secrets s2)) f m"
    by (rule deliverable_mono [OF d1 le2])
  moreover have "map_of (ds_epoch_secrets s) \<subseteq>\<^sub>m map_of (ds_epoch_secrets s2)"
    using le1 le2 by (rule map_le_trans)
  ultimately show ?case using i2 d2 sh sh2 so fr by auto
qed

subsection \<open>The receiver\<close>

lemma dm_open_delivers:
  assumes d: "deliverable C priv sec f m" and sub: "map_of (ds_epoch_secrets s) \<subseteq>\<^sub>m sec"
    and known: "map_of (ds_epoch_secrets s) (sf_epoch f) \<noteq> None \<or> sf_kam f \<noteq> None"
  shows "\<exists>s'. dm_open C f priv s = (Ok m, s') \<and> map_of (ds_epoch_secrets s') \<subseteq>\<^sub>m sec \<and>
    dom (map_of (ds_epoch_secrets s')) = insert (sf_epoch f) (dom (map_of (ds_epoch_secrets s)))"
proof -
  obtain secret key where sec: "sec (sf_epoch f) = Some secret"
    and k: "derive_dm_message_key C secret (sf_epoch f) (sf_index f) = Ok key"
    and o: "aead_open C key (sf_nonce f) (frame_aad (sf_epoch f) (sf_index f)) (sf_body f) = Ok m"
    and kam: "\<And>kam. sf_kam f = Some kam \<Longrightarrow> unwrap_dm_epoch_secret C kam priv = Ok secret"
    using d by (auto simp: deliverable_def)
  show ?thesis
  proof (cases "map_of (ds_epoch_secrets s) (sf_epoch f)")
    case None
    then obtain p where p: "sf_kam f = Some p" using known by auto
    let ?s = "insert_secret (sf_epoch f) secret s"
    have "dm_open C f priv s = (Ok m, ?s)"
      using None p kam [OF p] k o by (simp add: dm_open_def ebind_assoc insert_secret_def update_conv')
    moreover have "map_of (ds_epoch_secrets ?s) = (map_of (ds_epoch_secrets s)) (sf_epoch f \<mapsto> secret)"
      by (simp add: insert_secret_def update_conv')
    ultimately show ?thesis using sub sec by (auto simp: map_le_def)
  next
    case (Some secret')
    then have "secret' = secret" using sub sec by (auto simp: map_le_def dom_def)
    then have "dm_open C f priv s = (Ok m, s)"
      using Some k o by (simp add: dm_open_def ebind_assoc split: option.splits)
    then show ?thesis using sub Some by auto
  qed
qed

lemma dm_open_all_delivers:
  assumes "\<forall>(f, m) \<in> set ps. deliverable C priv sec f m"
    and "map_of (ds_epoch_secrets s) \<subseteq>\<^sub>m sec"
    and "\<forall>i < length ps. sf_epoch (fst (ps ! i)) \<in> dom (map_of (ds_epoch_secrets s)) \<or>
      (\<exists>k \<le> i. sf_epoch (fst (ps ! k)) = sf_epoch (fst (ps ! i)) \<and> sf_kam (fst (ps ! k)) \<noteq> None)"
  shows "fst (dm_open_all C priv (map fst ps) s) = map (Ok \<circ> snd) ps"
  using assms
proof (induction ps arbitrary: s)
  case (Cons p ps)
  obtain f m where p: "p = (f, m)" by (metis surj_pair)
  have "map_of (ds_epoch_secrets s) (sf_epoch f) \<noteq> None \<or> sf_kam f \<noteq> None"
    using Cons.prems(3) [rule_format, of 0] by (auto simp: p)
  then obtain s1 where o: "dm_open C f priv s = (Ok m, s1)" and sub: "map_of (ds_epoch_secrets s1) \<subseteq>\<^sub>m sec"
    and dom: "dom (map_of (ds_epoch_secrets s1)) = insert (sf_epoch f) (dom (map_of (ds_epoch_secrets s)))"
    using dm_open_delivers [of C priv sec f m s] Cons.prems(1,2) by (auto simp: p)
  have "fst (dm_open_all C priv (map fst ps) s1) = map (Ok \<circ> snd) ps"
  proof (rule Cons.IH [OF _ sub])
    show "\<forall>i < length ps. sf_epoch (fst (ps ! i)) \<in> dom (map_of (ds_epoch_secrets s1)) \<or>
      (\<exists>k \<le> i. sf_epoch (fst (ps ! k)) = sf_epoch (fst (ps ! i)) \<and> sf_kam (fst (ps ! k)) \<noteq> None)"
    proof (intro allI impI)
      fix i assume "i < length ps"
      then consider "sf_epoch (fst (ps ! i)) \<in> dom (map_of (ds_epoch_secrets s))"
        | k where "k \<le> Suc i" "sf_epoch (fst ((p # ps) ! k)) = sf_epoch (fst (ps ! i))"
            "sf_kam (fst ((p # ps) ! k)) \<noteq> None"
        using Cons.prems(3) [rule_format, of "Suc i"] by auto
      then show "sf_epoch (fst (ps ! i)) \<in> dom (map_of (ds_epoch_secrets s1)) \<or>
        (\<exists>k \<le> i. sf_epoch (fst (ps ! k)) = sf_epoch (fst (ps ! i)) \<and> sf_kam (fst (ps ! k)) \<noteq> None)"
      proof cases
        case 1
        then show ?thesis unfolding dom by blast
      next
        case 2
        then show ?thesis unfolding dom by (cases k) (auto simp: p)
      qed
    qed
  qed (use Cons.prems(1) in simp)
  then show ?case by (cases "dm_open_all C priv (map fst ps) s1") (simp add: p o)
qed simp

subsection \<open>Reachable sessions\<close>

text \<open>
  Sealing to any key and opening any frame, whatever they return. The frames come from the network:
  they are arbitrary.
\<close>

inductive dm_step ::
  "('w, 'f :: {minus, ord, zero}, 'z) sys_scheme \<Rightarrow> 'f dm_session \<Rightarrow> 'f dm_session \<Rightarrow> bool"
  for S :: "('w, 'f :: {minus, ord, zero}, 'z) sys_scheme" where
  step_seal: "dm_seal S m pub (s, w) = (res, (s', w')) \<Longrightarrow> dm_step S s s'"
| step_open: "dm_open S f priv s = (res, s') \<Longrightarrow> dm_step S s s'"

inductive dm_reachable ::
  "('w, 'f :: {minus, ord, zero}, 'z) sys_scheme \<Rightarrow> 'f dm_session \<Rightarrow> bool"
  for S :: "('w, 'f :: {minus, ord, zero}, 'z) sys_scheme" where
  reach_init: "dm_reachable S (dm_session_with_bounds peer bound age)"
| reach_step: "dm_reachable S s \<Longrightarrow> dm_step S s s' \<Longrightarrow> dm_reachable S s'"

inductive_cases dm_stepE: "dm_step S s s'"

lemma dm_step_wf: "crypto_ok S \<Longrightarrow> session_wf s \<Longrightarrow> dm_step S s s' \<Longrightarrow> session_wf s'"
  by (erule dm_stepE) (auto intro: dm_seal_wf dm_open_wf)

lemma dm_reachable_session_wf:
  assumes "dm_reachable S s" "crypto_ok S"
  shows "session_wf s"
  using assms by (induction rule: dm_reachable.induct) (auto intro: dm_step_wf)

end
