(* ===== verification/Dm_Draws.thy ===== *)
theory Dm_Draws
  imports Dm_Delivery
begin

text \<open>
  What \<open>seal\<close> draws from the system (\<open>src/dm_session.rs\<close>): in which world of a run each epoch secret
  is drawn, in which its key-agreement message is made, and in which the nonce of the frame is drawn.
  The worlds are those the run itself passes through, so each draw is made after every earlier one.
\<close>

subsection \<open>One seal\<close>

text \<open>Emitting a frame draws its nonce and nothing else.\<close>

lemma emit_frame_draws:
  assumes r: "ds_ratchet s = Some r" and e: "emit_frame S m (s, w) = (Ok f, (s', w'))"
  shows "fill_bytes S FRAME_NONCE_LEN w = (sf_nonce f, w')"
proof (cases "derive_dm_message_key S (dr_epoch_secret r) (dr_epoch r) (dr_message_index r)")
  case (Ok key)
  then have nk: "(dm_next_outbound_key S r :: (dm_session_error, _) result) =
      Ok ((dr_message_index r, key), r\<lparr>dr_message_index := dr_message_index r + 1\<rparr>)"
    by (simp add: dm_next_outbound_key_def Let_def)
  obtain nonce v where n: "fill_bytes S FRAME_NONCE_LEN w = (nonce, v)" by (metis surj_pair)
  show ?thesis
    using e n by (cases "aead_seal S key nonce (frame_aad (dr_epoch r) (dr_message_index r)) m")
      (auto simp: emit_frame_def r nk result_simps Let_def)
qed (use e in \<open>simp_all add: emit_frame_def r dm_next_outbound_key_def result_simps Let_def\<close>)

text \<open>The world in which a seal draws the secret of an epoch, if it begins one: the clock was read
  first when there is a ratchet whose age has to be judged.\<close>

definition draw_world :: "('w, 'f :: zero, 'z) sys_scheme \<Rightarrow> 'f dm_session \<Rightarrow> 'w \<Rightarrow> 'w" where
  "draw_world S s w = (case ds_ratchet s of None \<Rightarrow> w | Some _ \<Rightarrow> snd (now_seconds S w))"

text \<open>The draws of a seal that begins an epoch, in their order.\<close>

definition opens_epoch ::
  "('w, 'f :: {minus, ord, zero}, 'z) sys_scheme \<Rightarrow> bytes \<Rightarrow> 'w \<Rightarrow> sealed_dm_frame \<Rightarrow> 'f dm_session \<Rightarrow> 'w \<Rightarrow> bool" where
  "opens_epoch S pub v f s' w' \<longleftrightarrow>
     (\<exists>secret w1 kam w2.
        fill_bytes S 32 v = (secret, w1) \<and>
        wrap_dm_epoch_secret S secret pub w1 = (Ok kam, w2) \<and>
        fill_bytes S FRAME_NONCE_LEN (snd (now_seconds S w2)) = (sf_nonce f, w') \<and>
        sf_kam f = Some kam \<and> epoch_secret_for_test s' (sf_epoch f) = Some secret)"

lemma seal_opens:
  assumes C: "crypto_ok S" and en: "ensure_epoch S pub (s, w) = begin_epoch S e pub (s, v)"
    and seal: "dm_seal S m pub (s, w) = (Ok f, (s', w'))"
  shows "opens_epoch S pub v f s' w' \<and> sf_index f = 0 \<and>
    (\<exists>r. ds_ratchet s' = Some r \<and> dr_epoch r = sf_epoch f \<and> dr_message_index r = 1)"
proof -
  obtain secret v1 where n: "new_epoch_secret S v = (secret, v1)" by (metis surj_pair)
  obtain k v2 where wr: "wrap_dm_epoch_secret S secret pub v1 = (k, v2)" by (metis surj_pair)
  obtain t v3 where t: "now_seconds S v2 = (t, v3)" by (metis surj_pair)
  show ?thesis
  proof (cases k)
    case (Ok kam)
    let ?r = "\<lparr>dr_epoch = e, dr_epoch_secret = secret, dr_message_index = 0,
      dr_rekey_msg_bound = ds_rekey_msg_bound s, dr_rekey_age_seconds = ds_rekey_age_seconds s,
      dr_epoch_started_at = t\<rparr>"
    let ?s = "opened_epoch e secret kam t s"
    have r: "ds_ratchet ?s = Some ?r" by (simp add: opened_epoch_def)
    have em: "emit_frame S m (?s, v3) = (Ok f, (s', w'))"
      using seal en begin_epoch_Ok [OF n wr [unfolded Ok] t] by (simp add: dm_seal_def ebind_def)
    have l: "length secret = 32"
      using fill_bytes_length [OF C] n by (simp add: new_epoch_secret_def EPOCH_SECRET_LEN_def)
    have "sf_epoch f = e \<and> sf_index f = 0 \<and> sf_kam f = Some kam \<and> s' = advanced ?s"
      by (rule emit_frame_cases [OF C r _ em])
        (simp_all add: l kam_for_def KAM_REPEAT_def, simp_all add: opened_epoch_def)
    moreover have "fill_bytes S FRAME_NONCE_LEN v3 = (sf_nonce f, w')" by (rule emit_frame_draws [OF r em])
    ultimately show ?thesis
      using n wr Ok t
      by (simp add: opens_epoch_def new_epoch_secret_def EPOCH_SECRET_LEN_def epoch_secret_for_test_def
          advanced_def opened_epoch_def insert_secret_def update_conv')
  next
    case (Err x)
    then show ?thesis
      using seal en begin_epoch_Err [OF n wr [unfolded Err]] by (simp add: dm_seal_def ebind_def)
  next
    case Panic
    then show ?thesis using wrap_dm_no_panic [OF C, of secret pub v1] wr by simp
  qed
qed

text \<open>
  A session in a run of seals: its ratchet, if it has one, has given out a key. Then the frames of
  index 0 are exactly those that begin an epoch.
\<close>

definition started :: "'f dm_session \<Rightarrow> bool" where
  "started s \<longleftrightarrow> session_wf s \<and> (\<forall>r. ds_ratchet s = Some r \<longrightarrow> dr_message_index r \<noteq> 0)"

lemma started_init: "started (dm_session_with_bounds peer bound age)"
  by (simp add: started_def) (simp add: dm_session_with_bounds_def)

lemma seal_draws:
  assumes C: "crypto_ok S" and st: "started s" and seal: "dm_seal S m pub (s, w) = (Ok f, (s', w'))"
  shows "started s' \<and> (\<exists>r'. ds_ratchet s' = Some r' \<and> dr_epoch r' = sf_epoch f) \<and>
    (if sf_index f = 0 then opens_epoch S pub (draw_world S s w) f s' w'
     else \<exists>r. ds_ratchet s = Some r \<and> dr_epoch r = sf_epoch f)"
proof -
  have wf: "session_wf s" using st by (simp add: started_def)
  have wf': "session_wf s'" by (rule dm_seal_wf [OF C wf seal])
  have opens: ?thesis if "ensure_epoch S pub (s, w) = begin_epoch S e pub (s, draw_world S s w)" for e
    using seal_opens [OF C that seal] wf' by (auto simp: started_def)
  show ?thesis
  proof (cases "ds_ratchet s")
    case None
    then show ?thesis by (intro opens [of 0]) (simp add: ensure_epoch_None draw_world_def)
  next
    case (Some r)
    obtain b v where b: "dm_should_rekey S r None w = (b, v)" by (metis surj_pair)
    then have v: "v = draw_world S s w"
      by (auto simp: dm_should_rekey_def draw_world_def Some split: prod.splits)
    show ?thesis
    proof (cases b)
      case True
      then show ?thesis by (intro opens [of "dr_epoch r + 1"]) (simp add: ensure_epoch_Some [OF Some b] v)
    next
      case False
      then have en: "ensure_epoch S pub (s, w) = (Ok (), (s, v))" by (simp add: ensure_epoch_Some [OF Some b])
      have lt: "dr_message_index r < dr_rekey_msg_bound r"
        using b False by (auto simp: dm_should_rekey_def should_rekey_def split: prod.splits if_splits)
      have f: "sf_epoch f = dr_epoch r" "sf_index f = dr_message_index r" "s' = advanced s"
        using seal_in_current_epoch [OF C en Some session_wf_ratchet(2) [OF wf Some] seal] by simp_all
      have "dr_message_index r + 1 \<noteq> 0" using word_less_inc(1) [OF lt] by auto
      then show ?thesis using f wf' Some st by (simp add: started_def advanced_def)
    qed
  qed
qed

subsection \<open>A run\<close>

text \<open>A run of seals passes through the sessions and worlds its prefixes end in.\<close>

lemma seal_all_at:
  assumes "dm_seal_all S pub ms (s, w) = (Ok fs, (s', w'))" "i < length ms"
  obtains si wi sj wj where "dm_seal_all S pub (take i ms) (s, w) = (Ok (take i fs), (si, wi))"
    "dm_seal S (ms ! i) pub (si, wi) = (Ok (fs ! i), (sj, wj))"
    "dm_seal_all S pub (take (Suc i) ms) (s, w) = (Ok (take (Suc i) fs), (sj, wj))"
    "dm_seal_all S pub (drop (Suc i) ms) (sj, wj) = (Ok (drop (Suc i) fs), (s', w'))"
  using assms
proof (induction ms arbitrary: s w fs i thesis)
  case (Cons m ms)
  obtain r1 s1 w1 where e1: "dm_seal S m pub (s, w) = (r1, (s1, w1))" by (metis surj_pair)
  obtain r2 s2 w2 where e2: "dm_seal_all S pub ms (s1, w1) = (r2, (s2, w2))" by (metis surj_pair)
  obtain f gs where ok: "r1 = Ok f" "r2 = Ok gs" "fs = f # gs" "s2 = s'" "w2 = w'"
    using Cons.prems(2) e1 e2 by (cases r1; cases r2) (auto simp: ebind_def)
  show ?case
  proof (cases i)
    case 0
    then show thesis using e1 e2 ok by (intro Cons.prems(1)) (simp_all add: result_simps)
  next
    case (Suc j)
    have run: "dm_seal_all S pub ms (s1, w1) = (Ok gs, (s', w'))" and j: "j < length ms"
      using e2 ok Cons.prems(3) Suc by simp_all
    obtain si wi sj wj where "dm_seal_all S pub (take j ms) (s1, w1) = (Ok (take j gs), (si, wi))"
      "dm_seal S (ms ! j) pub (si, wi) = (Ok (gs ! j), (sj, wj))"
      "dm_seal_all S pub (take (Suc j) ms) (s1, w1) = (Ok (take (Suc j) gs), (sj, wj))"
      "dm_seal_all S pub (drop (Suc j) ms) (sj, wj) = (Ok (drop (Suc j) gs), (s', w'))"
      by (rule Cons.IH [OF _ run j])
    then show thesis
      using e1 ok Suc by (intro Cons.prems(1)) (simp_all add: result_simps del: take_Suc take_Suc_Cons, simp_all add: result_simps)
  qed
qed simp

lemma started_run:
  assumes "crypto_ok S"
  shows "dm_seal_all S pub ms (s, w) = (Ok fs, (s', w')) \<Longrightarrow> started s \<Longrightarrow> started s'"
proof (induction ms arbitrary: s w fs)
  case (Cons m ms)
  obtain sj wj where "dm_seal S m pub (s, w) = (Ok (fs ! 0), (sj, wj))"
    and run: "dm_seal_all S pub ms (sj, wj) = (Ok (drop 1 fs), (s', w'))"
    by (rule seal_all_at [OF Cons.prems(1), of 0]) (simp_all del: dm_seal_all.simps(2))
  then have "started sj" using seal_draws [OF assms Cons.prems(2)] by blast
  with run show ?case by (rule Cons.IH)
qed simp

lemma seal_all_reachable:
  "dm_seal_all S pub ms (s, w) = (Ok fs, (s', w')) \<Longrightarrow> dm_reachable S s \<Longrightarrow> dm_reachable S s'"
proof (induction ms arbitrary: s w fs)
  case (Cons m ms)
  obtain sj wj where e: "dm_seal S m pub (s, w) = (Ok (fs ! 0), (sj, wj))"
    and run: "dm_seal_all S pub ms (sj, wj) = (Ok (drop 1 fs), (s', w'))"
    by (rule seal_all_at [OF Cons.prems(1), of 0]) (simp_all del: dm_seal_all.simps(2))
  from run reach_step [OF Cons.prems(2) step_seal [OF e]] show ?case by (rule Cons.IH)
qed simp

text \<open>In a run of seals every frame of index 0 begins an epoch, with draws from the world of the run.\<close>

lemma run_opens:
  assumes C: "crypto_ok S" and run: "dm_seal_all S pub ms (s, w) = (Ok fs, (s', w'))" and st: "started s"
    and i: "i < length ms" "sf_index (fs ! i) = 0"
  obtains si wi sj wj where "dm_seal_all S pub (take i ms) (s, w) = (Ok (take i fs), (si, wi))"
    "dm_seal_all S pub (take (Suc i) ms) (s, w) = (Ok (take (Suc i) fs), (sj, wj))"
    "opens_epoch S pub (draw_world S si wi) (fs ! i) sj wj"
proof -
  obtain si wi sj wj where a: "dm_seal_all S pub (take i ms) (s, w) = (Ok (take i fs), (si, wi))"
    and b: "dm_seal S (ms ! i) pub (si, wi) = (Ok (fs ! i), (sj, wj))"
    and c: "dm_seal_all S pub (take (Suc i) ms) (s, w) = (Ok (take (Suc i) fs), (sj, wj))"
    by (rule seal_all_at [OF run i(1)])
  have "opens_epoch S pub (draw_world S si wi) (fs ! i) sj wj"
    using seal_draws [OF C started_run [OF C a st] b] i(2) by simp
  with a c show thesis by (rule that)
qed

text \<open>And every epoch a frame is sealed in was begun by a frame of the run.\<close>

lemma run_opener:
  assumes C: "crypto_ok S" and run: "dm_seal_all S pub ms (s, w) = (Ok fs, (s', w'))"
    and st: "started s" and none: "ds_ratchet s = None"
  shows "i < length ms \<Longrightarrow> \<exists>j \<le> i. sf_epoch (fs ! j) = sf_epoch (fs ! i) \<and> sf_index (fs ! j) = 0"
proof (induction i)
  case 0
  obtain sj wj where "dm_seal S (ms ! 0) pub (s, w) = (Ok (fs ! 0), (sj, wj))"
    by (rule seal_all_at [OF run 0]) simp
  from seal_draws [OF C st this] none show ?case by (auto split: if_splits)
next
  case (Suc i)
  obtain si wi sj wj where a: "dm_seal_all S pub (take i ms) (s, w) = (Ok (take i fs), (si, wi))"
    and b: "dm_seal S (ms ! i) pub (si, wi) = (Ok (fs ! i), (sj, wj))"
    and c: "dm_seal_all S pub (take (Suc i) ms) (s, w) = (Ok (take (Suc i) fs), (sj, wj))"
    by (rule seal_all_at [OF run Suc_lessD [OF Suc.prems]])
  obtain sk wk where d: "dm_seal S (ms ! Suc i) pub (sj, wj) = (Ok (fs ! Suc i), (sk, wk))"
    by (rule seal_all_at [OF run Suc.prems]) (simp add: c)
  have sj: "started sj" by (rule started_run [OF C c st])
  show ?case
  proof (cases "sf_index (fs ! Suc i) = 0")
    case False
    then have "sf_epoch (fs ! Suc i) = sf_epoch (fs ! i)"
      using seal_draws [OF C sj d] seal_draws [OF C started_run [OF C a st] b] by auto
    then show ?thesis using Suc by (metis Suc_lessD le_SucI)
  qed auto
qed

subsection \<open>A concrete run\<close>

text \<open>
  Over the concrete instance a wrap draws three times. Two messages sealed under a bound of one take two
  epochs, whose secrets are the bytes drawn first and sixth.
\<close>

lemma toy_wrap_draws:
  assumes "length secret = 32"
  shows "snd (wrap_dm_epoch_secret toy_sys secret toy_pub w) = w + 3"
proof -
  have l: "length toy_pub = 1216" by (simp add: toy_pub_def)
  have "\<exists>k. hybrid_encap toy_sys toy_pub w = (Ok k, w + 2)"
    by (simp add: hybrid_encap_def l expect_len_def slice_def to_array_def ebind_def call_def combine_def
        hkdf_expect_def toy_sys_def toy_ext_def HKDF_MAX_def len_simps lift_def)
  then obtain ct ss where e: "hybrid_encap toy_sys toy_pub w = (Ok (ct, ss), w + 2)" by auto
  obtain key where k: "dm_wrap_key toy_sys ss = Ok key" "length key = 32"
    using dm_wrap_key_total [OF toy_sys_ok] by blast
  show ?thesis using assms l e k
    by (simp add: wrap_dm_epoch_secret_def ebind_def call_def emap_err_def result_simps
        toy_sys_def toy_ext_def aead_seal_def to_array_def len_simps)
qed

lemma toy_fill [simp]: "fill_bytes toy_sys n w = (replicate n (word_of_nat w), Suc w)"
  by (simp add: toy_sys_def toy_ext_def)

lemma toy_now [simp]: "now_seconds toy_sys w = (int w, w)"
  by (simp add: now_seconds_def toy_sys_def toy_ext_def)

lemma toy_opens:
  assumes "opens_epoch toy_sys toy_pub v f s w"
  shows "w = v + 5" "epoch_secret_for_test s (sf_epoch f) = Some (replicate 32 (word_of_nat v))"
  using assms toy_wrap_draws [of "replicate 32 (word_of_nat v)" "Suc v"]
  by (auto simp: opens_epoch_def)

lemma toy_two_epochs:
  obtains f g s w r where "dm_seal_all toy_sys toy_pub [lit ''a'', lit ''b''] (dm_session_with_bounds ''bob'' 1 60, 0) = (Ok [f, g], (s, w))"
    "sf_epoch f = 0" "sf_epoch g = 1" "ds_ratchet s = Some r" "dr_epoch r = 1" "dr_message_index r = 1"
    "ds_epoch_secrets s = [(0, replicate 32 0), (1, replicate 32 5)]"
proof -
  let ?s = "dm_session_with_bounds ''bob'' 1 60 :: int dm_session"
  have none: "ds_ratchet ?s = None" and b0: "ds_rekey_msg_bound ?s = 1" "ds_epoch_secrets ?s = []"
    by (simp_all add: dm_session_with_bounds_def)
  obtain f s1 w1 where e1: "dm_seal toy_sys (lit ''a'') toy_pub (?s, 0) = (Ok f, (s1, w1))"
    using dm_seal_total [OF toy_sys_ok toy_sys_pair session_wf_init, of "lit ''a''" "''bob''" 1 60 0]
    by (auto simp: GCM_MAX_def)
  note en1 = ensure_epoch_None [OF none, of toy_sys toy_pub 0]
  note f1 = seal_in_new_epoch [OF toy_sys_ok en1 e1] and o1 = seal_opens [OF toy_sys_ok en1 e1]
  have w1: "w1 = 5" using toy_opens o1 by fastforce
  obtain r1 where r1: "ds_ratchet s1 = Some r1" "dr_epoch r1 = 0" "dr_message_index r1 = 1"
    using f1 o1 by auto
  have wf1: "session_wf s1" by (rule dm_seal_wf [OF toy_sys_ok session_wf_init e1])
  have st1: "ds_epoch_secrets s1 = [(0, replicate 32 0)]"
    using f1 b0 by (auto simp: new_epoch_secret_def EPOCH_SECRET_LEN_def)
  have "ds_rekey_msg_bound s1 = 1"
    by (rule dm_seal_cases [OF toy_sys_ok session_wf_init e1])
      (auto simp: advanced_def b0 elim: epoch_ready_wf [OF session_wf_init])
  then have b: "dm_should_rekey toy_sys r1 None w1 = (True, w1)"
    using wf1 r1 by (simp add: dm_should_rekey_def should_rekey_def session_wf_def)
  obtain g s2 w2 where e2: "dm_seal toy_sys (lit ''b'') toy_pub (s1, w1) = (Ok g, (s2, w2))"
    using dm_seal_total [OF toy_sys_ok toy_sys_pair wf1, of "lit ''b''" w1] by (auto simp: GCM_MAX_def)
  have en2: "ensure_epoch toy_sys toy_pub (s1, w1) = begin_epoch toy_sys 1 toy_pub (s1, w1)"
    using ensure_epoch_Some [OF r1(1) b, of toy_pub] r1(2) by simp
  note f2 = seal_in_new_epoch [OF toy_sys_ok en2 e2] and o2 = seal_opens [OF toy_sys_ok en2 e2]
  have "ds_epoch_secrets s2 = [(0, replicate 32 0), (1, replicate 32 5)]"
    using f2 w1 st1 by (auto simp: new_epoch_secret_def EPOCH_SECRET_LEN_def)
  then show thesis using that e1 e2 f1 f2 o2 by (auto simp: result_simps)
qed

end
