(* ===== verification/Dm_Properties.thy ===== *)
theory Dm_Properties
  imports Dm_Draws
begin

text \<open>
  The properties of direct-message sessions (\<open>src/dm_session.rs\<close>): delivery under loss, duplication
  and reordering, the use of slots, every branch of \<open>seal\<close> and \<open>open\<close>, and what happens when one
  session is used in both directions.
\<close>

subsection \<open>Delivery\<close>

lemma dm_run_init:
  assumes "crypto_ok S" "generated_pair S pub priv" "length ms \<le> 2 ^ 64" "\<forall>m \<in> set ms. length m \<le> GCM_MAX"
  shows "\<exists>fs s' w'. dm_seal_all S pub ms (dm_session_with_bounds peer bound age, w) = (Ok fs, (s', w')) \<and>
    list_all2 (deliverable S priv (map_of (ds_epoch_secrets s'))) fs ms \<and>
    (\<forall>f \<in> set fs. frame_shape bound f) \<and> sorted_wrt (<) (map frame_slot fs)"
proof -
  let ?s = "dm_session_with_bounds peer bound age"
  have n: "epochs_used ?s + length ms \<le> 2 ^ 64" and b: "ds_rekey_msg_bound ?s = bound"
    using assms(3) by (simp_all add: epochs_used_def dm_session_with_bounds_def)
  show ?thesis
    using dm_seal_all_delivers [OF assms(1,2) sender_inv_init n assms(4), of w] unfolding b by blast
qed

text \<open>
  C2: Delivery. A sender seals any messages (fewer than the epoch counter can count, each within the
  AES-GCM limit) to the public key of the receiver: every seal succeeds. The receiver, in a fresh
  session, may lose, duplicate and reorder the frames at will: as long as the first frame it sees
  of every epoch is accompanied, then or earlier, by one that carries the key-agreement message,
  every frame it opens gives exactly the plaintext that was sealed in it.
\<close>

theorem dm_delivery:
  assumes "crypto_ok S" "generated_pair S pub priv" "length ms \<le> 2 ^ 64" "\<forall>m \<in> set ms. length m \<le> GCM_MAX"
  shows "\<exists>fs s' w'. dm_seal_all S pub ms (dm_session_with_bounds peer bound age, w) = (Ok fs, (s', w')) \<and>
    length fs = length ms \<and>
    (\<forall>ps. set ps \<subseteq> set (zip fs ms) \<longrightarrow>
       (\<forall>i < length ps. \<exists>k \<le> i. sf_epoch (fst (ps ! k)) = sf_epoch (fst (ps ! i)) \<and> sf_kam (fst (ps ! k)) \<noteq> None) \<longrightarrow>
       fst (dm_open_all S priv (map fst ps) (dm_session_with_bounds peer' bound' age' :: 'g dm_session)) =
         map (Ok \<circ> snd) ps)"
proof -
  obtain fs s' w' where run: "dm_seal_all S pub ms (dm_session_with_bounds peer bound age, w) = (Ok fs, (s', w'))"
    and d: "list_all2 (deliverable S priv (map_of (ds_epoch_secrets s'))) fs ms"
    using dm_run_init [OF assms, of peer bound age w] by blast
  have "fst (dm_open_all S priv (map fst ps) (dm_session_with_bounds peer' bound' age' :: 'g dm_session)) =
      map (Ok \<circ> snd) ps"
    if "set ps \<subseteq> set (zip fs ms)"
      and "\<forall>i < length ps. \<exists>k \<le> i. sf_epoch (fst (ps ! k)) = sf_epoch (fst (ps ! i)) \<and> sf_kam (fst (ps ! k)) \<noteq> None"
    for ps
  proof (rule dm_open_all_delivers)
    show "\<forall>(f, m) \<in> set ps. deliverable S priv (map_of (ds_epoch_secrets s')) f m"
      using that(1) d by (auto simp: list_all2_iff)
  qed (use that(2) in \<open>auto simp: dm_session_with_bounds_def\<close>)
  with run d show ?thesis by (auto dest: list_all2_lengthD)
qed

theorem dm_delivery_witness:
  "\<exists>fs s' w'. dm_seal_all toy_sys toy_pub [lit ''hi'', lit ''there''] (dm_session_with_bounds ''bob'' 1 60, 0) = (Ok fs, (s', w')) \<and>
     length fs = length [lit ''hi'', lit ''there''] \<and>
     (\<forall>ps. set ps \<subseteq> set (zip fs [lit ''hi'', lit ''there'']) \<longrightarrow>
       (\<forall>i < length ps. \<exists>k \<le> i. sf_epoch (fst (ps ! k)) = sf_epoch (fst (ps ! i)) \<and> sf_kam (fst (ps ! k)) \<noteq> None) \<longrightarrow>
       fst (dm_open_all toy_sys toy_priv (map fst ps) (dm_session_with_bounds ''alice'' 1 60 :: int dm_session)) =
         map (Ok \<circ> snd) ps)"
  by (rule dm_delivery) (simp_all add: GCM_MAX_def)

text \<open>No epoch has more frames than the message bound allows.\<close>

lemma frames_per_epoch:
  assumes sh: "\<forall>f \<in> set fs. frame_shape bound f" and so: "sorted_wrt (<) (map frame_slot fs)"
  shows "length (filter (\<lambda>f. sf_epoch f = e) fs) \<le> max 1 (unat bound)"
proof -
  have um: "unat (max 1 bound) = max 1 (unat bound)" by (simp add: max_def word_le_nat_alt)
  have di: "distinct (map frame_slot fs)" using so by (simp add: strict_sorted_iff)
  let ?gs = "filter (\<lambda>f. sf_epoch f = e) fs"
  have "inj_on (\<lambda>f. unat (sf_index f)) (set ?gs)" and "distinct ?gs"
    using di by (auto simp: distinct_map inj_on_def frame_slot_def word_unat_eq_iff)
  then have "length ?gs = card ((\<lambda>f. unat (sf_index f)) ` set ?gs)"
    by (metis card_image distinct_card)
  also have "\<dots> \<le> card {..<max 1 (unat bound)}"
  proof (rule card_mono)
    show "(\<lambda>f. unat (sf_index f)) ` set ?gs \<subseteq> {..<max 1 (unat bound)}"
      using sh by (auto simp: frame_shape_def word_less_nat_alt um)
  qed simp
  finally show ?thesis by simp
qed

text \<open>
  C4: Slots. The slots (epoch, index) of the frames of one sender strictly increase, so none is used
  twice; at most \<open>max 1 rekey_msg_bound\<close> frames are sealed in one epoch; and the key-agreement
  message rides exactly the frames whose index is below \<open>KAM_REPEAT\<close>.
\<close>

theorem dm_slots:
  assumes "crypto_ok S" "generated_pair S pub priv" "length ms \<le> 2 ^ 64" "\<forall>m \<in> set ms. length m \<le> GCM_MAX"
  shows "\<exists>fs s' w'. dm_seal_all S pub ms (dm_session_with_bounds peer bound age, w) = (Ok fs, (s', w')) \<and>
    sorted_wrt (<) (map frame_slot fs) \<and> distinct (map frame_slot fs) \<and>
    (\<forall>e. length (filter (\<lambda>f. sf_epoch f = e) fs) \<le> max 1 (unat bound)) \<and>
    (\<forall>f \<in> set fs. sf_kam f \<noteq> None \<longleftrightarrow> sf_index f < KAM_REPEAT)"
proof -
  obtain fs s' w' where run: "dm_seal_all S pub ms (dm_session_with_bounds peer bound age, w) = (Ok fs, (s', w'))"
    and sh: "\<forall>f \<in> set fs. frame_shape bound f" and so: "sorted_wrt (<) (map frame_slot fs)"
    using dm_run_init [OF assms, of peer bound age w] by blast
  have di: "distinct (map frame_slot fs)" using so by (simp add: strict_sorted_iff)
  with run so sh frames_per_epoch [OF sh so] show ?thesis by (auto simp: frame_shape_def)
qed

theorem dm_slots_witness:
  "\<exists>fs s' w'. dm_seal_all toy_sys toy_pub [lit ''hi'', lit ''there''] (dm_session_with_bounds ''bob'' 1 60, 0) = (Ok fs, (s', w')) \<and>
    sorted_wrt (<) (map frame_slot fs) \<and> distinct (map frame_slot fs) \<and>
    (\<forall>e. length (filter (\<lambda>f. sf_epoch f = e) fs) \<le> max 1 (unat (1 :: u64))) \<and>
    (\<forall>f \<in> set fs. sf_kam f \<noteq> None \<longleftrightarrow> sf_index f < KAM_REPEAT)"
  by (rule dm_slots [OF toy_sys_ok toy_sys_pair]) (simp_all add: GCM_MAX_def)

text \<open>Among as many frames in a row as the bound allows plus one, the epoch moves on.\<close>

lemma epoch_moves_on:
  assumes sh: "\<forall>f \<in> set fs. frame_shape bound f" and so: "sorted_wrt (<) (map frame_slot fs)"
    and i: "i + max 1 (unat bound) < length fs"
  shows "sf_epoch (fs ! i) < sf_epoch (fs ! (i + max 1 (unat bound)))"
proof (rule ccontr)
  let ?k = "max 1 (unat bound)"
  assume no: "\<not> sf_epoch (fs ! i) < sf_epoch (fs ! (i + ?k))"
  have mono: "sf_epoch (fs ! a) \<le> sf_epoch (fs ! b)" if "a \<le> b" "b < length fs" for a b
  proof (cases "a = b")
    case False
    then have "frame_slot (fs ! a) < frame_slot (fs ! b)"
      using so that by (simp add: sorted_wrt_iff_nth_less)
    then show ?thesis by (auto simp: frame_slot_less_iff)
  qed simp
  let ?gs = "take (Suc ?k) (drop i fs)"
  have len: "length ?gs = Suc ?k" using i by simp
  have "sf_epoch g = sf_epoch (fs ! i)" if g: "g \<in> set ?gs" for g
  proof -
    obtain j where j: "j \<le> ?k" "g = fs ! (i + j)"
      using g i by (auto simp: in_set_conv_nth less_Suc_eq_le)
    then show ?thesis using mono [of i "i + j"] mono [of "i + j" "i + ?k"] no i by (simp add: not_less)
  qed
  then have all: "filter (\<lambda>f. sf_epoch f = sf_epoch (fs ! i)) ?gs = ?gs" by (simp add: filter_id_conv)
  have "set ?gs \<subseteq> set fs" by (meson set_drop_subset set_take_subset subset_trans)
  then have "\<forall>f \<in> set ?gs. frame_shape bound f" using sh by blast
  moreover have "sorted_wrt (<) (map frame_slot ?gs)"
    using so by (metis drop_map sorted_wrt_drop sorted_wrt_take take_map)
  ultimately have "length (filter (\<lambda>f. sf_epoch f = sf_epoch (fs ! i)) ?gs) \<le> ?k" by (rule frames_per_epoch)
  then show False by (simp only: all len)
qed

text \<open>
  C16: Healing. Whatever is sealed, after at most \<open>max 1 rekey_msg_bound\<close> further frames the sender is in
  a later epoch. Every epoch of the run was begun by a frame of index 0, and the secret of that epoch
  is 32 bytes the random generator gave during the sealing of that very frame: in the world the run
  was in after all earlier frames (and after the reading of the clock that decided to re-key), so no
  state of the session, no earlier secret included, enters it. The key-agreement message of the frame
  is the wrap of these bytes, made in the world that follows the draw, and the nonce is drawn in the
  world after that; the message brings the receiver exactly these bytes; the session stores them; and
  every frame decrypts under the key derived from the drawn secret of its epoch.
\<close>

theorem dm_heals:
  assumes "crypto_ok S" "generated_pair S pub priv" "length ms \<le> 2 ^ 64" "\<forall>m \<in> set ms. length m \<le> GCM_MAX"
  shows "\<exists>fs s' w'. dm_seal_all S pub ms (dm_session_with_bounds peer bound age, w) = (Ok fs, (s', w')) \<and>
    length fs = length ms \<and>
    (\<forall>i. i + max 1 (unat bound) < length ms \<longrightarrow> sf_epoch (fs ! i) < sf_epoch (fs ! (i + max 1 (unat bound)))) \<and>
    (\<forall>i < length ms. \<exists>j \<le> i. sf_epoch (fs ! j) = sf_epoch (fs ! i) \<and> sf_index (fs ! j) = 0) \<and>
    (\<forall>i < length ms. sf_index (fs ! i) = 0 \<longrightarrow>
      (\<exists>si wi sj wj secret kam.
        dm_seal_all S pub (take i ms) (dm_session_with_bounds peer bound age, w) = (Ok (take i fs), (si, wi)) \<and>
        dm_seal_all S pub (take (Suc i) ms) (dm_session_with_bounds peer bound age, w) = (Ok (take (Suc i) fs), (sj, wj)) \<and>
        secret = fst (fill_bytes S 32 (draw_world S si wi)) \<and>
        opens_epoch S pub (draw_world S si wi) (fs ! i) sj wj \<and>
        sf_kam (fs ! i) = Some kam \<and> unwrap_dm_epoch_secret S kam priv = Ok secret \<and>
        epoch_secret_for_test s' (sf_epoch (fs ! i)) = Some secret)) \<and>
    (\<forall>i < length ms. deliverable S priv (epoch_secret_for_test s') (fs ! i) (ms ! i))"
proof -
  let ?s = "dm_session_with_bounds peer bound age :: 'b dm_session"
  obtain fs s' w' where run: "dm_seal_all S pub ms (?s, w) = (Ok fs, (s', w'))"
    and d: "list_all2 (deliverable S priv (map_of (ds_epoch_secrets s'))) fs ms"
    and sh: "\<forall>f \<in> set fs. frame_shape bound f" and so: "sorted_wrt (<) (map frame_slot fs)"
    using dm_run_init [OF assms, of peer bound age w] by blast
  have len: "length fs = length ms" using d by (rule list_all2_lengthD)
  have del: "deliverable S priv (epoch_secret_for_test s') (fs ! i) (ms ! i)" if "i < length ms" for i
    using d that by (simp add: list_all2_conv_all_nth epoch_secret_for_test_def [abs_def])
  have draw: "\<exists>si wi sj wj secret kam.
      dm_seal_all S pub (take i ms) (?s, w) = (Ok (take i fs), (si, wi)) \<and>
      dm_seal_all S pub (take (Suc i) ms) (?s, w) = (Ok (take (Suc i) fs), (sj, wj)) \<and>
      secret = fst (fill_bytes S 32 (draw_world S si wi)) \<and>
      opens_epoch S pub (draw_world S si wi) (fs ! i) sj wj \<and>
      sf_kam (fs ! i) = Some kam \<and> unwrap_dm_epoch_secret S kam priv = Ok secret \<and>
      epoch_secret_for_test s' (sf_epoch (fs ! i)) = Some secret"
    if i: "i < length ms" "sf_index (fs ! i) = 0" for i
  proof -
    obtain si wi sj wj where a: "dm_seal_all S pub (take i ms) (?s, w) = (Ok (take i fs), (si, wi))"
      and b: "dm_seal_all S pub (take (Suc i) ms) (?s, w) = (Ok (take (Suc i) fs), (sj, wj))"
      and o: "opens_epoch S pub (draw_world S si wi) (fs ! i) sj wj"
      by (rule run_opens [OF assms(1) run started_init i])
    obtain w1 kam w2 where k: "wrap_dm_epoch_secret S (fst (fill_bytes S 32 (draw_world S si wi))) pub w1 = (Ok kam, w2)"
      "sf_kam (fs ! i) = Some kam"
      using o by (auto simp: opens_epoch_def)
    have "unwrap_dm_epoch_secret S kam priv = Ok (fst (fill_bytes S 32 (draw_world S si wi)))"
      by (rule dm_wrap.unwrap_wrapped [OF assms(1,2) k(1)])
    with a b o k(2) del [OF i(1)] show ?thesis by (auto simp: deliverable_def)
  qed
  have "sf_epoch (fs ! i) < sf_epoch (fs ! (i + max 1 (unat bound)))" if "i + max 1 (unat bound) < length ms" for i
    using epoch_moves_on [OF sh so, of i] that len by simp
  moreover have "\<exists>j \<le> i. sf_epoch (fs ! j) = sf_epoch (fs ! i) \<and> sf_index (fs ! j) = 0" if "i < length ms" for i
    by (rule run_opener [OF assms(1) run started_init _ that]) (simp add: dm_session_with_bounds_def)
  ultimately show ?thesis using run len draw del by (intro exI [of _ fs] exI [of _ s'] exI [of _ w']) blast
qed

text \<open>Two messages under a bound of one: two epochs, and two different secrets.\<close>

theorem dm_heals_witness:
  "\<exists>fs s' w'. dm_seal_all toy_sys toy_pub [lit ''a'', lit ''b''] (dm_session_with_bounds ''bob'' 1 60, 0) = (Ok fs, (s', w')) \<and>
     sf_epoch (fs ! 0) < sf_epoch (fs ! 1) \<and>
     deliverable toy_sys toy_priv (epoch_secret_for_test s') (fs ! 0) (lit ''a'') \<and>
     deliverable toy_sys toy_priv (epoch_secret_for_test s') (fs ! 1) (lit ''b'') \<and>
     epoch_secret_for_test s' (sf_epoch (fs ! 0)) = Some (replicate 32 0) \<and>
     epoch_secret_for_test s' (sf_epoch (fs ! 1)) = Some (replicate 32 5)"
proof -
  note heals = dm_heals [OF toy_sys_ok toy_sys_pair, where ms = "[lit ''a'', lit ''b'']" and bound = 1]
  obtain f g s w r where run: "dm_seal_all toy_sys toy_pub [lit ''a'', lit ''b''] (dm_session_with_bounds ''bob'' 1 60, 0) = (Ok [f, g], (s, w))"
    and e: "sf_epoch f = 0" "sf_epoch g = 1" "ds_epoch_secrets s = [(0, replicate 32 0), (1, replicate 32 5)]"
    by (rule toy_two_epochs)
  show ?thesis using heals [of "''bob''" 60 0] run e
    by (auto simp: GCM_MAX_def epoch_secret_for_test_def All_less_Suc simp del: dm_seal_all.simps)
qed

subsection \<open>The invariant, and the branches of seal and open\<close>

text \<open>
  C8: In every session reachable by sealing and by opening arbitrary frames, the store has one
  32-byte secret per epoch, and the outbound ratchet agrees with the store and with the bounds of
  the session, has not run past its message bound, and has a key-agreement message to send.
\<close>

theorem dm_reachable_invariant:
  assumes "crypto_ok S" "dm_reachable S s"
  shows "distinct (map fst (ds_epoch_secrets s)) \<and>
    (\<forall>(e, k) \<in> set (ds_epoch_secrets s). length k = 32) \<and>
    (\<forall>r. ds_ratchet s = Some r \<longrightarrow>
       epoch_secret_for_test s (dr_epoch r) = Some (dr_epoch_secret r) \<and>
       dr_message_index r \<le> max 1 (dr_rekey_msg_bound r) \<and>
       dr_rekey_msg_bound r = ds_rekey_msg_bound s \<and> dr_rekey_age_seconds r = ds_rekey_age_seconds s \<and>
       ds_current_kam s \<noteq> None)"
  using dm_reachable_session_wf [OF assms(2,1)]
  by (auto simp: session_wf_def epoch_secret_for_test_def)

text \<open>
  The session that has sealed two messages under a bound of one, and has then opened a frame of an epoch 7
  it did not know: three stored secrets, the ratchet of epoch 1 standing at its bound, a message to send.
\<close>

theorem dm_reachable_invariant_witness:
  "\<exists>fs s w f s' r.
     dm_seal_all toy_sys toy_pub [lit ''a'', lit ''b''] (dm_session_with_bounds ''bob'' 1 60, 0) = (Ok fs, (s, w)) \<and>
     sf_epoch f = 7 \<and> dm_open toy_sys f toy_priv s = (Err DmOpenFailed, s') \<and>
     map fst (ds_epoch_secrets s') = [0, 1, 7] \<and> distinct (map fst (ds_epoch_secrets s')) \<and>
     (\<forall>(e, k) \<in> set (ds_epoch_secrets s'). length k = 32) \<and>
     ds_ratchet s' = Some r \<and> dr_epoch r = 1 \<and> dr_message_index r = 1 \<and>
     epoch_secret_for_test s' 1 = Some (dr_epoch_secret r) \<and> dr_message_index r \<le> max 1 (dr_rekey_msg_bound r) \<and>
     dr_rekey_msg_bound r = ds_rekey_msg_bound s' \<and> dr_rekey_age_seconds r = ds_rekey_age_seconds s' \<and>
     ds_current_kam s' \<noteq> None"
proof -
  obtain f g s w r where run: "dm_seal_all toy_sys toy_pub [lit ''a'', lit ''b''] (dm_session_with_bounds ''bob'' 1 60, 0) = (Ok [f, g], (s, w))"
    and r: "ds_ratchet s = Some r" "dr_epoch r = 1" "dr_message_index r = 1"
    and st: "ds_epoch_secrets s = [(0, replicate 32 0), (1, replicate 32 5)]"
    by (rule toy_two_epochs)
  obtain kam where kam: "unwrap_dm_epoch_secret toy_sys kam toy_priv = Ok (replicate 32 7)"
    using wrap_dm_roundtrip [OF toy_sys_ok toy_sys_pair, of "replicate 32 7"] by auto
  let ?h = "\<lparr>sf_epoch = 7, sf_index = 0, sf_nonce = replicate 12 0, sf_body = [], sf_kam = Some kam\<rparr>"
  have reach: "dm_reachable toy_sys s" by (rule seal_all_reachable [OF run reach_init])
  obtain res s' where o: "dm_open toy_sys ?h toy_priv s = (res, s')" by (metis surj_pair)
  have s': "s' = insert_secret 7 (replicate 32 7) s \<and> res = Err DmOpenFailed"
    by (rule dm_open_cases [OF toy_sys_ok dm_reachable_session_wf [OF reach toy_sys_ok] o])
      (use kam st in \<open>auto simp: aead_open_def to_array_def toy_sys_def toy_ext_def\<close>)
  have "dm_reachable toy_sys s'" by (rule reach_step [OF reach step_open [OF o]])
  from dm_reachable_invariant [OF toy_sys_ok this] run o s' r st show ?thesis
    by (intro exI [of _ "[f, g]"] exI [of _ s] exI [of _ w] exI [of _ ?h] exI [of _ s'] exI [of _ r])
      (auto simp: insert_secret_def simp del: dm_seal_all.simps)
qed

text \<open>
  C12: A seal never panics. It fails only when the epoch secret cannot be wrapped to the key of the
  peer, and then the session is as it was, or when the message exceeds the AES-GCM limit; in a
  session that has not begun an epoch yet a wrong key length is reported as such.
\<close>

theorem dm_seal_errors:
  assumes "crypto_ok S" "dm_reachable S s" "dm_seal S m pub (s, w) = (res, (s', w'))"
  shows "((\<exists>f. res = Ok f) \<or> (\<exists>x. res = Err (DmRatchetError x) \<and> s' = s) \<or>
          res = Err DmOpenFailed \<and> GCM_MAX < length m) \<and>
         (ds_ratchet s = None \<and> length pub \<noteq> 1216 \<longrightarrow>
          res = Err (DmRatchetError (BadPublicKeyLen (length pub))) \<and> s' = s)"
proof (intro conjI impI)
  have wf: "session_wf s" by (rule dm_reachable_session_wf [OF assms(2,1)])
  note cases = dm_seal_cases [OF assms(1) wf assms(3)]
  show "(\<exists>f. res = Ok f) \<or> (\<exists>x. res = Err (DmRatchetError x) \<and> s' = s) \<or>
        res = Err DmOpenFailed \<and> GCM_MAX < length m"
    by (rule cases) blast+
  assume none: "ds_ratchet s = None \<and> length pub \<noteq> 1216"
  have bad: "wrap_dm_epoch_secret S secret pub v = (Err (BadPublicKeyLen (length pub)), v)"
    if "length secret = 32" for secret and v
    by (rule wrap_dm_bad_inputs(2)) (use that none in simp_all)
  have nr: "\<not> epoch_ready S pub s s1" for s1
    using none bad by (auto simp: epoch_ready_def)
  have "res = Err (DmRatchetError (BadPublicKeyLen (length pub))) \<and> s' = s"
  proof (rule cases, goal_cases)
    case (1 x)
    then show ?case using bad by auto
  qed (use nr in blast)+
  then show "res = Err (DmRatchetError (BadPublicKeyLen (length pub)))" and "s' = s" by blast+
qed

theorem dm_seal_errors_witness:
  "case dm_seal toy_sys (lit ''hi'') (lit ''short'') (dm_session_with_bounds ''bob'' 1 60, 0) of
     (res, (s', w')) \<Rightarrow> res = Err (DmRatchetError (BadPublicKeyLen 5)) \<and> s' = dm_session_with_bounds ''bob'' 1 60"
proof -
  let ?s = "dm_session_with_bounds ''bob'' 1 60"
  obtain res s' w' where e: "dm_seal toy_sys (lit ''hi'') (lit ''short'') (?s, 0) = (res, (s', w'))"
    by (metis surj_pair)
  show ?thesis
    using dm_seal_errors [OF toy_sys_ok reach_init e] by (simp only: e) (simp add: dm_session_with_bounds_def)
qed

text \<open>
  \<open>open\<close>, branch by branch. Without the epoch's secret a frame without a key-agreement message
  is refused as such, one with a message that does not unwrap reports the ratchet error, both leaving
  the session alone. Otherwise the frame is decrypted under the key of its slot, from the stored
  secret or from the one just unwrapped, which is stored whatever the decryption gives; the result is
  the plaintext, \<open>OpenFailed\<close>, or a panic when the nonce does not have 12 bytes.
\<close>

lemma dm_open_branches:
  assumes "crypto_ok C" "session_wf s" "dm_open C f priv s = (res, s')"
  shows "case (epoch_secret_for_test s (sf_epoch f), sf_kam f) of
      (None, None) \<Rightarrow> res = Err (MissingEpochSecret (sf_epoch f)) \<and> s' = s
    | (None, Some kam) \<Rightarrow>
        (case unwrap_dm_epoch_secret C kam priv of
           Err x \<Rightarrow> res = Err (DmRatchetError x) \<and> s' = s
         | Ok secret \<Rightarrow> s' = insert_secret (sf_epoch f) secret s \<and>
             (\<exists>key. derive_dm_message_key C secret (sf_epoch f) (sf_index f) = Ok key \<and>
               res = map_err (\<lambda>_. DmOpenFailed)
                 (aead_open C key (sf_nonce f) (frame_aad (sf_epoch f) (sf_index f)) (sf_body f)))
         | Panic \<Rightarrow> False)
    | (Some secret, _) \<Rightarrow> s' = s \<and>
        (\<exists>key. derive_dm_message_key C secret (sf_epoch f) (sf_index f) = Ok key \<and>
          res = map_err (\<lambda>_. DmOpenFailed)
            (aead_open C key (sf_nonce f) (frame_aad (sf_epoch f) (sf_index f)) (sf_body f)))"
  by (rule dm_open_cases [OF assms]) (auto simp: epoch_secret_for_test_def)

text \<open>
  C13: The panic of \<open>open\<close>. A frame whose nonce does not have 12 bytes, which is what the token parser
  accepts, makes \<open>open\<close> panic as soon as the session knows the epoch or the frame carries a
  key-agreement message that unwraps; nothing else makes it panic.
\<close>

theorem dm_open_panics:
  assumes "crypto_ok C" "session_wf s"
  shows "fst (dm_open C f priv s) = Panic \<longleftrightarrow>
    length (sf_nonce f) \<noteq> 12 \<and>
    (epoch_secret_for_test s (sf_epoch f) \<noteq> None \<or>
     (\<exists>kam secret. sf_kam f = Some kam \<and> unwrap_dm_epoch_secret C kam priv = Ok secret))"
  using dm_open_Panic_iff [OF assms] by (simp add: epoch_secret_for_test_def)

text \<open>A session of a receiver that knows epoch 0, and a token whose nonce has one byte.\<close>

definition knows_epoch_0 :: "int dm_session" where
  "knows_epoch_0 = insert_secret 0 (replicate 32 7) (dm_session_with_bounds ''bob'' 1 60)"

lemma knows_epoch_0_wf: "session_wf knows_epoch_0"
  by (simp add: knows_epoch_0_def dm_session_with_bounds_def insert_secret_def session_wf_def)

theorem dm_open_panics_witness:
  "\<exists>f. from_token toy_codec (to_token toy_codec f) = Ok f \<and>
       fst (dm_open toy_sys f toy_priv knows_epoch_0) = Panic"
proof (intro exI conjI)
  let ?f = "\<lparr>sf_epoch = 0, sf_index = 0, sf_nonce = [1], sf_body = [], sf_kam = None\<rparr>"
  show "from_token toy_codec (to_token toy_codec ?f) = Ok ?f"
    by (rule from_token_to_token [OF toy_codec_ok]) (simp add: frame_fits_def)
  show "fst (dm_open toy_sys ?f toy_priv knows_epoch_0) = Panic"
    by (simp add: dm_open_panics [OF toy_sys_ok knows_epoch_0_wf])
      (simp add: epoch_secret_for_test_def knows_epoch_0_def dm_session_with_bounds_def insert_secret_def)
qed

subsection \<open>Re-keying\<close>

text \<open>
  The epoch of a frame. When the ratchet asks for a re-key (or there is none yet) a successful
  seal starts the next epoch: index 0, a secret drawn afresh from the random generator, stored, and
  wrapped to the peer in the frame. Otherwise the frame takes the next index of the current epoch
  and the store does not change.
\<close>

lemma dm_seal_epoch:
  assumes "crypto_ok S" "session_wf s" "ds_ratchet s = Some r"
    and "dm_should_rekey S r None w = (b, v)" "dm_seal S m pub (s, w) = (Ok f, (s', w'))"
  shows "if b then
      sf_epoch f = dr_epoch r + 1 \<and> sf_index f = 0 \<and>
      (\<exists>secret w1 kam w2. new_epoch_secret S v = (secret, w1) \<and>
         wrap_dm_epoch_secret S secret pub w1 = (Ok kam, w2) \<and> sf_kam f = Some kam \<and>
         epoch_secret_for_test s' (dr_epoch r + 1) = Some secret \<and>
         (\<forall>e. e \<noteq> dr_epoch r + 1 \<longrightarrow> epoch_secret_for_test s' e = epoch_secret_for_test s e))
    else
      sf_epoch f = dr_epoch r \<and> sf_index f = dr_message_index r \<and>
      ds_epoch_secrets s' = ds_epoch_secrets s \<and>
      map_option dr_message_index (ds_ratchet s') = Some (dr_message_index r + 1)"
proof (cases b)
  case True
  have en: "ensure_epoch S pub (s, w) = begin_epoch S (dr_epoch r + 1) pub (s, v)"
    using ensure_epoch_Some [OF assms(3,4)] True by simp
  show ?thesis
    using seal_in_new_epoch [OF assms(1) en assms(5)] True
    by (auto simp: epoch_secret_for_test_def update_conv')
next
  case False
  have en: "ensure_epoch S pub (s, w) = (Ok (), (s, v))"
    using ensure_epoch_Some [OF assms(3,4)] False by simp
  show ?thesis
    using seal_in_current_epoch [OF assms(1) en assms(3) session_wf_ratchet(2) [OF assms(2,3)] assms(5)]
      False assms(3)
    by (simp add: advanced_def)
qed

subsection \<open>Frames and slots\<close>

text \<open>
  C6: A frame cannot be moved to another slot. If a frame with the body of a sealed one but another
  epoch or index opens, in any session and with any nonce and key-agreement message, then a forgery
  against the associated data of AES-GCM has been found.
\<close>

theorem dm_frame_bound:
  assumes "crypto_ok S" "session_wf s" "dm_seal S m pub (s, w) = (Ok f, (s', w'))"
    and "sf_body g = sf_body f" "frame_slot g \<noteq> frame_slot f"
    and "session_wf t" "dm_open S g priv t = (Ok m', t')"
  shows "aad_forgery S (sf_body f)"
proof (rule dm_seal_cases [OF assms(1-3)], goal_cases)
  case (3 s1 r key nonce body)
  have body: "sf_body f = body" "sf_epoch f = dr_epoch r" "sf_index f = dr_message_index r"
    using 3(1) by simp_all
  have aad: "frame_aad (sf_epoch g) (sf_index g) \<noteq> frame_aad (dr_epoch r) (dr_message_index r)"
    using assms(5) body by (simp add: frame_aad_inject frame_slot_def)
  show ?case
  proof (rule dm_open_cases [OF assms(1,6,7)], goal_cases)
    case (3 secret key')
    then have o: "aead_open S key' (sf_nonce g) (frame_aad (sf_epoch g) (sf_index g)) body = Ok m'"
      using assms(4) body by (metis map_err_eq_Ok_iff)
    show ?case
      unfolding body using aad_forgeryI [OF _ o aad] \<open>aead_seal _ _ _ _ _ = Ok body\<close> by blast
  qed simp_all
qed simp_all

text \<open>
  The concrete AEAD only sums bytes, so its frames can be moved to an index with the same byte sum.
\<close>

lemma toy_derive_index:
  "toy_sum (dm_info i) = toy_sum (dm_info j) \<Longrightarrow>
   derive_dm_message_key toy_sys k e i = derive_dm_message_key toy_sys k e j"
  by (simp add: derive_dm_message_key_def hkdf_expect_def toy_sys_def toy_ext_def)

lemma toy_open_aad:
  "toy_sum a = toy_sum a' \<Longrightarrow> aead_open toy_sys k n a c = aead_open toy_sys k n a' c"
  by (simp add: aead_open_def toy_sys_def toy_ext_def toy_tag_def)

lemma toy_sum_append: "toy_sum (xs @ ys) = toy_sum xs + toy_sum ys"
  by (simp add: toy_sum_def)

lemma toy_sum_index: "toy_sum (u64_be 65281) = toy_sum (u64_be 0)"
  by (simp add: toy_sum_def u64_be_def be_bytes_numeral)

theorem dm_frame_bound_witness:
  "\<exists>f g t m. sf_body g = sf_body f \<and> frame_slot g \<noteq> frame_slot f \<and>
     dm_open toy_sys g toy_priv (dm_session_with_bounds ''alice'' 1 60 :: int dm_session) = (Ok m, t) \<and>
     aad_forgery toy_sys (sf_body f)"
proof -
  let ?s = "dm_session_with_bounds ''bob'' 1 60"
  let ?t = "dm_session_with_bounds ''alice'' 1 60 :: int dm_session"
  obtain f s' w' where e: "dm_seal toy_sys (lit ''hi'') toy_pub (?s, 0) = (Ok f, (s', w'))"
    and d: "deliverable toy_sys toy_priv (map_of (ds_epoch_secrets s')) f (lit ''hi'')"
    and sh: "frame_shape (ds_rekey_msg_bound ?s) f"
    using dm_seal_delivers [OF toy_sys_ok toy_sys_pair sender_inv_init, of "''bob''" 1 60 "lit ''hi''" 0]
    by (auto simp: epochs_used_def dm_session_with_bounds_def GCM_MAX_def)
  have i: "sf_index f = 0" and k: "sf_kam f \<noteq> None"
    using sh by (simp_all add: frame_shape_def dm_session_with_bounds_def KAM_REPEAT_def)
  let ?g = "f\<lparr>sf_index := 65281\<rparr>"
  have "deliverable toy_sys toy_priv (map_of (ds_epoch_secrets s')) ?g (lit ''hi'')"
  proof -
    have "derive_dm_message_key toy_sys k e 65281 = derive_dm_message_key toy_sys k e 0" for k e
      by (rule toy_derive_index) (simp add: dm_info_def toy_sum_append toy_sum_index del: lit_Cons)
    moreover have "aead_open toy_sys k n (frame_aad e 65281) c = aead_open toy_sys k n (frame_aad e 0) c"
      for k n e c
      by (rule toy_open_aad) (simp add: frame_aad_def toy_sum_append toy_sum_index del: lit_Cons)
    ultimately show ?thesis using d by (simp add: deliverable_def i)
  qed
  then obtain t where o: "dm_open toy_sys ?g toy_priv ?t = (Ok (lit ''hi''), t)"
    using dm_open_delivers [of toy_sys toy_priv "map_of (ds_epoch_secrets s')" ?g "lit ''hi''" ?t] k
    by (auto simp: dm_session_with_bounds_def)
  have sl: "frame_slot ?g \<noteq> frame_slot f" by (simp add: frame_slot_def i)
  have "aad_forgery toy_sys (sf_body f)"
    by (rule dm_frame_bound [OF toy_sys_ok session_wf_init e _ sl session_wf_init o]) simp
  with o sl show ?thesis by (intro exI [of _ f] exI [of _ ?g] exI) auto
qed

subsection \<open>Epochs learnt from the network\<close>

text \<open>
  C14: A key-agreement message is believed before the frame is authenticated. When a frame of an
  unknown epoch carries a message that unwraps, its secret is stored even if the body does not open,
  and from then on every frame of that epoch is decrypted under it, whatever message it carries.
\<close>

theorem dm_open_pins_secret:
  assumes "crypto_ok C" "session_wf s" "epoch_secret_for_test s (sf_epoch f) = None"
    and "sf_kam f = Some kam" "unwrap_dm_epoch_secret C kam priv = Ok secret"
    and "dm_open C f priv s = (res, s')"
  shows "epoch_secret_for_test s' (sf_epoch f) = Some secret \<and>
    (\<forall>g. sf_epoch g = sf_epoch f \<longrightarrow>
       dm_open C g priv s' = dm_open C (g\<lparr>sf_kam := None\<rparr>) priv s' \<and>
       snd (dm_open C g priv s') = s')"
proof -
  have s': "s' = insert_secret (sf_epoch f) secret s"
    by (rule dm_open_cases [OF assms(1,2,6)]) (use assms(3-5) in \<open>auto simp: epoch_secret_for_test_def\<close>)
  then have st: "map_of (ds_epoch_secrets s') (sf_epoch f) = Some secret"
    by (simp add: insert_secret_def update_conv')
  have "dm_open C g priv s' = dm_open C (g\<lparr>sf_kam := None\<rparr>) priv s'" if "sf_epoch g = sf_epoch f" for g
    by (cases "sf_kam g") (simp_all add: dm_open_def ebind_assoc that st)
  moreover have "snd (dm_open C g priv s') = s'" if "sf_epoch g = sf_epoch f" for g
  proof -
    have wf: "session_wf s'" by (rule dm_open_wf [OF assms(1,2,6)])
    obtain r s2 where o: "dm_open C g priv s' = (r, s2)" by (metis surj_pair)
    show ?thesis by (rule dm_open_cases [OF assms(1) wf o]) (use that st o in auto)
  qed
  ultimately show ?thesis unfolding epoch_secret_for_test_def using st by blast
qed

text \<open>
  C15: One session used in both directions. If the peer's frames have taught the session the secret of
  epoch 0 before it sends anything, its own first seal begins epoch 0 too and overwrites that secret:
  the stored secret is the one just drawn, and every later frame of the peer's epoch 0 is decrypted
  under it, so it opens only if the peer's key of that slot happens to open it.
\<close>

theorem dm_both_directions:
  assumes "crypto_ok S" "session_wf s" "ds_ratchet s = None" "epoch_secret_for_test s 0 = Some theirs"
    and "new_epoch_secret S w = (mine, w1)" "dm_seal S m pub (s, w) = (Ok f, (s', w'))"
  shows "sf_epoch f = 0 \<and> epoch_secret_for_test s' 0 = Some mine \<and>
    (\<forall>g m'. sf_epoch g = 0 \<longrightarrow> fst (dm_open S g priv s') = Ok m' \<longrightarrow>
       (\<exists>key. derive_dm_message_key S mine 0 (sf_index g) = Ok key \<and>
         aead_open S key (sf_nonce g) (frame_aad 0 (sf_index g)) (sf_body g) = Ok m'))"
proof -
  have wf: "session_wf s'" by (rule dm_seal_wf [OF assms(1,2,6)])
  have e: "sf_epoch f = 0" and st: "map_of (ds_epoch_secrets s') 0 = Some mine"
    using seal_in_new_epoch [OF assms(1) ensure_epoch_None [OF assms(3)] assms(6)] assms(5)
    by (auto simp: update_conv')
  have "\<exists>key. derive_dm_message_key S mine 0 (sf_index g) = Ok key \<and>
         aead_open S key (sf_nonce g) (frame_aad 0 (sf_index g)) (sf_body g) = Ok m'"
    if "sf_epoch g = 0" "fst (dm_open S g priv s') = Ok m'" for g m'
  proof -
    obtain r s2 where o: "dm_open S g priv s' = (r, s2)" by (metis surj_pair)
    show ?thesis
      by (rule dm_open_cases [OF assms(1) wf o]) (use that st o in auto)
  qed
  with e st show ?thesis by (auto simp: epoch_secret_for_test_def)
qed

text \<open>Witnesses: an attacker's key-agreement message, and a session that only received so far.\<close>

theorem dm_open_pins_secret_witness:
  "\<exists>f s'. dm_open toy_sys f toy_priv (dm_session_with_bounds ''bob'' 1 60 :: int dm_session) = (Err DmOpenFailed, s') \<and>
     epoch_secret_for_test s' 5 = Some (replicate 32 9)"
proof -
  let ?s = "dm_session_with_bounds ''bob'' 1 60 :: int dm_session"
  let ?k = "replicate 32 9 :: bytes"
  obtain kam where kam: "unwrap_dm_epoch_secret toy_sys kam toy_priv = Ok ?k"
    using wrap_dm_roundtrip [OF toy_sys_ok toy_sys_pair, of ?k] by auto
  let ?f = "\<lparr>sf_epoch = 5, sf_index = 0, sf_nonce = replicate 12 0, sf_body = [], sf_kam = Some kam\<rparr>"
  obtain res s' where o: "dm_open toy_sys ?f toy_priv ?s = (res, s')" by (metis surj_pair)
  have new: "epoch_secret_for_test ?s (sf_epoch ?f) = None"
    by (simp add: epoch_secret_for_test_def dm_session_with_bounds_def)
  have st: "epoch_secret_for_test s' 5 = Some ?k"
    using dm_open_pins_secret [OF toy_sys_ok session_wf_init new _ kam o] by simp
  have "res = Err DmOpenFailed"
  proof (rule dm_open_cases [OF toy_sys_ok session_wf_init o], goal_cases)
    case (3 secret key)
    then show ?case by (simp add: aead_open_def to_array_def toy_sys_def toy_ext_def)
  qed (use kam in simp_all)
  with o st show ?thesis by blast
qed

lemma knows_epoch_0_receives: "ds_ratchet knows_epoch_0 = None"
  "epoch_secret_for_test knows_epoch_0 0 = Some (replicate 32 7)"
  by (simp_all add: knows_epoch_0_def insert_secret_def dm_session_with_bounds_def epoch_secret_for_test_def)

theorem dm_both_directions_witness:
  "\<exists>f s' w'. dm_seal toy_sys (lit ''hi'') toy_pub (knows_epoch_0, 0) = (Ok f, (s', w')) \<and>
     epoch_secret_for_test knows_epoch_0 0 = Some (replicate 32 7) \<and>
     epoch_secret_for_test s' 0 = Some (replicate 32 0)"
proof -
  obtain f s' w' where e: "dm_seal toy_sys (lit ''hi'') toy_pub (knows_epoch_0, 0) = (Ok f, (s', w'))"
    using dm_seal_total [OF toy_sys_ok toy_sys_pair knows_epoch_0_wf, of "lit ''hi''" 0] by (auto simp: GCM_MAX_def)
  have n: "new_epoch_secret toy_sys 0 = (replicate 32 0, 1)"
    by (simp add: new_epoch_secret_def EPOCH_SECRET_LEN_def toy_sys_def toy_ext_def)
  show ?thesis
    using dm_both_directions [OF toy_sys_ok knows_epoch_0_wf knows_epoch_0_receives n e] e
      knows_epoch_0_receives(2) by blast
qed

end
