(* ===== verification/Dm_Snapshot.thy ===== *)
theory Dm_Snapshot
  imports Dm_Session Json
begin

text \<open>
  Persistence of a direct-message session (\<open>snapshot\<close> and \<open>restore\<close> of \<open>src/dm_session.rs\<close>). The
  \<open>hex\<close> crate is the text codec \<open>H\<close>, which decodes what it encodes; \<open>F\<close> has the operations of
  \<open>f64\<close>.
\<close>

subsection \<open>The operations\<close>

definition snapshot_secrets :: "text_codec \<Rightarrow> 'f dm_session \<Rightarrow> 'f json" where
  "snapshot_secrets H s =
     json_object (map (\<lambda>(e, k). (u64_to_string e, JString (tc_encode H k))) (ds_epoch_secrets s))"

definition snapshot :: "text_codec \<Rightarrow> 'f float_ops \<Rightarrow> 'f dm_session \<Rightarrow> 'f json" where
  "snapshot H F s =
     (let secrets = snapshot_secrets H s;
          ratchet = (case ds_ratchet s of
              None \<Rightarrow> JNull
            | Some r \<Rightarrow> json_object
                [(''epoch'', JNumber (PosInt (dr_epoch r))),
                 (''message_index'', JNumber (PosInt (dr_message_index r))),
                 (''epoch_started_at'', json_of_f64 F (dr_epoch_started_at r))])
      in json_object
          [(''v'', JNumber (PosInt 1)),
           (''peer'', JString (ds_peer s)),
           (''rekey_msg_bound'', JNumber (PosInt (ds_rekey_msg_bound s))),
           (''rekey_age_seconds'', JNumber (PosInt (ds_rekey_age_seconds s))),
           (''epoch_secrets'', secrets),
           (''current_kam'', (case ds_current_kam s of None \<Rightarrow> JNull | Some kam \<Rightarrow> JString (tc_encode H kam))),
           (''ratchet'', ratchet)])"

definition bad :: "string \<Rightarrow> dm_session_error" where
  "bad m = BadToken (''bad snapshot: '' @ m)"

definition hex_or :: "text_codec \<Rightarrow> string \<Rightarrow> string \<Rightarrow> (dm_session_error, bytes) result" where
  "hex_or H m h = (case tc_decode H h of Inl _ \<Rightarrow> Err (bad m) | Inr raw \<Rightarrow> Ok raw)"

text \<open>The loop over the entries of \<open>epoch_secrets\<close>.\<close>

fun restore_secrets ::
  "text_codec \<Rightarrow> (string \<times> 'f json) list \<Rightarrow> 'f dm_session \<Rightarrow> (dm_session_error, 'f dm_session) result" where
  "restore_secrets H [] s = Ok s"
| "restore_secrets H ((e, hexval) # obj) s =
     rbind (ok_or (bad ''bad epoch key'') (parse_u64 e)) (\<lambda>epoch.
     rbind (ok_or (bad ''secret not str'') (as_str hexval)) (\<lambda>h.
     rbind (hex_or H ''bad secret hex'' h) (\<lambda>raw.
     if length raw \<noteq> EPOCH_SECRET_LEN then Err (bad ''secret wrong length'')
     else rbind (to_array EPOCH_SECRET_LEN raw) (\<lambda>arr.
       restore_secrets H obj (insert_secret epoch arr s)))))"

text \<open>The last block: the ratchet, from its members and the secret of its epoch.\<close>

definition restore_ratchet ::
  "'f float_ops \<Rightarrow> 'f json option \<Rightarrow> 'f dm_session \<Rightarrow> (dm_session_error, 'f dm_session) result" where
  "restore_ratchet F ratchet s =
     (case ratchet of
        None \<Rightarrow> Ok s
      | Some JNull \<Rightarrow> Ok s
      | Some rt \<Rightarrow>
          rbind (ok_or (bad ''ratchet.epoch'') (Option.bind (json_get ''epoch'' rt) as_u64)) (\<lambda>epoch.
          rbind (ok_or (bad ''ratchet.message_index'') (Option.bind (json_get ''message_index'' rt) as_u64)) (\<lambda>message_index.
          rbind (ok_or (bad ''ratchet.epoch_started_at'')
            (Option.bind (json_get ''epoch_started_at'' rt) (json_as_f64 F))) (\<lambda>epoch_started_at.
          rbind (ok_or (bad ''ratchet epoch has no stored secret'') (map_of (ds_epoch_secrets s) epoch)) (\<lambda>epoch_secret.
          Ok (s\<lparr>ds_ratchet := Some
            \<lparr>dr_epoch = epoch, dr_epoch_secret = epoch_secret, dr_message_index = message_index,
             dr_rekey_msg_bound = ds_rekey_msg_bound s, dr_rekey_age_seconds = ds_rekey_age_seconds s,
             dr_epoch_started_at = epoch_started_at\<rparr>\<rparr>))))))"

definition restore ::
  "text_codec \<Rightarrow> 'f float_ops \<Rightarrow> 'f json \<Rightarrow> (dm_session_error, 'f dm_session) result" where
  "restore H F snap =
     rbind (ok_or (bad ''missing peer'') (Option.bind (json_get ''peer'' snap) as_str)) (\<lambda>peer.
     rbind (ok_or (bad ''missing rekey_msg_bound'')
       (Option.bind (json_get ''rekey_msg_bound'' snap) as_u64)) (\<lambda>rekey_msg_bound.
     rbind (ok_or (bad ''missing rekey_age_seconds'')
       (Option.bind (json_get ''rekey_age_seconds'' snap) as_u64)) (\<lambda>rekey_age_seconds.
     let s = dm_session_with_bounds peer rekey_msg_bound rekey_age_seconds in
     rbind (case Option.bind (json_get ''epoch_secrets'' snap) as_object of
              Some obj \<Rightarrow> restore_secrets H obj s | None \<Rightarrow> Ok s) (\<lambda>s.
     rbind (case json_get ''current_kam'' snap of
              Some (JString h) \<Rightarrow> rbind (hex_or H ''bad current_kam hex'' h) (\<lambda>kam. Ok (Some kam))
            | _ \<Rightarrow> Ok None) (\<lambda>current_kam.
     restore_ratchet F (json_get ''ratchet'' snap) (s\<lparr>ds_current_kam := current_kam\<rparr>))))))"

subsection \<open>Sessions that differ in the order of the hash map only\<close>

definition same_session :: "'f dm_session \<Rightarrow> 'f dm_session \<Rightarrow> bool" where
  "same_session s s' \<longleftrightarrow>
     ds_peer s = ds_peer s' \<and> ds_rekey_msg_bound s = ds_rekey_msg_bound s' \<and>
     ds_rekey_age_seconds s = ds_rekey_age_seconds s' \<and> ds_ratchet s = ds_ratchet s' \<and>
     ds_current_kam s = ds_current_kam s' \<and> map_of (ds_epoch_secrets s) = map_of (ds_epoch_secrets s')"

lemma same_session_refl [simp]: "same_session s s"
  by (simp add: same_session_def)

text \<open>Computations whose outcome does not depend on that order.\<close>

definition order_free :: "('f dm_session \<times> 'w, 'e, 'a) eff \<Rightarrow> bool" where
  "order_free m \<longleftrightarrow>
     (\<forall>s s' w. same_session s s' \<longrightarrow>
        fst (m (s', w)) = fst (m (s, w)) \<and> snd (snd (m (s', w))) = snd (snd (m (s, w))) \<and>
        same_session (fst (snd (m (s, w)))) (fst (snd (m (s', w)))))"

lemma order_freeD:
  assumes "order_free m" "same_session s s'" "m (s, w) = (r, (t, v))"
  obtains t' where "m (s', w) = (r, (t', v))" "same_session t t'"
proof -
  obtain r' t' v' where m': "m (s', w) = (r', (t', v'))" by (metis surj_pair)
  have "fst (m (s', w)) = fst (m (s, w)) \<and> snd (snd (m (s', w))) = snd (snd (m (s, w))) \<and>
      same_session (fst (snd (m (s, w)))) (fst (snd (m (s', w))))"
    using assms(1,2) by (simp add: order_free_def)
  with m' assms(3) show thesis by (intro that [of t']) simp_all
qed

lemma order_freeI:
  fixes m :: "('f dm_session \<times> 'w, 'e, 'a) eff"
  assumes "\<And>s s' w r t v. same_session s s' \<Longrightarrow> m (s, w) = (r, (t, v)) \<Longrightarrow>
    \<exists>t'. m (s', w) = (r, (t', v)) \<and> same_session t t'"
  shows "order_free m"
  unfolding order_free_def
proof (intro allI impI)
  fix s s' :: "'f dm_session" and w :: 'w assume same: "same_session s s'"
  obtain r t v where m: "m (s, w) = (r, (t, v))" by (metis surj_pair)
  from assms [OF same m] obtain t' where "m (s', w) = (r, (t', v))" "same_session t t'" by blast
  with m show "fst (m (s', w)) = fst (m (s, w)) \<and> snd (snd (m (s', w))) = snd (snd (m (s, w))) \<and>
      same_session (fst (snd (m (s, w)))) (fst (snd (m (s', w))))"
    by simp
qed

named_theorems order_free_intros "computations that respect the equality of sessions"

lemma order_free_lift [order_free_intros]: "order_free (lift r)"
  by (simp add: order_free_def)

lemma order_free_on_world [order_free_intros]: "order_free (on_world m)"
  by (simp add: order_free_def on_world_def split: prod.split)

lemma order_free_rd [order_free_intros]:
  "(\<And>s s'. same_session s s' \<Longrightarrow> f s' = f s) \<Longrightarrow> order_free (on_self (rd f))"
  by (simp add: order_free_def on_self_def rd_def)

lemma order_free_upd [order_free_intros]:
  "(\<And>s s'. same_session s s' \<Longrightarrow> same_session (f s) (f s')) \<Longrightarrow> order_free (on_self (upd f))"
  by (simp add: order_free_def on_self_def upd_def)

lemma order_free_ebind [order_free_intros]:
  assumes "order_free m" "\<And>x. order_free (f x)"
  shows "order_free (ebind m f)"
proof (rule order_freeI)
  fix s s' w r t v
  assume s: "same_session s s'" and e: "ebind m f (s, w) = (r, (t, v))"
  obtain r1 s1 w1 where m: "m (s, w) = (r1, (s1, w1))" by (metis surj_pair)
  obtain s1' where m': "m (s', w) = (r1, (s1', w1))" "same_session s1 s1'" by (rule order_freeD [OF assms(1) s m])
  show "\<exists>t'. ebind m f (s', w) = (r, (t', v)) \<and> same_session t t'"
  proof (cases r1)
    case (Ok x)
    with e m have "f x (s1, w1) = (r, (t, v))" by (simp add: ebind_def)
    from order_freeD [OF assms(2) m'(2) this] obtain t' where "f x (s1', w1) = (r, (t', v))" "same_session t t'" .
    then show ?thesis using m' Ok by (simp add: ebind_def)
  qed (use e m m' in \<open>auto simp: ebind_def\<close>)
qed

lemma same_session_insert: "same_session s s' \<Longrightarrow> same_session (insert_secret e k s) (insert_secret e k s')"
  by (auto simp: same_session_def insert_secret_def update_conv')

lemma order_free_begin_epoch: "order_free (begin_epoch S e pub)"
  unfolding begin_epoch_def
  by (intro order_free_intros same_session_insert) (simp_all add: same_session_def)

lemma order_free_option [order_free_intros]:
  "order_free m \<Longrightarrow> (\<And>y. order_free (f y)) \<Longrightarrow> order_free (case x of None \<Rightarrow> m | Some y \<Rightarrow> f y)"
  by (cases x) simp_all

lemma order_free_prod [order_free_intros]:
  "(\<And>a b. order_free (f a b)) \<Longrightarrow> order_free (case x of (a, b) \<Rightarrow> f a b)"
  by (cases x) simp

lemma order_free_prod_app [order_free_intros]:
  "(\<And>a b. order_free (f a b c)) \<Longrightarrow> order_free ((case x of (a, b) \<Rightarrow> f a b) c)"
  by (cases x) simp

lemma order_free_seal: "order_free (dm_seal S m pub)"
  unfolding dm_seal_def ensure_epoch_def begin_at_def emit_frame_def Let_def
  by (intro order_free_intros order_free_begin_epoch) (simp_all add: same_session_def)

text \<open>\<open>open\<close>, without the monad: the secret it works with, and the decryption.\<close>

lemma dm_open_eq:
  "dm_open C f priv s =
     (case map_of (ds_epoch_secrets s) (sf_epoch f) of
        Some secret \<Rightarrow>
          (rbind (map_err DmRatchetError (derive_dm_message_key C secret (sf_epoch f) (sf_index f))) (\<lambda>key.
             map_err (\<lambda>_. DmOpenFailed) (aead_open C key (sf_nonce f) (frame_aad (sf_epoch f) (sf_index f)) (sf_body f))), s)
      | None \<Rightarrow>
          (case sf_kam f of
             None \<Rightarrow> (Err (MissingEpochSecret (sf_epoch f)), s)
           | Some kam \<Rightarrow>
               (case map_err DmRatchetError (unwrap_dm_epoch_secret C kam priv) of
                  Ok secret \<Rightarrow>
                    (rbind (map_err DmRatchetError (derive_dm_message_key C secret (sf_epoch f) (sf_index f))) (\<lambda>key.
                       map_err (\<lambda>_. DmOpenFailed) (aead_open C key (sf_nonce f) (frame_aad (sf_epoch f) (sf_index f)) (sf_body f))),
                     insert_secret (sf_epoch f) secret s)
                | Err e \<Rightarrow> (Err e, s)
                | Panic \<Rightarrow> (Panic, s))))"
proof -
  have keyed: "ebind (lift (map_err DmRatchetError m)) (\<lambda>key. lift (g key)) s =
      (rbind (map_err DmRatchetError m) g, s)" for m :: "(ratchet_error, bytes) result" and g s
    by (cases m) (simp_all add: ebind_def)
  show ?thesis
    by (cases "sf_kam f"; cases "map_of (ds_epoch_secrets s) (sf_epoch f)")
      (auto simp: dm_open_def ebind_assoc Let_def keyed insert_secret_def update_conv' split: result.split)
qed

lemma open_same:
  assumes "same_session s s'"
  shows "fst (dm_open C f priv s') = fst (dm_open C f priv s) \<and>
    same_session (snd (dm_open C f priv s)) (snd (dm_open C f priv s'))"
proof -
  have "map_of (ds_epoch_secrets s') = map_of (ds_epoch_secrets s)" using assms by (simp add: same_session_def)
  then show ?thesis
    using assms same_session_insert [OF assms] by (auto simp: dm_open_eq split: option.split result.split)
qed

subsection \<open>Reading a snapshot back\<close>

definition ratchet_json :: "'f float_ops \<Rightarrow> 'f dm_ratchet \<Rightarrow> 'f json" where
  "ratchet_json F r =
     JObject [(''epoch'', JNumber (PosInt (dr_epoch r))), (''epoch_started_at'', json_of_f64 F (dr_epoch_started_at r)),
              (''message_index'', JNumber (PosInt (dr_message_index r)))]"

lemma snapshot_eq:
  "snapshot H F s = JObject
     [(''current_kam'', (case ds_current_kam s of None \<Rightarrow> JNull | Some kam \<Rightarrow> JString (tc_encode H kam))),
      (''epoch_secrets'', snapshot_secrets H s),
      (''peer'', JString (ds_peer s)),
      (''ratchet'', (case ds_ratchet s of None \<Rightarrow> JNull | Some r \<Rightarrow> ratchet_json F r)),
      (''rekey_age_seconds'', JNumber (PosInt (ds_rekey_age_seconds s))),
      (''rekey_msg_bound'', JNumber (PosInt (ds_rekey_msg_bound s))),
      (''v'', JNumber (PosInt 1))]"
  by (simp add: snapshot_def json_object_def ratchet_json_def Let_def cong: option.case_cong)

text \<open>The entries of the hash map, in the order of their decimal keys.\<close>

definition secret_entry :: "text_codec \<Rightarrow> u64 \<times> bytes \<Rightarrow> string \<times> 'f json" where
  "secret_entry H = (\<lambda>(e, k). (u64_to_string e, JString (tc_encode H k)))"

lemma map_fst_entries: "map fst (map (secret_entry H) es) = map u64_to_string (map fst es)"
  by (simp add: secret_entry_def split_beta)

lemma distinct_entry_keys: "distinct (map fst (map (secret_entry H) es)) \<longleftrightarrow> distinct (map fst es)"
proof -
  have "inj_on u64_to_string A" for A by (simp add: inj_on_def u64_to_string_inject)
  then show ?thesis by (simp only: map_fst_entries distinct_map [of u64_to_string] simp_thms)
qed

lemma snapshot_secrets_entries:
  fixes s :: "'f dm_session"
  assumes "distinct (map fst (ds_epoch_secrets s))"
  obtains es where "snapshot_secrets H s = JObject (map (secret_entry H) es)"
    "set (map (secret_entry H) es :: (string \<times> 'f json) list) = secret_entry H ` set (ds_epoch_secrets s)"
    "distinct (map fst es)" "set es \<subseteq> set (ds_epoch_secrets s)"
proof -
  let ?kvs = "map (secret_entry H) (ds_epoch_secrets s) :: (string \<times> 'f json) list"
  let ?m = "foldl (\<lambda>m (k, v). btree_insert k v m) [] ?kvs"
  have d: "distinct (map fst ?kvs)" using assms by (simp only: distinct_entry_keys)
  have m: "set ?m = set ?kvs" "sorted_wrt (<) (map fst ?m)"
    using foldl_btree_insert [OF d, of "[]"] by simp_all
  then have "?m \<in> lists (secret_entry H ` set (ds_epoch_secrets s))" by auto
  then obtain es where es: "?m = map (secret_entry H) es" "set es \<subseteq> set (ds_epoch_secrets s)"
    by (auto simp: lists_image in_lists_conv_set subset_iff)
  have "distinct (map fst ?m)" using m(2) by (simp add: strict_sorted_iff)
  then have "distinct (map fst es)" unfolding es(1) distinct_entry_keys .
  moreover have "snapshot_secrets H s = JObject ?m"
    by (simp add: snapshot_secrets_def json_object_def secret_entry_def)
  ultimately show thesis using that es m(1) by simp
qed

lemma insert_secrets_map:
  "map_of (ds_epoch_secrets (fold (\<lambda>(e, k). insert_secret e k) es s)) =
     map_of (ds_epoch_secrets s) ++ map_of (rev es)"
  by (induction es arbitrary: s) (auto simp: insert_secret_def update_conv' fun_eq_iff map_add_def split: option.splits)

lemma insert_secrets_rest: "\<exists>x. fold (\<lambda>(e, k). insert_secret e k) es s = s\<lparr>ds_epoch_secrets := x\<rparr>"
proof (induction es arbitrary: s)
  case Nil
  show ?case by (rule exI [where x = "ds_epoch_secrets s"]) simp
next
  case (Cons x es)
  obtain e k where x: "x = (e, k)" by (cases x)
  obtain y where "fold (\<lambda>(e, k). insert_secret e k) es (insert_secret e k s) = (insert_secret e k s)\<lparr>ds_epoch_secrets := y\<rparr>"
    using Cons.IH by blast
  then have "fold (\<lambda>(e, k). insert_secret e k) (x # es) s = s\<lparr>ds_epoch_secrets := y\<rparr>"
    by (simp add: x) (simp add: insert_secret_def)
  then show ?case by blast
qed

lemma restore_entries:
  assumes "text_codec_lossless H" "\<forall>(e, k) \<in> set es. length k = 32"
  shows "restore_secrets H (map (secret_entry H) es) s = Ok (fold (\<lambda>(e, k). insert_secret e k) es s)"
  using assms(2)
proof (induction es arbitrary: s)
  case (Cons x es)
  obtain e k where x: "x = (e, k)" by (cases x)
  with Cons show ?case
    by (simp add: secret_entry_def hex_or_def tc_lossless [OF assms(1)] dec_u64.dec_enc to_array_def EPOCH_SECRET_LEN_def)
qed simp

lemma restored_secrets:
  fixes s s0 :: "'f dm_session"
  assumes "text_codec_lossless H" "distinct (map fst (ds_epoch_secrets s))"
    and "\<forall>(e, k) \<in> set (ds_epoch_secrets s). length k = 32"
    and "ds_epoch_secrets s0 = []"
  obtains obj secrets where "snapshot_secrets H s = JObject obj"
    "restore_secrets H obj s0 = Ok (s0\<lparr>ds_epoch_secrets := secrets\<rparr>)"
    "map_of secrets = map_of (ds_epoch_secrets s)"
proof -
  obtain es where es: "snapshot_secrets H s = JObject (map (secret_entry H) es)"
      "set (map (secret_entry H) es :: (string \<times> 'f json) list) = secret_entry H ` set (ds_epoch_secrets s)"
      "distinct (map fst es)" "set es \<subseteq> set (ds_epoch_secrets s)"
    by (rule snapshot_secrets_entries [OF assms(2), where H = H])
  have "inj (secret_entry H :: u64 \<times> bytes \<Rightarrow> string \<times> 'f json)"
  proof (rule injI)
    fix x y :: "u64 \<times> bytes"
    assume "secret_entry H x = (secret_entry H y :: string \<times> 'f json)"
    then show "x = y"
      using tc_lossless [OF assms(1), of "snd x"] tc_lossless [OF assms(1), of "snd y"]
      by (cases x; cases y) (auto simp: secret_entry_def u64_to_string_inject)
  qed
  with es(2) have "set es = set (ds_epoch_secrets s)" by (simp add: inj_image_eq_iff)
  then have m: "map_of (rev es) = map_of (ds_epoch_secrets s)"
    using es(3) assms(2) by (simp add: map_of_inject_set rev_map [symmetric] distinct_rev)
  have l: "\<forall>(e, k) \<in> set es. length k = 32" using assms(3) es(4) by blast
  obtain x where x: "fold (\<lambda>(e, k). insert_secret e k) es s0 = s0\<lparr>ds_epoch_secrets := x\<rparr>"
    using insert_secrets_rest by blast
  then have "map_of x = map_of (ds_epoch_secrets s)"
    using insert_secrets_map [of es s0] m assms(4) by simp
  then show thesis using that [OF es(1)] restore_entries [OF assms(1) l, of s0] x by simp
qed

subsection \<open>Persistence\<close>

text \<open>A run of calls on an object and the world: the outcomes, and what is left.\<close>

fun run_calls :: "('i \<Rightarrow> 's \<times> 'w \<Rightarrow> 'o \<times> 's \<times> 'w) \<Rightarrow> 'i list \<Rightarrow> 's \<times> 'w \<Rightarrow> 'o list \<times> 's \<times> 'w" where
  "run_calls step [] sw = ([], sw)"
| "run_calls step (i # cs) sw =
     (case step i sw of (x, sw') \<Rightarrow> case run_calls step cs sw' of (xs, sw'') \<Rightarrow> (x # xs, sw''))"

text \<open>
  The contract of a saved object: loading what was saved gives an object that cannot be told from
  the old one by a call.
\<close>

locale persistence =
  fixes step :: "'i \<Rightarrow> 's \<times> 'w \<Rightarrow> 'o \<times> 's \<times> 'w"
    and save :: "'s \<Rightarrow> 'd" and load :: "'d \<Rightarrow> ('e, 's) result"
    and valid :: "'s \<Rightarrow> bool" and sim :: "'s \<Rightarrow> 's \<Rightarrow> bool"
  assumes sim_step: "sim s s' \<Longrightarrow> step i (s, w) = (x, (t, v)) \<Longrightarrow> \<exists>t'. step i (s', w) = (x, (t', v)) \<and> sim t t'"
    and load_save: "valid s \<Longrightarrow> \<exists>s'. load (save s) = Ok s' \<and> sim s s'"
begin

lemma sim_run:
  "sim s s' \<Longrightarrow> run_calls step cs (s, w) = (xs, (t, v)) \<Longrightarrow>
     \<exists>t'. run_calls step cs (s', w) = (xs, (t', v)) \<and> sim t t'"
proof (induction cs arbitrary: s s' w xs)
  case (Cons i cs)
  obtain x s1 w1 where a: "step i (s, w) = (x, (s1, w1))" by (metis surj_pair)
  obtain s1' where b: "step i (s', w) = (x, (s1', w1))" "sim s1 s1'"
    using sim_step [OF Cons.prems(1) a] by blast
  obtain ys where c: "run_calls step cs (s1, w1) = (ys, (t, v))" "xs = x # ys"
    using Cons.prems(2) a by (auto split: prod.splits)
  from Cons.IH [OF b(2) c(1)] b(1) c(2) show ?case by auto
qed simp

lemma reload_run:
  assumes "valid s"
  shows "\<exists>s'. load (save s) = Ok s' \<and> sim s s' \<and>
    (\<forall>cs w xs t v. run_calls step cs (s, w) = (xs, (t, v)) \<longrightarrow>
       (\<exists>t'. run_calls step cs (s', w) = (xs, (t', v)) \<and> sim t t'))"
  using load_save [OF assms] sim_run by blast

end

text \<open>The calls of a session, with their outcomes.\<close>

datatype dm_call = CallSeal bytes bytes | CallOpen sealed_dm_frame bytes

datatype dm_outcome =
    Sealed "(dm_session_error, sealed_dm_frame) result"
  | Opened "(dm_session_error, bytes) result"

fun dm_call_step ::
  "('w, 'f :: {minus, ord, zero}, 'z) sys_scheme \<Rightarrow> dm_call \<Rightarrow> 'f dm_session \<times> 'w \<Rightarrow> dm_outcome \<times> 'f dm_session \<times> 'w" where
  "dm_call_step S (CallSeal m pub) sw = (case dm_seal S m pub sw of (r, sw') \<Rightarrow> (Sealed r, sw'))"
| "dm_call_step S (CallOpen f priv) (s, w) = (case dm_open S f priv s of (r, s') \<Rightarrow> (Opened r, (s', w)))"

lemma dm_call_same:
  assumes "same_session s s'" "dm_call_step S i (s, w) = (x, (t, v))"
  shows "\<exists>t'. dm_call_step S i (s', w) = (x, (t', v)) \<and> same_session t t'"
proof (cases i)
  case (CallSeal m pub)
  obtain r t0 v0 where e: "dm_seal S m pub (s, w) = (r, (t0, v0))" by (metis surj_pair)
  obtain t' where "dm_seal S m pub (s', w) = (r, (t', v0))" "same_session t0 t'"
    by (rule order_freeD [OF order_free_seal assms(1) e])
  then show ?thesis using e assms(2) CallSeal by auto
next
  case (CallOpen f priv)
  then show ?thesis
    using assms(2) open_same [OF assms(1), of S f priv] by (auto split: prod.splits)
qed

definition finite_clock :: "'f float_ops \<Rightarrow> 'f dm_session \<Rightarrow> bool" where
  "finite_clock F s = pred_option (\<lambda>r. fo_is_finite F (dr_epoch_started_at r)) (ds_ratchet s)"

definition snapshot_ok :: "text_codec \<Rightarrow> 'f float_ops \<Rightarrow> 'f dm_session \<Rightarrow> bool" where
  "snapshot_ok H F s \<longleftrightarrow> text_codec_lossless H \<and> session_wf s \<and> finite_clock F s"

text \<open>What \<open>restore\<close> makes of a snapshot, on every well-formed session.\<close>

lemma restore_snapshot:
  assumes H: "text_codec_lossless H" and wf: "session_wf s"
  shows "if finite_clock F s
    then \<exists>s'. restore H F (snapshot H F s) = Ok s' \<and> same_session s s'
    else restore H F (snapshot H F s) = Err (bad ''ratchet.epoch_started_at'')"
proof -
  let ?s0 = "dm_session_with_bounds (ds_peer s) (ds_rekey_msg_bound s) (ds_rekey_age_seconds s)"
  have "distinct (map fst (ds_epoch_secrets s))" "\<forall>(e, k) \<in> set (ds_epoch_secrets s). length k = 32"
      "ds_epoch_secrets ?s0 = []"
    using wf by (simp_all add: session_wf_def dm_session_with_bounds_def)
  then obtain obj secrets where sec: "snapshot_secrets H s = JObject obj"
      "restore_secrets H obj ?s0 = Ok (?s0\<lparr>ds_epoch_secrets := secrets\<rparr>)"
      "map_of secrets = map_of (ds_epoch_secrets s)"
    using restored_secrets [OF H] by metis
  have rest: "restore H F (snapshot H F s) =
      restore_ratchet F (Some (case ds_ratchet s of None \<Rightarrow> JNull | Some r \<Rightarrow> ratchet_json F r))
        (?s0\<lparr>ds_epoch_secrets := secrets, ds_current_kam := ds_current_kam s\<rparr>)"
    using sec(1,2) tc_lossless [OF H]
    by (cases "ds_current_kam s") (simp_all add: restore_def snapshot_eq hex_or_def)
  show ?thesis
  proof (cases "ds_ratchet s")
    case None
    then show ?thesis using sec(3)
      by (simp add: rest restore_ratchet_def same_session_def dm_session_with_bounds_def finite_clock_def)
  next
    case (Some r)
    have "map_of secrets (dr_epoch r) = Some (dr_epoch_secret r)" "dr_rekey_msg_bound r = ds_rekey_msg_bound s"
        "dr_rekey_age_seconds r = ds_rekey_age_seconds s"
      using wf Some sec(3) by (simp_all add: session_wf_def)
    then show ?thesis using Some sec(3)
      by (simp add: rest restore_ratchet_def same_session_def dm_session_with_bounds_def finite_clock_def
          ratchet_json_def json_of_f64_def)
  qed
qed

interpretation dm_store: persistence "dm_call_step S" "snapshot H F" "restore H F" "snapshot_ok H F" same_session
  for S :: "('w, 'f :: {minus, ord, zero}, 'z) sys_scheme" and H and F :: "'f float_ops"
proof unfold_locales
  fix s :: "'f dm_session"
  assume "snapshot_ok H F s"
  then show "\<exists>s'. restore H F (snapshot H F s) = Ok s' \<and> same_session s s'"
    using restore_snapshot [of H s F] by (simp add: snapshot_ok_def)
qed (rule dm_call_same)

subsection \<open>Restoring any value\<close>

text \<open>A computation fails only with the error of a bad snapshot.\<close>

definition only_bad :: "(dm_session_error, 'a) result \<Rightarrow> bool" where
  "only_bad m \<longleftrightarrow> m \<noteq> Panic \<and> (\<forall>e. m = Err e \<longrightarrow> (\<exists>t. e = bad t))"

lemma only_bad_intros [intro]:
  "only_bad (Ok x)" "only_bad (Err (bad t))" "only_bad (ok_or (bad t) v)" "only_bad (hex_or H t h)"
  by (auto simp: only_bad_def hex_or_def split: sum.split)

lemma only_bad_rbind [intro]: "only_bad m \<Longrightarrow> (\<And>x. only_bad (f x)) \<Longrightarrow> only_bad (rbind m f)"
  by (cases m) (auto simp: only_bad_def)

lemma only_bad_option [intro]:
  "only_bad m \<Longrightarrow> (\<And>y. only_bad (f y)) \<Longrightarrow> only_bad (case x of None \<Rightarrow> m | Some y \<Rightarrow> f y)"
  by (cases x) simp_all

lemma restore_secrets_cons:
  "restore_secrets H ((e, v) # obj) s =
     rbind (ok_or (bad ''bad epoch key'') (parse_u64 e)) (\<lambda>epoch.
     rbind (ok_or (bad ''secret not str'') (as_str v)) (\<lambda>h.
     rbind (hex_or H ''bad secret hex'' h) (\<lambda>raw.
     if length raw \<noteq> 32 then Err (bad ''secret wrong length'')
     else restore_secrets H obj (insert_secret epoch raw s))))"
proof -
  have "(if length raw \<noteq> EPOCH_SECRET_LEN then Err (bad ''secret wrong length'')
      else rbind (to_array EPOCH_SECRET_LEN raw) (\<lambda>arr. restore_secrets H obj (insert_secret epoch arr s))) =
    (if length raw \<noteq> 32 then Err (bad ''secret wrong length'') else restore_secrets H obj (insert_secret epoch raw s))"
    for raw epoch by (simp add: to_array_def EPOCH_SECRET_LEN_def)
  then show ?thesis by simp
qed

lemma only_bad_restore_secrets: "only_bad (restore_secrets H obj s)"
proof (induction obj arbitrary: s)
  case (Cons x obj)
  obtain e v where "x = (e, v)" by (cases x)
  then show ?case
    by (simp only: restore_secrets_cons) (intro only_bad_rbind only_bad_intros, simp add: Cons.IH only_bad_intros)
qed auto

lemma only_bad_restore_ratchet: "only_bad (restore_ratchet F rt s)"
  by (cases rt) (auto simp: restore_ratchet_def intro!: only_bad_rbind only_bad_intros split: json.split)

lemma only_bad_restore: "only_bad (restore H F v)"
  unfolding restore_def Let_def
  by (intro only_bad_rbind only_bad_intros only_bad_option only_bad_restore_secrets only_bad_restore_ratchet)
    (auto intro!: only_bad_rbind split: option.split json.split)

text \<open>What holds of a restored session, whatever it was restored from.\<close>

definition session_base :: "'f dm_session \<Rightarrow> bool" where
  "session_base s \<longleftrightarrow>
     distinct (map fst (ds_epoch_secrets s)) \<and> (\<forall>(e, k) \<in> set (ds_epoch_secrets s). length k = 32) \<and>
     (\<forall>r. ds_ratchet s = Some r \<longrightarrow>
        map_of (ds_epoch_secrets s) (dr_epoch r) = Some (dr_epoch_secret r) \<and>
        dr_rekey_msg_bound r = ds_rekey_msg_bound s \<and> dr_rekey_age_seconds r = ds_rekey_age_seconds s)"

lemma session_wf_iff_base:
  "session_wf s \<longleftrightarrow> session_base s \<and>
     (\<forall>r. ds_ratchet s = Some r \<longrightarrow> dr_message_index r \<le> max 1 (dr_rekey_msg_bound r) \<and> ds_current_kam s \<noteq> None)"
  by (auto simp: session_wf_def session_base_def split: option.splits)

lemma restore_secrets_base:
  "restore_secrets H obj s = Ok s' \<Longrightarrow> session_base s \<Longrightarrow> ds_ratchet s = None \<Longrightarrow>
     session_base s' \<and> ds_ratchet s' = None"
proof (induction obj arbitrary: s)
  case (Cons x obj)
  obtain e v where x: "x = (e, v)" by (cases x)
  from Cons.prems(1) obtain epoch raw where r: "length raw = 32"
      "restore_secrets H obj (insert_secret epoch raw s) = Ok s'"
    unfolding x restore_secrets_cons by (auto simp: result_iffs split: if_splits)
  have "session_base (insert_secret epoch raw s)"
    using Cons.prems(2,3) r(1) set_AList_update [of epoch raw "ds_epoch_secrets s"]
    by (auto simp: session_base_def insert_secret_def distinct_update)
  then show ?case using Cons.IH [OF r(2)] Cons.prems(3) by (simp add: insert_secret_def)
qed simp

lemma restore_ratchet_base:
  assumes "restore_ratchet F rt s = Ok s'" "session_base s" "ds_ratchet s = None"
  shows "session_base s'"
  using assms by (auto simp: restore_ratchet_def result_iffs session_base_def split: option.splits json.splits)

lemma restore_base:
  assumes "restore H F v = Ok s"
  shows "session_base s"
proof -
  from assms obtain peer b a s1 kam where
    s1: "(case Option.bind (json_get ''epoch_secrets'' v) as_object of
            Some obj \<Rightarrow> restore_secrets H obj (dm_session_with_bounds peer b a)
          | None \<Rightarrow> Ok (dm_session_with_bounds peer b a)) = Ok s1"
    and r: "restore_ratchet F (json_get ''ratchet'' v) (s1\<lparr>ds_current_kam := kam\<rparr>) = Ok s"
    unfolding restore_def Let_def by (auto simp only: result_iffs)
  have "session_base (dm_session_with_bounds peer b a :: 'a dm_session)"
      "ds_ratchet (dm_session_with_bounds peer b a :: 'a dm_session) = None"
    by (simp_all add: session_base_def dm_session_with_bounds_def)
  then have "session_base s1 \<and> ds_ratchet s1 = None"
    using s1 restore_secrets_base by (auto split: option.splits)
  then have "session_base (s1\<lparr>ds_current_kam := kam\<rparr>)" "ds_ratchet (s1\<lparr>ds_current_kam := kam\<rparr>) = None"
    by (simp_all add: session_base_def)
  then show ?thesis using restore_ratchet_base [OF r] by blast
qed

lemma same_session_sym: "same_session s s' \<Longrightarrow> same_session s' s"
  by (simp add: same_session_def)

lemma same_session_trans: "same_session s t \<Longrightarrow> same_session t u \<Longrightarrow> same_session s u"
  by (simp add: same_session_def)

lemma snapshot_cong:
  assumes "same_session s s'" "distinct (map fst (ds_epoch_secrets s))" "distinct (map fst (ds_epoch_secrets s'))"
  shows "snapshot H F s = snapshot H F s'"
proof -
  have "set (ds_epoch_secrets s) = set (ds_epoch_secrets s')"
    using assms by (simp add: same_session_def map_of_inject_set)
  then have "json_object (map (secret_entry H) (ds_epoch_secrets s)) = json_object (map (secret_entry H) (ds_epoch_secrets s'))"
    using assms(2,3) by (intro json_object_cong) (simp_all only: distinct_entry_keys set_map)
  then have "snapshot_secrets H s = snapshot_secrets H s'"
    by (simp add: snapshot_secrets_def secret_entry_def)
  then show ?thesis using assms(1) by (simp add: snapshot_eq same_session_def)
qed

subsection \<open>Properties\<close>

text \<open>A concrete session for witnesses.\<close>

definition toy_float :: "int float_ops" where
  "toy_float = \<lparr>fo_is_finite = (\<lambda>x. x \<ge> 0), fo_of_u64 = uint, fo_of_i64 = sint\<rparr>"

definition toy_session :: "int dm_session" where
  "toy_session =
     \<lparr>ds_peer = ''bob'', ds_rekey_msg_bound = 5, ds_rekey_age_seconds = 60,
      ds_ratchet = Some \<lparr>dr_epoch = 1, dr_epoch_secret = replicate 32 7, dr_message_index = 2,
        dr_rekey_msg_bound = 5, dr_rekey_age_seconds = 60, dr_epoch_started_at = 3\<rparr>,
      ds_epoch_secrets = [(1, replicate 32 7), (0, replicate 32 9)], ds_current_kam = Some [1, 2]\<rparr>"

lemma toy_session_wf: "session_wf toy_session" "finite_clock toy_float toy_session"
  by (simp_all add: session_wf_def toy_session_def finite_clock_def toy_float_def)

lemma toy_codec_lossless: "text_codec_lossless toy_codec"
  using toy_codec_ok by (simp add: text_codec_ok_def)

text \<open>
  C11: A well-formed session survives being saved: \<open>restore\<close> of its \<open>snapshot\<close> returns a session with
  the same contents, and every sequence of seals and opens has the same outcomes on both.
\<close>

theorem snapshot_restore:
  assumes "text_codec_lossless H" "session_wf s" "finite_clock F s"
  shows "\<exists>s'. restore H F (snapshot H F s) = Ok s' \<and> same_session s s' \<and>
    (\<forall>cs w. fst (run_calls (dm_call_step S) cs (s', w)) = fst (run_calls (dm_call_step S) cs (s, w)))"
proof -
  have "snapshot_ok H F s" using assms by (simp add: snapshot_ok_def)
  from dm_store.reload_run [OF this, of S] show ?thesis by (metis fst_conv prod.collapse)
qed

theorem snapshot_restore_witness:
  "\<exists>s'. restore toy_codec toy_float (snapshot toy_codec toy_float toy_session) = Ok s' \<and>
     map_of (ds_epoch_secrets s') 0 = Some (replicate 32 9)"
proof -
  have "map_of (ds_epoch_secrets toy_session) 0 = Some (replicate 32 9)" by (simp add: toy_session_def)
  then show ?thesis
    using snapshot_restore [OF toy_codec_lossless toy_session_wf, of toy_sys] by (auto simp: same_session_def)
qed

text \<open>
  C39: The snapshot is a faithful name of the session: two well-formed sessions have the same snapshot
  exactly when they have the same contents, whatever the order of their hash maps.
\<close>

theorem snapshot_eq_iff_same:
  assumes "text_codec_lossless H" "session_wf s" "session_wf s'" "finite_clock F s" "finite_clock F s'"
  shows "snapshot H F s = snapshot H F s' \<longleftrightarrow> same_session s s'"
proof
  assume e: "snapshot H F s = snapshot H F s'"
  obtain t where t: "restore H F (snapshot H F s) = Ok t" "same_session s t"
    using restore_snapshot [OF assms(1,2), of F] assms(4) by auto
  obtain t' where t': "restore H F (snapshot H F s') = Ok t'" "same_session s' t'"
    using restore_snapshot [OF assms(1,3), of F] assms(5) by auto
  have "t = t'" using e t(1) t'(1) by simp
  then show "same_session s s'" using t(2) t'(2) same_session_sym same_session_trans by metis
next
  assume "same_session s s'"
  then show "snapshot H F s = snapshot H F s'"
    using assms(2,3) by (intro snapshot_cong) (auto simp: session_wf_def)
qed

theorem snapshot_eq_iff_same_witness:
  "snapshot toy_codec toy_float (toy_session\<lparr>ds_epoch_secrets := [(0, replicate 32 9), (1, replicate 32 7)]\<rparr>) =
     snapshot toy_codec toy_float toy_session"
proof -
  let ?t = "toy_session\<lparr>ds_epoch_secrets := [(0, replicate 32 9), (1, replicate 32 7)]\<rparr>"
  have "session_wf ?t" "finite_clock toy_float ?t" "same_session ?t toy_session"
    by (auto simp: session_wf_def toy_session_def finite_clock_def toy_float_def same_session_def fun_eq_iff)
  then show ?thesis
    using snapshot_eq_iff_same [OF toy_codec_lossless, of ?t toy_session] toy_session_wf by simp
qed

text \<open>
  C40: \<open>restore\<close> of any JSON value never panics. It fails with a bad-snapshot error only, and a session
  it returns has secrets of 32 bytes under distinct epochs and a ratchet that runs on the stored secret
  of its epoch with the session's bounds. A session whose clock reading is not finite, which a snapshot
  writes as \<open>null\<close>, is the one well-formed session that does not come back.
\<close>

theorem restore_outcomes:
  assumes "text_codec_lossless H" "session_wf s"
  shows "restore H F v \<noteq> Panic \<and> (\<forall>e. restore H F v = Err e \<longrightarrow> (\<exists>t. e = BadToken (''bad snapshot: '' @ t))) \<and>
    (\<forall>s'. restore H F v = Ok s' \<longrightarrow> session_base s') \<and>
    (\<not> finite_clock F s \<longrightarrow> restore H F (snapshot H F s) = Err (BadToken ''bad snapshot: ratchet.epoch_started_at''))"
  using only_bad_restore [of H F v] restore_base [of H F v] restore_snapshot [OF assms, of F]
  by (auto simp: only_bad_def bad_def)

theorem restore_outcomes_witness:
  "restore toy_codec toy_float
     (snapshot toy_codec toy_float
       (toy_session\<lparr>ds_ratchet := map_option (dr_epoch_started_at_update (\<lambda>_. -1)) (ds_ratchet toy_session)\<rparr>)) =
     Err (BadToken ''bad snapshot: ratchet.epoch_started_at'')"
proof -
  let ?t = "toy_session\<lparr>ds_ratchet := map_option (dr_epoch_started_at_update (\<lambda>_. -1)) (ds_ratchet toy_session)\<rparr>"
  have "session_wf ?t" "\<not> finite_clock toy_float ?t"
    by (simp_all add: session_wf_def toy_session_def finite_clock_def toy_float_def)
  then show ?thesis using restore_outcomes [OF toy_codec_lossless, of ?t toy_float] by blast
qed

end

