(* ===== verification/Dm_Channel.thy ===== *)
theory Dm_Channel
  imports Dm_Delivery Dm_Snapshot
begin

text \<open>
  Sessions as an implementation of a channel. The implementation is a link of two sessions of
  \<open>src/dm_session.rs\<close>: a sender that seals and writes tokens, a network that keeps every token, a
  receiver that parses and opens any of them in any order, and restarts of either side from its
  snapshot, interleaved at will. The specification is a log of messages and the set of epochs the
  receiver has heard of. Every run of the link has the outcomes of a run of the specification.
\<close>

subsection \<open>The specification\<close>

datatype link_op = Send bytes | Deliver nat | RestartSender | RestartReceiver

datatype link_out = Sent | Delivered bytes | UnknownEpoch | Done | Failed

text \<open>A log entry: the slot, the message, and whether the key-agreement message rides along.\<close>

record channel =
  ch_log :: "(slot \<times> bytes \<times> bool) list"
  ch_known :: "u64 set"

definition channel_init :: channel where
  "channel_init = \<lparr>ch_log = [], ch_known = {}\<rparr>"

inductive channel_step :: "u64 \<Rightarrow> link_op \<Rightarrow> channel \<Rightarrow> link_out \<Rightarrow> channel \<Rightarrow> bool"
  for bound :: u64 where
  ch_send: "(\<forall>e \<in> set (ch_log A). fst e < sl) \<Longrightarrow> slot_index sl < max 1 bound \<Longrightarrow>
     channel_step bound (Send m) A Sent (A\<lparr>ch_log := ch_log A @ [(sl, m, slot_index sl < KAM_REPEAT)]\<rparr>)"
| ch_deliver: "i < length (ch_log A) \<Longrightarrow> ch_log A ! i = (sl, m, kam) \<Longrightarrow>
     slot_epoch sl \<in> ch_known A \<or> kam \<Longrightarrow>
     channel_step bound (Deliver i) A (Delivered m) (A\<lparr>ch_known := insert (slot_epoch sl) (ch_known A)\<rparr>)"
| ch_unknown: "i < length (ch_log A) \<Longrightarrow> ch_log A ! i = (sl, m, False) \<Longrightarrow> slot_epoch sl \<notin> ch_known A \<Longrightarrow>
     channel_step bound (Deliver i) A UnknownEpoch A"
| ch_nothing: "length (ch_log A) \<le> i \<Longrightarrow> channel_step bound (Deliver i) A Done A"
| ch_restart_sender: "channel_step bound RestartSender A Done A"
| ch_restart_receiver: "channel_step bound RestartReceiver A Done A"

inductive_cases channel_stepE: "channel_step bound i A x A'"
inductive_simps channel_step_send: "channel_step bound (Send m) A x A'"
inductive_simps channel_step_deliver: "channel_step bound (Deliver i) A x A'"

text \<open>Runs of a specification.\<close>

inductive spec_run :: "('i \<Rightarrow> 'a \<Rightarrow> 'o \<Rightarrow> 'a \<Rightarrow> bool) \<Rightarrow> 'a \<Rightarrow> 'i list \<Rightarrow> 'o list \<Rightarrow> bool"
  for step :: "'i \<Rightarrow> 'a \<Rightarrow> 'o \<Rightarrow> 'a \<Rightarrow> bool" where
  spec_nil: "spec_run step A [] []"
| spec_cons: "step i A x A' \<Longrightarrow> spec_run step A' ops xs \<Longrightarrow> spec_run step A (i # ops) (x # xs)"

inductive_cases spec_run_ConsE: "spec_run step A (i # ops) xs"
inductive_cases spec_run_NilE: "spec_run step A [] xs"

lemma spec_run_length: "spec_run step A ops xs \<Longrightarrow> length xs = length ops"
  by (induction rule: spec_run.induct) simp_all

text \<open>The messages sent by some operations, and what a delivery may give after them.\<close>

fun sent :: "link_op list \<Rightarrow> bytes list" where
  "sent [] = []"
| "sent (Send m # ops) = m # sent ops"
| "sent (i # ops) = sent ops"

fun delivery_ok :: "bytes list \<Rightarrow> link_op \<Rightarrow> link_out \<Rightarrow> bool" where
  "delivery_ok ms (Send m) x \<longleftrightarrow> x = Sent"
| "delivery_ok ms (Deliver i) x \<longleftrightarrow>
     (if i < length ms then x = Delivered (ms ! i) \<or> x = UnknownEpoch else x = Done)"
| "delivery_ok ms i x \<longleftrightarrow> x = Done"

definition ch_sent :: "channel \<Rightarrow> bytes list" where
  "ch_sent A = map (\<lambda>(sl, m, kam). m) (ch_log A)"

lemma ch_sent_nth: "i < length (ch_log A) \<Longrightarrow> ch_log A ! i = (sl, m, kam) \<Longrightarrow> ch_sent A ! i = m"
  by (simp add: ch_sent_def)

lemma length_ch_sent [simp]: "length (ch_sent A) = length (ch_log A)"
  by (simp add: ch_sent_def)

text \<open>Every outcome of a run of the channel is right for what was sent before.\<close>

lemma channel_run_delivery:
  assumes "spec_run (channel_step bound) A ops xs" "j < length ops"
  shows "delivery_ok (ch_sent A @ sent (take j ops)) (ops ! j) (xs ! j)"
  using assms
proof (induction arbitrary: j rule: spec_run.induct)
  case (spec_cons i A x A' ops xs)
  have log: "ch_sent A' = ch_sent A @ sent [i]"
    using spec_cons.hyps(1) by (cases rule: channel_stepE) (auto simp: ch_sent_def)
  have here: "delivery_ok (ch_sent A) i x"
    using spec_cons.hyps(1) by (cases rule: channel_stepE) (auto simp: ch_sent_nth)
  have app: "sent (i # rest) = sent [i] @ sent rest" for rest by (cases i) simp_all
  show ?case
  proof (cases j)
    case 0
    then show ?thesis using here by simp
  next
    case (Suc k)
    then show ?thesis using spec_cons.IH [of k] spec_cons.prems log app [of "take k ops"] by simp
  qed
qed simp

subsection \<open>Simulation\<close>

text \<open>
  The contract of an implementation of a specification: a relation kept by every operation, with a
  budget of operations left.
\<close>

locale simulation =
  fixes cstep :: "'i \<Rightarrow> 's \<times> 'w \<Rightarrow> 'o \<times> 's \<times> 'w"
    and astep :: "'i \<Rightarrow> 'a \<Rightarrow> 'o \<Rightarrow> 'a \<Rightarrow> bool"
    and rel :: "nat \<Rightarrow> 's \<Rightarrow> 'a \<Rightarrow> bool" and ok :: "'i \<Rightarrow> bool"
  assumes sim: "rel (Suc k) c A \<Longrightarrow> ok i \<Longrightarrow> cstep i (c, w) = (x, (c', w')) \<Longrightarrow> \<exists>A'. astep i A x A' \<and> rel k c' A'"
begin

lemma sim_runs:
  "rel (length ops) c A \<Longrightarrow> list_all ok ops \<Longrightarrow> spec_run astep A ops (fst (run_calls cstep ops (c, w)))"
proof (induction ops arbitrary: c A w)
  case Nil
  show ?case by (simp add: spec_nil)
next
  case (Cons i ops)
  obtain x c' w' where s: "cstep i (c, w) = (x, (c', w'))" by (metis surj_pair)
  then obtain A' where a: "astep i A x A'" "rel (length ops) c' A'"
    using sim [of "length ops" c A i w x c' w'] Cons.prems by auto
  have "spec_run astep A' ops (fst (run_calls cstep ops (c', w')))"
    using Cons.IH [OF a(2)] Cons.prems(2) by simp
  with a(1) show ?case by (simp add: s split_beta spec_cons)
qed

end

subsection \<open>The link\<close>

record 'f link =
  ln_sender :: "'f dm_session"
  ln_receiver :: "'f dm_session"
  ln_net :: "string list"

definition link_init :: "u64 \<Rightarrow> u64 \<Rightarrow> 'f link" where
  "link_init bound age =
     \<lparr>ln_sender = dm_session_with_bounds ''receiver'' bound age,
      ln_receiver = dm_session_with_bounds ''sender'' bound age, ln_net = []\<rparr>"

fun opened_out :: "(dm_session_error, bytes) result \<Rightarrow> link_out" where
  "opened_out (Ok m) = Delivered m"
| "opened_out (Err (MissingEpochSecret e)) = UnknownEpoch"
| "opened_out r = Failed"

text \<open>\<open>B\<close> is the codec of tokens, \<open>H\<close> that of snapshots; the keys are those of the receiver.\<close>

fun link_step ::
  "('w, 'f :: {minus, ord, zero}, 'z) sys_scheme \<Rightarrow> text_codec \<Rightarrow> text_codec \<Rightarrow> 'f float_ops \<Rightarrow> bytes \<Rightarrow> bytes \<Rightarrow>
   link_op \<Rightarrow> 'f link \<times> 'w \<Rightarrow> link_out \<times> 'f link \<times> 'w" where
  "link_step S B H F pub priv (Send m) (c, w) =
     (case dm_seal S m pub (ln_sender c, w) of
        (Ok f, (s', w')) \<Rightarrow> (Sent, (c\<lparr>ln_sender := s', ln_net := ln_net c @ [to_token B f]\<rparr>, w'))
      | (_, (s', w')) \<Rightarrow> (Failed, (c\<lparr>ln_sender := s'\<rparr>, w')))"
| "link_step S B H F pub priv (Deliver i) (c, w) =
     (if i < length (ln_net c) then
        (case from_token B (ln_net c ! i) of
           Ok f \<Rightarrow> (case dm_open S f priv (ln_receiver c) of (r, s') \<Rightarrow> (opened_out r, (c\<lparr>ln_receiver := s'\<rparr>, w)))
         | _ \<Rightarrow> (Failed, (c, w)))
      else (Done, (c, w)))"
| "link_step S B H F pub priv RestartSender (c, w) =
     (case restore H F (snapshot H F (ln_sender c)) of
        Ok s' \<Rightarrow> (Done, (c\<lparr>ln_sender := s'\<rparr>, w)) | _ \<Rightarrow> (Failed, (c, w)))"
| "link_step S B H F pub priv RestartReceiver (c, w) =
     (case restore H F (snapshot H F (ln_receiver c)) of
        Ok s' \<Rightarrow> (Done, (c\<lparr>ln_receiver := s'\<rparr>, w)) | _ \<Rightarrow> (Failed, (c, w)))"

subsection \<open>What the sessions contribute\<close>

text \<open>The clock reads finite numbers.\<close>

definition clock_finite :: "'f float_ops \<Rightarrow> ('w, 'f :: zero, 'z) sys_scheme \<Rightarrow> bool" where
  "clock_finite F S \<longleftrightarrow> (\<forall>w. fo_is_finite F (fst (now_seconds S w)))"

lemma seal_clock:
  assumes C: "crypto_ok S" and F: "clock_finite F S" and fin: "finite_clock F s" and wf: "session_wf s"
    and e: "dm_seal S m pub (s, w) = (res, (s', w'))"
  shows "finite_clock F s'"
proof -
  obtain r1 s1 w1 where en: "ensure_epoch S pub (s, w) = (r1, (s1, w1))" by (metis surj_pair)
  have fin1: "finite_clock F s1 \<and> session_wf s1 \<and> (r1 \<noteq> Ok () \<or> ds_ratchet s1 \<noteq> None)"
    by (rule ensure_epoch_cases [OF C en])
      (use fin wf F in \<open>auto simp: finite_clock_def opened_epoch_def clock_finite_def
        intro: session_wf_opened [unfolded opened_epoch_def]\<close>)
  show ?thesis
  proof (cases r1)
    case (Ok u)
    then obtain r where r: "ds_ratchet s1 = Some r" using fin1 by auto
    have em: "emit_frame S m (s1, w1) = (res, (s', w'))"
      using e en Ok by (simp add: dm_seal_def ebind_def)
    have "s' = advanced s1"
      by (rule emit_frame_cases [OF C r session_wf_ratchet(2) em]) (use fin1 r in auto)
    then show ?thesis using fin1 r by (simp add: finite_clock_def advanced_def)
  qed (use e en fin1 in \<open>auto simp: dm_seal_def ebind_def\<close>)
qed

lemma seal_body_length:
  assumes "crypto_ok S" "session_wf s" "dm_seal S m pub (s, w) = (Ok f, (s', w'))"
  shows "length (sf_body f) = length m + 16"
  by (rule dm_seal_cases [OF assms]) auto

lemma deliverable_fits:
  assumes "frame_shape bound f" "deliverable C priv sec f m" "length (sf_body f) < 2 ^ 32"
  shows "frame_fits f"
  using assms by (auto simp: frame_fits_def frame_shape_def deliverable_def dest!: unwrap_dm_OkD split: option.split)

text \<open>A session that was restarted is as good as the old one.\<close>

lemma same_session_wf:
  assumes "same_session s s'" "session_wf s" "session_base s'"
  shows "session_wf s'"
  using assms by (auto simp: session_wf_iff_base same_session_def)

lemma restart:
  assumes "text_codec_lossless H" "session_wf s" "finite_clock F s"
  obtains s' where "restore H F (snapshot H F s) = Ok s'" "same_session s s'" "session_wf s'"
  using restore_snapshot [OF assms(1,2), of F] assms(3) restore_base same_session_wf [OF _ assms(2)] by metis

lemma same_session_sender:
  assumes "same_session s s'" "session_wf s'" "sender_inv C priv s"
  shows "sender_inv C priv s'"
proof -
  have "map_of (ds_epoch_secrets s') = Map.empty" if "ds_ratchet s' = None"
    using assms that by (simp add: same_session_def sender_inv_def)
  then show ?thesis using assms by (auto simp: sender_inv_def same_session_def split: option.splits)
qed

subsection \<open>The relation\<close>

definition link_entry ::
  "('w, 'z) crypto_scheme \<Rightarrow> text_codec \<Rightarrow> bytes \<Rightarrow> (u64 \<Rightarrow> bytes option) \<Rightarrow> string \<Rightarrow> slot \<times> bytes \<times> bool \<Rightarrow> bool" where
  "link_entry S B priv sec t = (\<lambda>(sl, m, kam).
     \<exists>f. t = to_token B f \<and> frame_fits f \<and> deliverable S priv sec f m \<and> sl = frame_slot f \<and> (kam \<longleftrightarrow> sf_kam f \<noteq> None))"

lemma link_entry_mono: "link_entry S B priv sec t x \<Longrightarrow> sec \<subseteq>\<^sub>m sec' \<Longrightarrow> link_entry S B priv sec' t x"
  unfolding link_entry_def by (auto intro: deliverable_mono split: prod.splits)

text \<open>
  The sender can go on for \<open>k\<close> operations; the receiver's secrets are among the sender's, for the
  known epochs; each token is that of a log entry; the free slots of the sender are above the log.
\<close>

definition sender_rel ::
  "('w, 'z) crypto_scheme \<Rightarrow> 'f float_ops \<Rightarrow> bytes \<Rightarrow> u64 \<Rightarrow> nat \<Rightarrow> 'f dm_session \<Rightarrow> channel \<Rightarrow> bool" where
  "sender_rel S F priv bound k s A \<longleftrightarrow>
     sender_inv S priv s \<and> finite_clock F s \<and> ds_rekey_msg_bound s = bound \<and> epochs_used s + k \<le> 2 ^ 64 \<and>
     (\<forall>e \<in> set (ch_log A). \<forall>g. slot_free s g \<longrightarrow> fst e < frame_slot g)"

definition receiver_rel :: "'f dm_session \<Rightarrow> 'f dm_session \<Rightarrow> channel \<Rightarrow> bool" where
  "receiver_rel s r A \<longleftrightarrow>
     session_wf r \<and> ds_ratchet r = None \<and> map_of (ds_epoch_secrets r) \<subseteq>\<^sub>m map_of (ds_epoch_secrets s) \<and>
     ch_known A = dom (map_of (ds_epoch_secrets r))"

definition link_rel ::
  "('w, 'z) crypto_scheme \<Rightarrow> text_codec \<Rightarrow> 'f float_ops \<Rightarrow> bytes \<Rightarrow> u64 \<Rightarrow> nat \<Rightarrow> 'f link \<Rightarrow> channel \<Rightarrow> bool" where
  "link_rel S B F priv bound k c A \<longleftrightarrow>
     sender_rel S F priv bound k (ln_sender c) A \<and> receiver_rel (ln_sender c) (ln_receiver c) A \<and>
     list_all2 (link_entry S B priv (map_of (ds_epoch_secrets (ln_sender c)))) (ln_net c) (ch_log A)"

lemma link_rel_init:
  assumes "n \<le> 2 ^ 64"
  shows "link_rel S B F priv bound n (link_init bound age) channel_init"
  using assms
  by (simp add: link_rel_def sender_rel_def receiver_rel_def link_init_def channel_init_def sender_inv_init finite_clock_def)
    (simp add: dm_session_with_bounds_def epochs_used_def)

lemma sender_rel_less: "sender_rel S F priv bound (Suc k) s A \<Longrightarrow> sender_rel S F priv bound k s A"
  by (simp add: sender_rel_def)

subsection \<open>The simulation\<close>

lemma send_sim:
  assumes C: "crypto_ok S" and kp: "generated_pair S pub priv" and F: "clock_finite F S"
    and m: "length m + 16 < 2 ^ 32" and rel: "link_rel S B F priv bound (Suc k) c A"
    and st: "link_step S B H F pub priv (Send m) (c, w) = (x, (c', w'))"
  shows "\<exists>A'. channel_step bound (Send m) A x A' \<and> link_rel S B F priv bound k c' A'"
proof -
  let ?s = "ln_sender c"
  from rel have inv: "sender_inv S priv ?s" and fin: "finite_clock F ?s" and b: "ds_rekey_msg_bound ?s = bound"
    and n: "epochs_used ?s < 2 ^ 64" and free: "\<And>e g. e \<in> set (ch_log A) \<Longrightarrow> slot_free ?s g \<Longrightarrow> fst e < frame_slot g"
    by (auto simp: link_rel_def sender_rel_def)
  have m': "length m \<le> GCM_MAX" using m by (simp add: GCM_MAX_def)
  obtain f s' v where e: "dm_seal S m pub (?s, w) = (Ok f, (s', v))" and inv': "sender_inv S priv s'"
    and le: "map_of (ds_epoch_secrets ?s) \<subseteq>\<^sub>m map_of (ds_epoch_secrets s')"
    and u: "epochs_used s' \<le> Suc (epochs_used ?s)" and b': "ds_rekey_msg_bound s' = bound"
    and d: "deliverable S priv (map_of (ds_epoch_secrets s')) f m" and sh: "frame_shape bound f"
    and sf: "slot_free ?s f" and fr: "\<And>g. slot_free s' g \<Longrightarrow> frame_slot f < frame_slot g \<and> slot_free ?s g"
    using dm_seal_delivers [OF C kp inv n m', of w] unfolding b by blast
  have wf: "session_wf ?s" using inv by (simp add: sender_inv_def)
  have fits: "frame_fits f"
    using deliverable_fits [OF sh d] seal_body_length [OF C wf e] m by simp
  let ?A = "A\<lparr>ch_log := ch_log A @ [(frame_slot f, m, slot_index (frame_slot f) < KAM_REPEAT)]\<rparr>"
  have idx: "slot_index (frame_slot f) = sf_index f" by (simp add: frame_slot_def)
  have x: "x = Sent" "c' = c\<lparr>ln_sender := s', ln_net := ln_net c @ [to_token B f]\<rparr>" using st e by simp_all
  have "channel_step bound (Send m) A Sent ?A"
    by (rule ch_send) (use free sf sh in \<open>auto simp: idx frame_shape_def\<close>)
  moreover have "sender_rel S F priv bound k s' ?A"
    using inv' seal_clock [OF C F fin wf e] b' u rel fr free
    by (auto simp: sender_rel_def link_rel_def)
  moreover have "receiver_rel s' (ln_receiver c) ?A"
    using rel le by (auto simp: receiver_rel_def link_rel_def intro: map_le_trans)
  moreover have "link_entry S B priv (map_of (ds_epoch_secrets s')) (to_token B f)
      (frame_slot f, m, slot_index (frame_slot f) < KAM_REPEAT)"
    using fits d sh by (auto simp: link_entry_def idx frame_shape_def)
  moreover have "list_all2 (link_entry S B priv (map_of (ds_epoch_secrets s'))) (ln_net c) (ch_log A)"
    using rel le by (auto simp: link_rel_def intro: list_all2_mono link_entry_mono)
  ultimately show ?thesis by (intro exI [of _ ?A]) (simp add: link_rel_def x list_all2_appendI)
qed

lemma open_unknown:
  "map_of (ds_epoch_secrets s) (sf_epoch f) = None \<Longrightarrow> sf_kam f = None \<Longrightarrow>
     dm_open C f priv s = (Err (MissingEpochSecret (sf_epoch f)), s)"
  by (simp add: dm_open_eq)

lemma deliver_sim:
  assumes C: "crypto_ok S" and B: "text_codec_ok B" and rel: "link_rel S B F priv bound (Suc k) c A"
    and st: "link_step S B H F pub priv (Deliver i) (c, w) = (x, (c', w'))"
  shows "\<exists>A'. channel_step bound (Deliver i) A x A' \<and> link_rel S B F priv bound k c' A'"
proof (cases "i < length (ln_net c)")
  case False
  then have "x = Done" "c' = c" "length (ch_log A) \<le> i"
    using st rel by (auto simp: link_rel_def dest: list_all2_lengthD)
  then show ?thesis using rel by (auto simp: link_rel_def intro: ch_nothing sender_rel_less)
next
  case True
  let ?sec = "map_of (ds_epoch_secrets (ln_sender c))" and ?r = "ln_receiver c"
  have len: "i < length (ch_log A)" and en: "link_entry S B priv ?sec (ln_net c ! i) (ch_log A ! i)"
    using rel True by (auto simp: link_rel_def list_all2_conv_all_nth)
  obtain sl m kam where entry: "ch_log A ! i = (sl, m, kam)" by (metis surj_pair)
  obtain f where f: "ln_net c ! i = to_token B f" "frame_fits f" "deliverable S priv ?sec f m" "sl = frame_slot f"
      "kam \<longleftrightarrow> sf_kam f \<noteq> None"
    using en by (auto simp: link_entry_def entry)
  have tok: "from_token B (ln_net c ! i) = Ok f" using from_token_to_token [OF B f(2)] f(1) by simp
  have r: "session_wf ?r" "ds_ratchet ?r = None" "map_of (ds_epoch_secrets ?r) \<subseteq>\<^sub>m ?sec"
      "ch_known A = dom (map_of (ds_epoch_secrets ?r))"
    using rel by (simp_all add: link_rel_def receiver_rel_def)
  have ep: "slot_epoch sl = sf_epoch f" by (simp add: f(4) frame_slot_def)
  obtain res r' where o: "dm_open S f priv ?r = (res, r')" by (metis surj_pair)
  have x: "x = opened_out res" "c' = c\<lparr>ln_receiver := r'\<rparr>" using st True tok o by simp_all
  show ?thesis
  proof (cases "map_of (ds_epoch_secrets ?r) (sf_epoch f) \<noteq> None \<or> sf_kam f \<noteq> None")
    case True
    let ?A = "A\<lparr>ch_known := insert (slot_epoch sl) (ch_known A)\<rparr>"
    obtain s' where s': "dm_open S f priv ?r = (Ok m, s')" "map_of (ds_epoch_secrets s') \<subseteq>\<^sub>m ?sec"
        "dom (map_of (ds_epoch_secrets s')) = insert (sf_epoch f) (dom (map_of (ds_epoch_secrets ?r)))"
      using dm_open_delivers [OF f(3) r(3) True] by blast
    have "ds_ratchet r' = None"
      by (rule dm_open_cases [OF C r(1) o]) (use r(2) in \<open>auto simp: insert_secret_def\<close>)
    then have "receiver_rel (ln_sender c) r' ?A"
      using s' o r dm_open_wf [OF C r(1) o] by (simp add: receiver_rel_def ep)
    moreover have "channel_step bound (Deliver i) A (Delivered m) ?A"
      by (rule ch_deliver [OF len entry]) (use True r(4) f(5) in \<open>auto simp: ep\<close>)
    moreover have "x = Delivered m" using x s'(1) o by simp
    ultimately show ?thesis using rel x(2) by (intro exI [of _ ?A]) (auto simp: link_rel_def sender_rel_def)
  next
    case False
    then have "res = Err (MissingEpochSecret (sf_epoch f))" "r' = ?r" using o open_unknown [of ?r f S priv] by simp_all
    moreover have "channel_step bound (Deliver i) A UnknownEpoch A"
      by (rule ch_unknown [OF len]) (use False r(4) f(5) entry in \<open>auto simp: ep\<close>)
    ultimately show ?thesis using rel x by (auto simp: link_rel_def intro: sender_rel_less)
  qed
qed

lemma restart_sim:
  assumes H: "text_codec_lossless H" and rel: "link_rel S B F priv bound (Suc k) c A"
    and i: "i = RestartSender \<or> i = RestartReceiver"
    and st: "link_step S B H F pub priv i (c, w) = (x, (c', w'))"
  shows "\<exists>A'. channel_step bound i A x A' \<and> link_rel S B F priv bound k c' A'"
proof -
  let ?s = "ln_sender c" and ?r = "ln_receiver c"
  have wf: "session_wf ?s" "finite_clock F ?s" "session_wf ?r" "finite_clock F ?r"
    using rel by (auto simp: link_rel_def sender_rel_def sender_inv_def receiver_rel_def finite_clock_def)
  obtain s' where s': "restore H F (snapshot H F ?s) = Ok s'" "same_session ?s s'" "session_wf s'"
    by (rule restart [OF H wf(1,2)])
  obtain r' where r': "restore H F (snapshot H F ?r) = Ok r'" "same_session ?r r'" "session_wf r'"
    by (rule restart [OF H wf(3,4)])
  from i show ?thesis
  proof
    assume RS: "i = RestartSender"
    then have x: "x = Done" "c' = c\<lparr>ln_sender := s'\<rparr>" using st s' by simp_all
    have "sender_rel S F priv bound k s' A"
      using rel s'(2,3) same_session_sender [OF s'(2,3)]
      by (auto simp: link_rel_def sender_rel_def same_session_def finite_clock_def epochs_used_def slot_free_def)
    then have "link_rel S B F priv bound k c' A"
      using rel s'(2) by (simp add: link_rel_def x(2) receiver_rel_def same_session_def)
    then show ?thesis using x RS by (auto intro: ch_restart_sender)
  next
    assume RR: "i = RestartReceiver"
    then have x: "x = Done" "c' = c\<lparr>ln_receiver := r'\<rparr>" using st r' by simp_all
    have "link_rel S B F priv bound k c' A"
      using rel r'(2,3) by (auto simp: link_rel_def x(2) receiver_rel_def same_session_def intro: sender_rel_less)
    then show ?thesis using x RR by (auto intro: ch_restart_receiver)
  qed
qed

subsection \<open>Refinement\<close>

text \<open>The messages must fit the 32-bit length of a frame's body.\<close>

fun op_fits :: "link_op \<Rightarrow> bool" where
  "op_fits (Send m) \<longleftrightarrow> length m + 16 < 2 ^ 32"
| "op_fits i \<longleftrightarrow> True"

text \<open>What the parties and their environment guarantee.\<close>

definition link_ok ::
  "('w, 'f :: zero, 'z) sys_scheme \<Rightarrow> text_codec \<Rightarrow> text_codec \<Rightarrow> 'f float_ops \<Rightarrow> bytes \<Rightarrow> bytes \<Rightarrow> bool" where
  "link_ok S B H F pub priv \<longleftrightarrow>
     crypto_ok S \<and> generated_pair S pub priv \<and> text_codec_ok B \<and> text_codec_lossless H \<and> clock_finite F S"

lemma link_sim:
  assumes "link_ok S B H F pub priv" "link_rel S B F priv bound (Suc k) c A" "op_fits i"
    and "link_step S B H F pub priv i (c, w) = (x, (c', w'))"
  shows "\<exists>A'. channel_step bound i A x A' \<and> link_rel S B F priv bound k c' A'"
proof (cases i)
  case (Send m)
  from assms(1,3) have "crypto_ok S" "generated_pair S pub priv" "clock_finite F S" "length m + 16 < 2 ^ 32"
    by (simp_all add: link_ok_def Send)
  from send_sim [OF this assms(2) assms(4) [unfolded Send]] show ?thesis unfolding Send .
next
  case (Deliver j)
  from assms(1) have "crypto_ok S" "text_codec_ok B" by (simp_all add: link_ok_def)
  from deliver_sim [OF this assms(2) assms(4) [unfolded Deliver]] show ?thesis unfolding Deliver .
qed (use assms restart_sim [OF _ assms(2) _ assms(4)] in \<open>auto simp: link_ok_def\<close>)

text \<open>The step of a link whose environment is sound; other links make no step of interest.\<close>

interpretation channel_link: simulation "link_step S B H F pub priv" "channel_step bound"
    "\<lambda>k c A. link_ok S B H F pub priv \<and> link_rel S B F priv bound k c A" op_fits
  for S :: "('w, 'f :: {minus, ord, zero}, 'z) sys_scheme" and B H and F :: "'f float_ops" and pub priv bound
proof unfold_locales
  fix k c A i w x c' w'
  assume "link_ok S B H F pub priv \<and> link_rel S B F priv bound (Suc k) c A" "op_fits i"
    and "link_step S B H F pub priv i (c, w) = (x, (c', w'))"
  then show "\<exists>A'. channel_step bound i A x A' \<and> link_ok S B H F pub priv \<and> link_rel S B F priv bound k c' A'"
    using link_sim [of S B H F pub priv bound k c A i w x c' w'] by blast
qed

lemma toy_clock_finite: "clock_finite toy_float toy_sys"
  by (simp add: clock_finite_def now_seconds_def toy_sys_def toy_ext_def toy_float_def)

lemma toy_link_ok: "link_ok toy_sys toy_codec toy_codec toy_float toy_pub toy_priv"
  by (simp add: link_ok_def toy_codec_ok toy_codec_lossless toy_clock_finite)

text \<open>With two messages per epoch every frame carries the key-agreement message.\<close>

lemma short_run:
  assumes "spec_run (channel_step 2) channel_init [Send m, RestartSender, RestartReceiver, Deliver 0] xs"
  shows "xs = [Sent, Done, Done, Delivered m]"
proof -
  have "i < KAM_REPEAT" if "i < max 1 2" for i :: u64
    using that by (simp add: KAM_REPEAT_def max_def word_less_nat_alt)
  with assms show ?thesis
    by (auto simp: channel_init_def elim!: spec_run_ConsE spec_run_NilE channel_stepE)
qed

text \<open>
  C1: Refinement. Two sessions joined by a network implement a channel. Seals to the receiver,
  deliveries of any token ever written, in any order and any number, and restarts of either side from
  its snapshot may be interleaved at will: every run has the outcomes of a run of the channel. So
  nothing ever fails; every seal succeeds; and delivering the token of the \<open>i\<close>-th message gives that
  message, unless the receiver has not yet heard of its epoch and no key-agreement message rides along.
\<close>

theorem link_refines_channel:
  assumes "link_ok S B H F pub priv" "length ops \<le> 2 ^ 64" "list_all op_fits ops"
  shows "spec_run (channel_step bound) channel_init ops
      (fst (run_calls (link_step S B H F pub priv) ops (link_init bound age, w))) \<and>
    (\<forall>j < length ops. delivery_ok (sent (take j ops)) (ops ! j)
      (fst (run_calls (link_step S B H F pub priv) ops (link_init bound age, w)) ! j))"
proof -
  have run: "spec_run (channel_step bound) channel_init ops
      (fst (run_calls (link_step S B H F pub priv) ops (link_init bound age, w)))"
    using assms link_rel_init [OF assms(2)] by (intro channel_link.sim_runs) auto
  then show ?thesis using channel_run_delivery [OF run] by (auto simp: ch_sent_def channel_init_def)
qed

theorem link_refines_channel_witness:
  "fst (run_calls (link_step toy_sys toy_codec toy_codec toy_float toy_pub toy_priv)
     [Send (lit ''hi''), RestartSender, RestartReceiver, Deliver 0] (link_init 2 60, 0)) =
   [Sent, Done, Done, Delivered (lit ''hi'')]"
proof -
  let ?ops = "[Send (lit ''hi''), RestartSender, RestartReceiver, Deliver 0]"
  have "spec_run (channel_step 2) channel_init ?ops
      (fst (run_calls (link_step toy_sys toy_codec toy_codec toy_float toy_pub toy_priv) ?ops (link_init 2 60, 0)))"
    by (rule link_refines_channel [OF toy_link_ok, THEN conjunct1]) simp_all
  then show ?thesis by (rule short_run)
qed

end
