(* ===== verification/Anon_Queue.thy ===== *)
theory Anon_Queue
  imports Crypto Text
begin

text \<open>
  Anonymous queue addressing (\<open>src/anon_queue.rs\<close>): the pair of queue ids, the \<open>aqid:\<close> address codec
  and the deniable authenticator. The URL-safe \<open>base64\<close> engine is the parameter \<open>B\<close>.
\<close>

subsection \<open>Constants and errors\<close>

definition ANON_SUITE :: string where "ANON_SUITE = ''aqid-v1''"
definition QUEUE_ID_LEN :: nat where "QUEUE_ID_LEN = 16"
definition AQID_SCHEME :: string where "AQID_SCHEME = ''aqid:''"
definition AUTH_TAG_LEN :: nat where "AUTH_TAG_LEN = 32"

datatype anon_queue_error =
    BadRelay string
  | BadIdLen string nat
  | BadAddress string
  | BadBase64

text \<open>\<open>Display for AnonQueueError\<close>.\<close>

fun anon_queue_error_to_string :: "anon_queue_error \<Rightarrow> string" where
  "anon_queue_error_to_string (BadRelay msg) = ''relay '' @ msg"
| "anon_queue_error_to_string (BadIdLen what got) =
     what @ '' must be '' @ decimal QUEUE_ID_LEN @ '' bytes, got '' @ decimal got"
| "anon_queue_error_to_string (BadAddress msg) = ''address '' @ msg"
| "anon_queue_error_to_string BadBase64 = ''id is not valid base64url''"

subsection \<open>Queue ids\<close>

text \<open>
  The loop that draws the sender id again while it equals the recipient id. It need not end:
  \<open>None\<close> is the value of a loop that never does.
\<close>

partial_function (option) redraw ::
  "('w, 'z) crypto_scheme \<Rightarrow> bytes \<Rightarrow> bytes \<Rightarrow> 'w \<Rightarrow> (bytes \<times> 'w) option" where
  "redraw C recipient_id sender_id w =
     (if sender_id = recipient_id
      then (case fill_bytes C QUEUE_ID_LEN w of (sender_id', w') \<Rightarrow> redraw C recipient_id sender_id' w')
      else Some (sender_id, w))"

definition new_queue_pair :: "('w, 'z) crypto_scheme \<Rightarrow> 'w \<Rightarrow> ((bytes \<times> bytes) \<times> 'w) option" where
  "new_queue_pair C w =
     (case fill_bytes C QUEUE_ID_LEN w of (recipient_id, w1) \<Rightarrow>
      case fill_bytes C QUEUE_ID_LEN w1 of (sender_id, w2) \<Rightarrow>
      map_option (\<lambda>(sender_id, w3). ((recipient_id, sender_id), w3)) (redraw C recipient_id sender_id w2))"

subsection \<open>The address codec\<close>

definition encode_aqid :: "text_codec \<Rightarrow> string \<Rightarrow> bytes \<Rightarrow> (anon_queue_error, string) result" where
  "encode_aqid B relay sender_id =
     (if relay = [] then Err (BadRelay ''must be a non-empty string'')
      else if CHR ''/'' \<in> set relay then Err (BadRelay (''must not contain '' @ [CHR 0x27, CHR ''/'', CHR 0x27]))
      else if length sender_id \<noteq> QUEUE_ID_LEN then Err (BadIdLen ''sender_id'' (length sender_id))
      else Ok (AQID_SCHEME @ relay @ ''/'' @ tc_encode B sender_id))"

definition decode_aqid :: "text_codec \<Rightarrow> string \<Rightarrow> (anon_queue_error, string \<times> bytes) result" where
  "decode_aqid B s =
     rbind (ok_or (BadAddress (''must start with '' @ [CHR 0x27] @ ''aqid:'' @ [CHR 0x27])) (strip_prefix AQID_SCHEME s)) (\<lambda>body.
     rbind (ok_or (BadAddress (''must be '' @ [CHR 0x27] @ ''aqid:<relay>/<id>'' @ [CHR 0x27])) (split_once (CHR ''/'') body))
       (\<lambda>(relay, b64).
     if relay = [] then Err (BadAddress ''relay must be non-empty'')
     else if b64 = [] then Err (BadAddress ''id must be non-empty'')
     else
       rbind (case tc_decode B b64 of Inl _ \<Rightarrow> Err BadBase64 | Inr raw \<Rightarrow> Ok raw) (\<lambda>raw.
       if length raw \<noteq> QUEUE_ID_LEN then Err (BadIdLen ''decoded id'' (length raw))
       else rbind (to_array QUEUE_ID_LEN raw) (\<lambda>sender_id. Ok (relay, sender_id)))))"

subsection \<open>The authenticator\<close>

text \<open>\<open>mac.update\<close> twice: the bytes of the nonce, then those of the message, one after the other.\<close>

definition auth_tag :: "('w, 'z) crypto_scheme \<Rightarrow> bytes \<Rightarrow> bytes \<Rightarrow> bytes \<Rightarrow> bytes" where
  "auth_tag C secret message nonce = hmac_sha256 C secret (nonce @ message)"

definition verify_tag :: "('w, 'z) crypto_scheme \<Rightarrow> bytes \<Rightarrow> bytes \<Rightarrow> bytes \<Rightarrow> bytes \<Rightarrow> bool" where
  "verify_tag C secret message nonce tag =
     (let expected = auth_tag C secret message nonce in expected = tag)"

subsection \<open>The redraw loop\<close>

text \<open>The \<open>k\<close>-th next draw of an id from a state of the world.\<close>

fun nth_draw :: "('w, 'z) crypto_scheme \<Rightarrow> nat \<Rightarrow> 'w \<Rightarrow> bytes" where
  "nth_draw C 0 w = fst (fill_bytes C QUEUE_ID_LEN w)"
| "nth_draw C (Suc k) w = nth_draw C k (snd (fill_bytes C QUEUE_ID_LEN w))"

lemma redraw_returns:
  assumes "crypto_ok C" "nth_draw C k w \<noteq> recipient_id" "length sender_id = 16"
  shows "\<exists>s w'. redraw C recipient_id sender_id w = Some (s, w') \<and> s \<noteq> recipient_id \<and> length s = 16"
  using assms(2,3)
proof (induction k arbitrary: sender_id w)
  case 0
  obtain s w' where f: "fill_bytes C QUEUE_ID_LEN w = (s, w')" by (metis surj_pair)
  have "length s = 16" using fill_bytes_length [OF assms(1) f] by (simp add: QUEUE_ID_LEN_def)
  moreover have "s \<noteq> recipient_id" using 0(1) f by simp
  ultimately show ?case using 0(2) f by (simp add: redraw.simps [of C recipient_id])
next
  case (Suc k)
  obtain s w' where f: "fill_bytes C QUEUE_ID_LEN w = (s, w')" by (metis surj_pair)
  have l: "length s = 16" using fill_bytes_length [OF assms(1) f] by (simp add: QUEUE_ID_LEN_def)
  show ?case
  proof (cases "sender_id = recipient_id")
    case True
    then have "redraw C recipient_id sender_id w = redraw C recipient_id s w'"
      using f by (subst redraw.simps) simp
    moreover have "nth_draw C k w' \<noteq> recipient_id" using Suc.prems(1) f by simp
    ultimately show ?thesis using Suc.IH [OF _ l] by simp
  next
    case False
    then show ?thesis using Suc.prems(2) by (simp add: redraw.simps [of C recipient_id])
  qed
qed

lemma redraw_Some:
  assumes "redraw C r s0 w = Some x"
  shows "fst x \<noteq> r \<and> (s0 = r \<longrightarrow> (\<exists>k. nth_draw C k w \<noteq> r))"
proof (rule redraw.raw_induct [OF _ assms, of "\<lambda>C r s0 w x. fst x \<noteq> r \<and> (s0 = r \<longrightarrow> (\<exists>k. nth_draw C k w \<noteq> r))"])
  fix self :: "('w, 'z) crypto_scheme \<Rightarrow> bytes \<Rightarrow> bytes \<Rightarrow> 'w \<Rightarrow> (bytes \<times> 'w) option"
    and C :: "('w, 'z) crypto_scheme" and r s0 w x
  assume ih: "\<And>C r s0 w x. self C r s0 w = Some x \<Longrightarrow> fst x \<noteq> r \<and> (s0 = r \<longrightarrow> (\<exists>k. nth_draw C k w \<noteq> r))"
    and eq: "(if s0 = r then case fill_bytes C QUEUE_ID_LEN w of (s', w') \<Rightarrow> self C r s' w' else Some (s0, w)) = Some x"
  show "fst x \<noteq> r \<and> (s0 = r \<longrightarrow> (\<exists>k. nth_draw C k w \<noteq> r))"
  proof (cases "s0 = r")
    case True
    obtain s1 w1 where f: "fill_bytes C QUEUE_ID_LEN w = (s1, w1)" by (metis surj_pair)
    with eq True have "self C r s1 w1 = Some x" by simp
    from ih [OF this] have x: "fst x \<noteq> r" "s1 = r \<longrightarrow> (\<exists>k. nth_draw C k w1 \<noteq> r)" by auto
    have "\<exists>k. nth_draw C k w \<noteq> r"
    proof (cases "s1 = r")
      case True
      then obtain k where "nth_draw C k w1 \<noteq> r" using x by blast
      then have "nth_draw C (Suc k) w \<noteq> r" using f by simp
      then show ?thesis by blast
    next
      case False
      then have "nth_draw C 0 w \<noteq> r" using f by simp
      then show ?thesis by blast
    qed
    with x show ?thesis by simp
  qed (use eq in auto)
qed

subsection \<open>Properties\<close>

text \<open>
  C32: The pair of queue ids. \<open>new_queue_pair\<close> returns exactly when some later draw differs from the
  recipient id, however many collisions come first; then it returns two distinct ids of 16 bytes.
\<close>

theorem queue_pair_distinct:
  assumes "crypto_ok C" "fill_bytes C QUEUE_ID_LEN w = (recipient_id, w1)"
  shows "(new_queue_pair C w \<noteq> None \<longleftrightarrow> (\<exists>k. nth_draw C k w1 \<noteq> recipient_id)) \<and>
    (\<forall>r s w'. new_queue_pair C w = Some ((r, s), w') \<longrightarrow>
       r = recipient_id \<and> s \<noteq> r \<and> length r = QUEUE_ID_LEN \<and> length s = QUEUE_ID_LEN)"
proof -
  obtain s0 w2 where f: "fill_bytes C QUEUE_ID_LEN w1 = (s0, w2)" by (metis surj_pair)
  have l: "length recipient_id = 16" "length s0 = 16"
    using fill_bytes_length [OF assms(1)] assms(2) f by (simp_all add: QUEUE_ID_LEN_def)
  have eq: "new_queue_pair C w = map_option (\<lambda>(s, w'). ((recipient_id, s), w')) (redraw C recipient_id s0 w2)"
    using assms(2) f by (simp add: new_queue_pair_def)
  have draws: "(\<exists>k. nth_draw C k w1 \<noteq> recipient_id) \<longleftrightarrow>
      s0 \<noteq> recipient_id \<or> (\<exists>k. nth_draw C k w2 \<noteq> recipient_id)"
  proof
    assume "\<exists>k. nth_draw C k w1 \<noteq> recipient_id"
    then obtain k where k: "nth_draw C k w1 \<noteq> recipient_id" by blast
    then show "s0 \<noteq> recipient_id \<or> (\<exists>k. nth_draw C k w2 \<noteq> recipient_id)" using f by (cases k) auto
  next
    assume "s0 \<noteq> recipient_id \<or> (\<exists>k. nth_draw C k w2 \<noteq> recipient_id)"
    then have "nth_draw C 0 w1 \<noteq> recipient_id \<or> (\<exists>k. nth_draw C (Suc k) w1 \<noteq> recipient_id)" using f by simp
    then show "\<exists>k. nth_draw C k w1 \<noteq> recipient_id" by blast
  qed
  have returns: "\<exists>s w'. redraw C recipient_id s0 w2 = Some (s, w') \<and> s \<noteq> recipient_id \<and> length s = 16"
    if draw: "s0 \<noteq> recipient_id \<or> (\<exists>k. nth_draw C k w2 \<noteq> recipient_id)"
  proof (cases "s0 = recipient_id")
    case True
    then obtain k where "nth_draw C k w2 \<noteq> recipient_id" using draw by blast
    then show ?thesis by (rule redraw_returns [OF assms(1) _ l(2)])
  next
    case False
    then show ?thesis using l by (simp add: redraw.simps [of C recipient_id])
  qed
  have some: "s0 \<noteq> recipient_id \<or> (\<exists>k. nth_draw C k w2 \<noteq> recipient_id)" if "redraw C recipient_id s0 w2 = Some x" for x
    using redraw_Some [OF that] by blast
  have "new_queue_pair C w \<noteq> None \<longleftrightarrow> (\<exists>k. nth_draw C k w1 \<noteq> recipient_id)"
    unfolding draws eq using returns some by (cases "redraw C recipient_id s0 w2") auto
  moreover have "r = recipient_id \<and> s \<noteq> r \<and> length r = QUEUE_ID_LEN \<and> length s = QUEUE_ID_LEN"
    if "new_queue_pair C w = Some ((r, s), w')" for r s w'
  proof -
    from that have rd: "redraw C recipient_id s0 w2 = Some (s, w')" "r = recipient_id" by (auto simp: eq)
    from returns [OF some [OF rd(1)]] rd show ?thesis by (auto simp: QUEUE_ID_LEN_def l)
  qed
  ultimately show ?thesis by blast
qed

theorem queue_pair_distinct_witness:
  "\<exists>r s w'. new_queue_pair toy 0 = Some ((r, s), w') \<and> s \<noteq> r"
proof -
  have f: "fill_bytes toy QUEUE_ID_LEN 0 = (replicate 16 0, 1)"
    by (simp add: QUEUE_ID_LEN_def toy_def toy_ext_def)
  have "nth_draw toy 0 1 \<noteq> replicate 16 0" by (simp add: QUEUE_ID_LEN_def toy_def toy_ext_def)
  then have "new_queue_pair toy 0 \<noteq> None" using queue_pair_distinct [OF toy_ok f] by blast
  then obtain r s w' where "new_queue_pair toy 0 = Some ((r, s), w')" by auto
  then show ?thesis using queue_pair_distinct [OF toy_ok f] by blast
qed

text \<open>The address codec, as a canonical codec of relay and id.\<close>

definition aqid_valid :: "string \<times> bytes \<Rightarrow> bool" where
  "aqid_valid x \<longleftrightarrow> fst x \<noteq> [] \<and> CHR ''/'' \<notin> set (fst x) \<and> length (snd x) = QUEUE_ID_LEN"

lemma encode_aqid_Ok_iff:
  "encode_aqid B relay sid = Ok s \<longleftrightarrow> aqid_valid (relay, sid) \<and> s = AQID_SCHEME @ relay @ ''/'' @ tc_encode B sid"
  by (auto simp: encode_aqid_def aqid_valid_def)

lemma decode_encode_aqid:
  assumes "text_codec_ok B" "encode_aqid B relay sid = Ok s"
  shows "decode_aqid B s = Ok (relay, sid)"
proof -
  have v: "relay \<noteq> []" "CHR ''/'' \<notin> set relay" "length sid = 16" and s: "s = AQID_SCHEME @ relay @ ''/'' @ tc_encode B sid"
    using assms(2) by (auto simp: encode_aqid_Ok_iff aqid_valid_def QUEUE_ID_LEN_def)
  have "tc_encode B sid \<noteq> []" by (rule tc_encode_nonempty [OF assms(1)]) (use v in auto)
  then show ?thesis
    using v by (simp add: decode_aqid_def s split_once_append tc_decode_encode [OF assms(1)] QUEUE_ID_LEN_def result_simps)
qed

lemma decode_aqid_OkD:
  assumes "text_codec_ok B" "decode_aqid B s = Ok (relay, sid)"
  shows "encode_aqid B relay sid = Ok s"
proof -
  from assms(2) obtain b64 where s: "s = AQID_SCHEME @ relay @ CHR ''/'' # b64" "CHR ''/'' \<notin> set relay"
    and v: "relay \<noteq> []" "length sid = QUEUE_ID_LEN" and d: "tc_decode B b64 = Inr sid"
    by (auto simp: decode_aqid_def result_iffs strip_prefix_eq_Some_iff split_once_eq_Some_iff to_array_def
        split: if_splits sum.splits prod.splits)
  then show ?thesis
    using tc_encode_decode [OF assms(1) d] by (simp add: encode_aqid_Ok_iff aqid_valid_def)
qed

lemma aqid_codec:
  "text_codec_ok B \<Longrightarrow> canonical_codec (\<lambda>(relay, sid). AQID_SCHEME @ relay @ ''/'' @ tc_encode B sid)
     (\<lambda>s. case decode_aqid B s of Ok x \<Rightarrow> Some x | _ \<Rightarrow> None) aqid_valid"
  by unfold_locales
    (auto simp: encode_aqid_Ok_iff dest: decode_encode_aqid decode_aqid_OkD split: result.splits)

text \<open>
  C33: The address codec. An address is encoded exactly for a non-empty relay without a slash and a
  16-byte id; decoding it gives both back; whatever decodes is the address of what it gives; and no
  text makes the decoder panic.
\<close>

theorem aqid_roundtrip:
  assumes "text_codec_ok B"
  shows "(is_ok (encode_aqid B relay sid) \<longleftrightarrow> relay \<noteq> [] \<and> CHR ''/'' \<notin> set relay \<and> length sid = QUEUE_ID_LEN) \<and>
    (encode_aqid B relay sid = Ok s \<longleftrightarrow> decode_aqid B s = Ok (relay, sid)) \<and> decode_aqid B s \<noteq> Panic"
proof (intro conjI)
  show "is_ok (encode_aqid B relay sid) \<longleftrightarrow> relay \<noteq> [] \<and> CHR ''/'' \<notin> set relay \<and> length sid = QUEUE_ID_LEN"
    by (simp add: encode_aqid_def)
  show "encode_aqid B relay sid = Ok s \<longleftrightarrow> decode_aqid B s = Ok (relay, sid)"
    using decode_encode_aqid [OF assms] decode_aqid_OkD [OF assms] by blast
  show "decode_aqid B s \<noteq> Panic"
    by (auto simp: decode_aqid_def result_iffs to_array_def split: if_splits sum.splits prod.splits)
qed

theorem aqid_roundtrip_witness:
  "decode_aqid toy_codec ''aqid:relay.onion/ABCDEFGHIJKLMNOP'' = Ok (''relay.onion'', lit ''ABCDEFGHIJKLMNOP'')"
proof -
  have "encode_aqid toy_codec ''relay.onion'' (lit ''ABCDEFGHIJKLMNOP'') = Ok ''aqid:relay.onion/ABCDEFGHIJKLMNOP''"
    by (simp add: encode_aqid_def QUEUE_ID_LEN_def AQID_SCHEME_def toy_codec_def char_of_eq_iff)
  then show ?thesis using aqid_roundtrip [OF toy_codec_ok] by blast
qed

text \<open>A primitive whose MAC tells one key and message from all others.\<close>

definition mac_marking :: "bytes \<Rightarrow> bytes \<Rightarrow> nat crypto" where
  "mac_marking secret text = toy\<lparr>hmac_sha256 := (\<lambda>k m. replicate 32 (if k = secret \<and> m = text then 1 else 0))\<rparr>"

lemma mac_marking_ok: "crypto_ok (mac_marking secret text)"
proof -
  have "rng_ok (mac_marking secret text) = rng_ok toy" "x25519_ok (mac_marking secret text) = x25519_ok toy"
    "aead_ok (mac_marking secret text) = aead_ok toy" "hkdf_ok (mac_marking secret text) = hkdf_ok toy"
    by (simp_all add: mac_marking_def rng_ok_def x25519_ok_def aead_ok_def hkdf_ok_def)
  moreover have "mlkem_ok (mac_marking secret text) = mlkem_ok toy"
    by (simp add: mac_marking_def mlkem_ok_def mlkem_lengths_def mlkem_sound_def mlkem_total_def mlkem_generated_def)
  moreover have "hmac_ok (mac_marking secret text)" by (simp add: mac_marking_def hmac_ok_def)
  ultimately show ?thesis using toy_ok by (simp add: crypto_ok_def)
qed

text \<open>
  C34: The authenticator. The tag is the 32-byte HMAC-SHA256, under the shared secret, of the nonce
  followed by the message, and a tag verifies exactly when it is that value; so a tag of another
  length never does. What a tag authenticates is the secret and the concatenation, and nothing else:
  two calls give the same tag under every MAC of the contract exactly when the secrets are equal and
  nonce followed by message is the same text, wherever the nonce ends. A tag made for one pair of
  message and nonce verifies for another exactly when the concatenations are equal or are two
  different texts on which the HMAC collides.
\<close>

theorem auth_tag_boundary:
  assumes "crypto_ok C"
  shows "auth_tag C secret message nonce = hmac_sha256 C secret (nonce @ message) \<and>
    length (auth_tag C secret message nonce) = AUTH_TAG_LEN \<and>
    (verify_tag C secret message nonce tag \<longleftrightarrow> tag = hmac_sha256 C secret (nonce @ message)) \<and>
    (length tag \<noteq> AUTH_TAG_LEN \<longrightarrow> \<not> verify_tag C secret message nonce tag) \<and>
    verify_tag C secret (moved @ message) nonce = verify_tag C secret message (nonce @ moved) \<and>
    ((\<forall>D :: nat crypto. crypto_ok D \<longrightarrow> auth_tag D secret message nonce = auth_tag D secret' message' nonce') \<longleftrightarrow>
      secret = secret' \<and> nonce @ message = nonce' @ message') \<and>
    (verify_tag C secret message' nonce' (auth_tag C secret message nonce) \<longleftrightarrow>
      nonce' @ message' = nonce @ message \<or>
      nonce' @ message' \<noteq> nonce @ message \<and>
        hmac_sha256 C secret (nonce' @ message') = hmac_sha256 C secret (nonce @ message))"
proof -
  have tag: "auth_tag D k m n = hmac_sha256 D k (n @ m)" for D :: "('u, 'v) crypto_scheme" and k m n
    by (simp add: auth_tag_def)
  have "secret = secret' \<and> nonce @ message = nonce' @ message'"
    if "\<forall>D :: nat crypto. crypto_ok D \<longrightarrow> auth_tag D secret message nonce = auth_tag D secret' message' nonce'"
    using that [rule_format, OF mac_marking_ok [of secret "nonce @ message"]]
    by (auto simp: tag mac_marking_def split: if_splits)
  then have same: "(\<forall>D :: nat crypto. crypto_ok D \<longrightarrow> auth_tag D secret message nonce = auth_tag D secret' message' nonce') \<longleftrightarrow>
      secret = secret' \<and> nonce @ message = nonce' @ message'"
    by (auto simp: tag)
  have verify: "verify_tag C secret m n t \<longleftrightarrow> t = hmac_sha256 C secret (n @ m)" for m n t
    by (auto simp: verify_tag_def auth_tag_def)
  show ?thesis
    unfolding same using hmac_length [OF assms] by (auto simp: verify tag AUTH_TAG_LEN_def)
qed

theorem auth_tag_boundary_witness:
  "verify_tag toy (lit ''key'') (lit ''1 coin'') (lit ''n0'') (auth_tag toy (lit ''key'') (lit ''01 coin'') (lit ''n'')) \<and>
   (\<exists>D :: nat crypto. crypto_ok D \<and>
     auth_tag D (lit ''key'') (lit ''1 coin'') (lit ''n0'') \<noteq> auth_tag D (lit ''key'') (lit ''1 coin'') (lit ''n1''))"
proof
  show "verify_tag toy (lit ''key'') (lit ''1 coin'') (lit ''n0'') (auth_tag toy (lit ''key'') (lit ''01 coin'') (lit ''n''))"
    using auth_tag_boundary [OF toy_ok, where secret = "lit ''key''" and message = "lit ''01 coin''" and nonce = "lit ''n''"
      and message' = "lit ''1 coin''" and nonce' = "lit ''n0''"] by (simp add: auth_tag_def)
  show "\<exists>D :: nat crypto. crypto_ok D \<and>
     auth_tag D (lit ''key'') (lit ''1 coin'') (lit ''n0'') \<noteq> auth_tag D (lit ''key'') (lit ''1 coin'') (lit ''n1'')"
    using auth_tag_boundary [OF toy_ok, where secret = "lit ''key''" and message = "lit ''1 coin''" and nonce = "lit ''n0''"
      and secret' = "lit ''key''" and message' = "lit ''1 coin''" and nonce' = "lit ''n1''"] by simp
qed

end
