(* ===== verification/Suites.thy ===== *)
theory Suites
  imports Json "HOL-Library.AList" "HOL-Library.Product_Lexorder"
begin

text \<open>
  The crypto-suite registry (\<open>src/suites.rs\<close>): kinds and statuses with their wire strings, the suite
  records, the registry and its queries, and the seeded global registry. The \<open>HashMap\<close> is an
  association list with distinct keys, in an arbitrary order.
\<close>

subsection \<open>Kinds and statuses\<close>

datatype suite_kind = Kem | Sig | Aead
datatype suite_status = Classical | HybridPq | Pq | Symmetric

fun suite_kind_as_str :: "suite_kind \<Rightarrow> string" where
  "suite_kind_as_str Kem = ''kem''"
| "suite_kind_as_str Sig = ''sig''"
| "suite_kind_as_str Aead = ''aead''"

fun status_as_str :: "suite_status \<Rightarrow> string" where
  "status_as_str Classical = ''classical''"
| "status_as_str HybridPq = ''hybrid-pq''"
| "status_as_str Pq = ''pq''"
| "status_as_str Symmetric = ''symmetric''"

definition status_from_wire :: "string \<Rightarrow> suite_status" where
  "status_from_wire s =
     (if s = ''hybrid-pq'' then HybridPq else if s = ''pq'' then Pq
      else if s = ''symmetric'' then Symmetric else Classical)"

fun status_is_quantum_resistant :: "suite_status \<Rightarrow> bool" where
  "status_is_quantum_resistant HybridPq = True"
| "status_is_quantum_resistant Pq = True"
| "status_is_quantum_resistant Symmetric = True"
| "status_is_quantum_resistant Classical = False"

subsection \<open>Suites\<close>

record crypto_suite =
  cs_suite_id :: string
  cs_kind :: suite_kind
  cs_status :: suite_status
  cs_primitives :: "string list"
  cs_fips_refs :: "string list"
  cs_description :: string
  cs_active :: bool
  cs_replaces :: "string option"

definition crypto_suite_new ::
  "string \<Rightarrow> suite_kind \<Rightarrow> suite_status \<Rightarrow> string list \<Rightarrow> string list \<Rightarrow> string \<Rightarrow> bool \<Rightarrow> crypto_suite" where
  "crypto_suite_new suite_id kind status primitives fips_refs description active =
     \<lparr>cs_suite_id = suite_id, cs_kind = kind, cs_status = status, cs_primitives = primitives,
      cs_fips_refs = fips_refs, cs_description = description, cs_active = active, cs_replaces = None\<rparr>"

definition replacing :: "crypto_suite \<Rightarrow> string \<Rightarrow> crypto_suite" where
  "replacing s suite_id = s\<lparr>cs_replaces := Some suite_id\<rparr>"

definition suite_is_quantum_resistant :: "crypto_suite \<Rightarrow> bool" where
  "suite_is_quantum_resistant s = status_is_quantum_resistant (cs_status s)"

definition to_dict :: "crypto_suite \<Rightarrow> 'f json" where
  "to_dict s = json_object
     [(''suite_id'', JString (cs_suite_id s)),
      (''kind'', JString (suite_kind_as_str (cs_kind s))),
      (''status'', JString (status_as_str (cs_status s))),
      (''primitives'', JArray (map JString (cs_primitives s))),
      (''fips_refs'', JArray (map JString (cs_fips_refs s))),
      (''description'', JString (cs_description s)),
      (''active'', JBool (cs_active s)),
      (''quantum_resistant'', JBool (suite_is_quantum_resistant s)),
      (''replaces'', (case cs_replaces s of None \<Rightarrow> JNull | Some r \<Rightarrow> JString r))]"

text \<open>
  \<open>Serialize\<close>, for any serializer: \<open>serialize_str\<close> is its method for strings, \<open>serialize_value\<close> what
  \<open>serde_json\<close> does with a value.
\<close>

definition suite_kind_serialize :: "(string \<Rightarrow> 'r) \<Rightarrow> suite_kind \<Rightarrow> 'r" where
  "suite_kind_serialize serialize_str k = serialize_str (suite_kind_as_str k)"

definition suite_status_serialize :: "(string \<Rightarrow> 'r) \<Rightarrow> suite_status \<Rightarrow> 'r" where
  "suite_status_serialize serialize_str s = serialize_str (status_as_str s)"

definition crypto_suite_serialize :: "('f json \<Rightarrow> 'r) \<Rightarrow> crypto_suite \<Rightarrow> 'r" where
  "crypto_suite_serialize serialize_value s = serialize_value (to_dict s)"

definition DEFAULT_AT_REST_SUITE :: string where "DEFAULT_AT_REST_SUITE = ''aes256-gcm-v1''"
definition DEFAULT_KEM_SUITE :: string where "DEFAULT_KEM_SUITE = ''x25519-pgp-wrap-v1''"

subsection \<open>The registry\<close>

type_synonym registry = "(string \<times> crypto_suite) list"

definition registry_empty :: registry where
  "registry_empty = []"

definition register :: "crypto_suite \<Rightarrow> registry \<Rightarrow> crypto_suite \<times> registry" where
  "register suite r = (suite, AList.update (cs_suite_id suite) suite r)"

definition registry_get_suite :: "registry \<Rightarrow> string \<Rightarrow> crypto_suite option" where
  "registry_get_suite r suite_id = map_of r suite_id"

definition suite_order :: "crypto_suite \<Rightarrow> bool \<times> string \<times> string" where
  "suite_order s = (\<not> cs_active s, status_as_str (cs_status s), cs_suite_id s)"

definition registry_all_suites :: "registry \<Rightarrow> crypto_suite list" where
  "registry_all_suites r = sort_key suite_order (map snd r)"

definition registry_active_suites :: "registry \<Rightarrow> crypto_suite list" where
  "registry_active_suites r = filter cs_active (registry_all_suites r)"

definition registry_suite_status :: "registry \<Rightarrow> string \<Rightarrow> suite_status" where
  "registry_suite_status r suite_id =
     (case registry_get_suite r suite_id of Some s \<Rightarrow> cs_status s | None \<Rightarrow> Classical)"

definition registry_is_quantum_resistant :: "registry \<Rightarrow> string \<Rightarrow> bool" where
  "registry_is_quantum_resistant r suite_id =
     (case registry_get_suite r suite_id of Some s \<Rightarrow> suite_is_quantum_resistant s | None \<Rightarrow> False)"

definition pgp_wrap_suite :: crypto_suite where
  "pgp_wrap_suite = crypto_suite_new ''x25519-pgp-wrap-v1'' Kem Classical
     [''X25519 (Curve25519) PGP key-wrap'', ''AES-256 session key''] [''RFC 7748'', ''RFC 9580'']
     ''Classical X25519 PGP key-wrap of an AES-256 session key (skcomms envelope payload / DM wrap today).''
     True"

definition aes_gcm_suite :: crypto_suite where
  "aes_gcm_suite = crypto_suite_new ''aes256-gcm-v1'' Aead Symmetric
     [''AES-256-GCM'', ''HKDF-SHA256''] [''FIPS 197'', ''SP 800-38D'', ''SP 800-108'']
     (''AES-256-GCM bulk cipher '' @ em_dash @ '' Grover-only (~128-bit), quantum-acceptable. Do not migrate.'')
     True"

definition hybrid_suite :: crypto_suite where
  "hybrid_suite = replacing (crypto_suite_new ''x25519-mlkem768'' Kem HybridPq
     [''X25519 (ephemeral-static DHKEM)'', ''ML-KEM-768 (FIPS 203, liboqs)'', ''HKDF-SHA256 concat-KDF combiner'']
     [''FIPS 203'', ''RFC 7748'', ''RFC 5869'']
     ''LIVE hybrid X25519 || ML-KEM-768 key-encapsulation primitive (sk_pqc::kem). Secret unless BOTH primitives break. Cross-impl interoperable with sk_pqc (Dart) and skcomms.pqkem.''
     True) ''x25519-pgp-wrap-v1''"

definition seeded :: registry where
  "seeded =
     (let r = registry_empty;
          (_, r) = register pgp_wrap_suite r;
          (_, r) = register aes_gcm_suite r;
          (_, r) = register hybrid_suite r
      in r)"

text \<open>
  \<open>Registry::global\<close>: the cell is seeded by the first call and never changed, so every call gives the
  seeded registry (\<open>registry_global_seeded\<close>). The free functions read it.
\<close>

definition registry_global :: "registry option \<Rightarrow> registry \<times> registry option" where
  "registry_global cell = (case cell of Some r \<Rightarrow> (r, cell) | None \<Rightarrow> (seeded, Some seeded))"

fun global_calls :: "nat \<Rightarrow> registry option \<Rightarrow> registry list \<times> registry option" where
  "global_calls 0 cell = ([], cell)"
| "global_calls (Suc n) cell =
     (case registry_global cell of (r, cell) \<Rightarrow> case global_calls n cell of (rs, cell) \<Rightarrow> (r # rs, cell))"

lemma registry_global_seeded: "fst (global_calls n None) = replicate n seeded"
proof -
  have "global_calls n (Some seeded) = (replicate n seeded, Some seeded)" for n
    by (induction n) (simp_all add: registry_global_def)
  then show ?thesis by (cases n) (simp_all add: registry_global_def)
qed

definition get_suite :: "string \<Rightarrow> crypto_suite option" where
  "get_suite = registry_get_suite seeded"

definition all_suites :: "crypto_suite list" where
  "all_suites = registry_all_suites seeded"

definition active_suites :: "crypto_suite list" where
  "active_suites = registry_active_suites seeded"

definition suite_status_of :: "string \<Rightarrow> suite_status" where
  "suite_status_of = registry_suite_status seeded"

definition is_quantum_resistant :: "string \<Rightarrow> bool" where
  "is_quantum_resistant = registry_is_quantum_resistant seeded"

subsection \<open>Registries\<close>

text \<open>A registry holds every suite under its own id, once.\<close>

definition registry_wf :: "registry \<Rightarrow> bool" where
  "registry_wf r \<longleftrightarrow> distinct (map fst r) \<and> list_all (\<lambda>(k, s). cs_suite_id s = k) r"

lemma registry_wf_empty [simp]: "registry_wf registry_empty"
  by (simp add: registry_wf_def registry_empty_def)

lemma set_update_subset: "set (AList.update k v xs) \<subseteq> insert (k, v) (set xs)"
  by (induction xs) auto

lemma registry_wf_register: "registry_wf r \<Longrightarrow> registry_wf (snd (register s r))"
  using set_update_subset [of "cs_suite_id s" s r]
  by (auto simp: registry_wf_def register_def distinct_update list_all_iff)

lemma get_suite_register:
  "registry_get_suite (snd (register s r)) suite_id =
     (if suite_id = cs_suite_id s then Some s else registry_get_suite r suite_id)"
  by (simp add: registry_get_suite_def register_def update_conv')

lemma registry_get_suite_id: "registry_wf r \<Longrightarrow> registry_get_suite r i = Some s \<Longrightarrow> cs_suite_id s = i"
  by (auto simp: registry_wf_def registry_get_suite_def list_all_iff dest!: map_of_SomeD)

lemma inj_on_suite_order:
  assumes "registry_wf r"
  shows "inj_on suite_order (set (map snd r))"
proof (rule inj_onI)
  fix s t assume s: "s \<in> set (map snd r)" and t: "t \<in> set (map snd r)" and eq: "suite_order s = suite_order t"
  obtain i j where ij: "(i, s) \<in> set r" "(j, t) \<in> set r" using s t by auto
  then have "cs_suite_id s = i" "cs_suite_id t = j" using assms by (auto simp: registry_wf_def list_all_iff)
  with eq have "i = j" by (simp add: suite_order_def)
  with ij assms show "s = t" by (auto simp: registry_wf_def intro: eq_key_imp_eq_value)
qed

text \<open>The listing depends on what the registry maps, not on the order of its entries.\<close>

lemma all_suites_order_independent:
  assumes "registry_wf r" "registry_wf r'" "registry_get_suite r = registry_get_suite r'"
  shows "registry_all_suites r = registry_all_suites r'"
proof -
  have d: "distinct (map fst r)" "distinct (map fst r')" using assms by (simp_all add: registry_wf_def)
  have "map_of r = map_of r'" using assms(3) by (simp add: registry_get_suite_def fun_eq_iff)
  then have "set r = set r'" using d by (simp add: map_of_inject_set)
  moreover have "distinct r" "distinct r'" using d by (auto simp: distinct_map)
  ultimately have "mset r = mset r'" by (simp add: set_eq_iff_mset_eq_distinct)
  then have "mset (map snd r) = mset (map snd r')" by simp
  then show ?thesis
    unfolding registry_all_suites_def
    by (intro sort_key_inj_key_eq) (simp_all add: inj_on_suite_order [OF assms(1), simplified])
qed

lemma seeded_eq:
  "seeded = [(''x25519-pgp-wrap-v1'', pgp_wrap_suite), (''aes256-gcm-v1'', aes_gcm_suite), (''x25519-mlkem768'', hybrid_suite)]"
  by (simp add: seeded_def registry_empty_def register_def pgp_wrap_suite_def aes_gcm_suite_def hybrid_suite_def
      crypto_suite_new_def replacing_def)

lemma seeded_suites [simp]:
  "cs_suite_id pgp_wrap_suite = ''x25519-pgp-wrap-v1''" "cs_status pgp_wrap_suite = Classical" "cs_active pgp_wrap_suite"
  "cs_suite_id aes_gcm_suite = ''aes256-gcm-v1''" "cs_status aes_gcm_suite = Symmetric" "cs_active aes_gcm_suite"
  "cs_suite_id hybrid_suite = ''x25519-mlkem768''" "cs_status hybrid_suite = HybridPq" "cs_active hybrid_suite"
  by (simp_all add: pgp_wrap_suite_def aes_gcm_suite_def hybrid_suite_def crypto_suite_new_def replacing_def)

lemma get_suite_eq:
  "get_suite i =
     (if i = ''x25519-pgp-wrap-v1'' then Some pgp_wrap_suite
      else if i = ''aes256-gcm-v1'' then Some aes_gcm_suite
      else if i = ''x25519-mlkem768'' then Some hybrid_suite else None)"
  by (simp add: get_suite_def registry_get_suite_def seeded_eq)

lemma status_from_wire_as_str [simp]: "status_from_wire (status_as_str t) = t"
  by (cases t) (simp_all add: status_from_wire_def)

lemma status_as_str_inject [simp]: "status_as_str t = status_as_str u \<longleftrightarrow> t = u"
  by (metis status_from_wire_as_str)

lemma suite_kind_as_str_inject [simp]: "suite_kind_as_str k = suite_kind_as_str l \<longleftrightarrow> k = l"
  by (cases k; cases l) simp_all

lemma status_is_quantum_resistant_iff: "status_is_quantum_resistant t \<longleftrightarrow> t \<noteq> Classical"
  by (cases t) simp_all

subsection \<open>Properties of the registry\<close>

lemma registry_wf_fold: "registry_wf r \<Longrightarrow> registry_wf (fold (\<lambda>s r. snd (register s r)) ss r)"
  by (induction ss arbitrary: r) (auto intro: registry_wf_register)

lemma registry_get_fold:
  "registry_get_suite (fold (\<lambda>s r. snd (register s r)) ss r) i =
     (case find (\<lambda>s. cs_suite_id s = i) (rev ss) of Some s \<Rightarrow> Some s | None \<Rightarrow> registry_get_suite r i)"
proof (induction ss rule: rev_induct)
  case (snoc s ss)
  then show ?case by (simp add: get_suite_register)
qed simp

lemma find_unknown: "i \<notin> cs_suite_id ` set ss \<Longrightarrow> find (\<lambda>s. cs_suite_id s = i) (rev ss) = None"
  by (auto simp: find_None_iff)

text \<open>The registry that registering the suites \<open>ss\<close> in order leaves.\<close>

definition registry_of :: "crypto_suite list \<Rightarrow> registry" where
  "registry_of ss = fold (\<lambda>s r. snd (register s r)) ss registry_empty"

lemma registry_of_get: "registry_get_suite (registry_of ss) i = find (\<lambda>s. cs_suite_id s = i) (rev ss)"
  unfolding registry_of_def registry_get_fold
  by (auto simp: registry_get_suite_def registry_empty_def split: option.split)

lemma seeded_registry_of: "seeded = registry_of [pgp_wrap_suite, aes_gcm_suite, hybrid_suite]"
  by (simp add: seeded_def registry_of_def split_beta)

text \<open>
  A registry built by any sequence of registrations answers with the last suite registered
  under an id. The quantum-resistance answer agrees with the status answer for every id, and an id
  that was never registered is \<open>Classical\<close>, so never quantum-resistant.
\<close>

lemma registry_history:
  "registry_wf (registry_of ss) \<and>
   registry_get_suite (registry_of ss) i = find (\<lambda>s. cs_suite_id s = i) (rev ss) \<and>
   registry_is_quantum_resistant (registry_of ss) i =
     status_is_quantum_resistant (registry_suite_status (registry_of ss) i) \<and>
   (i \<in> cs_suite_id ` set ss \<or>
    registry_suite_status (registry_of ss) i = Classical \<and> \<not> registry_is_quantum_resistant (registry_of ss) i)"
proof (intro conjI)
  show "registry_wf (registry_of ss)" by (simp add: registry_of_def registry_wf_fold)
  show "registry_is_quantum_resistant (registry_of ss) i =
      status_is_quantum_resistant (registry_suite_status (registry_of ss) i)"
    by (simp add: registry_is_quantum_resistant_def registry_suite_status_def suite_is_quantum_resistant_def
        split: option.split)
  show "i \<in> cs_suite_id ` set ss \<or>
      registry_suite_status (registry_of ss) i = Classical \<and> \<not> registry_is_quantum_resistant (registry_of ss) i"
    using find_unknown [of i ss]
    by (auto simp: registry_suite_status_def registry_is_quantum_resistant_def registry_of_get)
qed (rule registry_of_get)

lemma sort_filter_split:
  assumes "sorted (map f xs)" "\<And>x y. P x \<Longrightarrow> \<not> P y \<Longrightarrow> f x < f y"
  shows "xs = filter P xs @ filter (\<lambda>x. \<not> P x) xs"
  using assms(1)
proof (induction xs)
  case (Cons x xs)
  show ?case
  proof (cases "P x")
    case True
    with Cons show ?thesis by simp
  next
    case False
    then have "\<not> P y" if "y \<in> set xs" for y
      using Cons.prems assms(2) [of y x] that by auto
    then have "filter P xs = []" "filter (\<lambda>x. \<not> P x) xs = xs" by (auto simp: filter_empty_conv)
    with False show ?thesis by simp
  qed
qed simp

lemma mset_all_suites: "mset (registry_all_suites r) = mset (map snd r)"
  by (simp add: registry_all_suites_def)

lemma all_suites_ran: "registry_wf r \<Longrightarrow> set (registry_all_suites r) = ran (registry_get_suite r)"
  by (simp add: registry_all_suites_def registry_get_suite_def [abs_def] registry_wf_def ran_distinct)

lemma all_suites_strict:
  assumes "registry_wf r"
  shows "sorted_wrt (\<lambda>s t. suite_order s < suite_order t) (registry_all_suites r)"
proof -
  have d: "distinct (map fst r)" and ids: "cs_suite_id s = k" if "(k, s) \<in> set r" for k s
    using assms that by (auto simp: registry_wf_def list_all_iff)
  have "inj_on snd (set r)" by (rule inj_onI) (metis ids prod.collapse)
  moreover have "distinct r" using assms by (simp add: registry_wf_def distinct_map)
  ultimately have "distinct (map snd r)" by (simp add: distinct_map)
  then have "distinct (map suite_order (registry_all_suites r))"
    using inj_on_suite_order [OF assms] by (simp add: distinct_map registry_all_suites_def)
  moreover have "sorted (map suite_order (registry_all_suites r))" by (simp add: registry_all_suites_def)
  ultimately have "sorted_wrt (<) (map suite_order (registry_all_suites r))" by (simp add: strict_sorted_iff)
  then show ?thesis by (simp add: sorted_wrt_map)
qed

lemma all_suites_active_prefix:
  "registry_all_suites r = registry_active_suites r @ filter (\<lambda>s. \<not> cs_active s) (registry_all_suites r)"
  unfolding registry_active_suites_def
  by (rule sort_filter_split [where f = suite_order]) (simp_all add: registry_all_suites_def suite_order_def)

lemma all_suites_eq: "all_suites = [pgp_wrap_suite, hybrid_suite, aes_gcm_suite]"
  by (simp add: all_suites_def registry_all_suites_def seeded_eq sort_key_def suite_order_def)

text \<open>
  C35: The listing of a registry does not depend on the order of the hash map. It holds every
  registered suite once, in the order of (active first, status, id), so the active suites are a
  prefix of it. The global listing has the three seeded suites, all active.
\<close>

theorem all_suites_listing:
  assumes "registry_wf r" "registry_wf r'" "registry_get_suite r' = registry_get_suite r"
  shows "registry_all_suites r' = registry_all_suites r \<and>
    set (registry_all_suites r) = ran (registry_get_suite r) \<and>
    sorted_wrt (\<lambda>s t. suite_order s < suite_order t) (registry_all_suites r) \<and>
    registry_all_suites r = registry_active_suites r @ filter (\<lambda>s. \<not> cs_active s) (registry_all_suites r) \<and>
    all_suites = [pgp_wrap_suite, hybrid_suite, aes_gcm_suite] \<and> active_suites = all_suites"
proof -
  have "active_suites = filter cs_active all_suites"
    by (simp add: active_suites_def registry_active_suites_def all_suites_def)
  then have "active_suites = all_suites" by (simp add: all_suites_eq)
  then show ?thesis
    using all_suites_order_independent [OF assms(2,1,3)] all_suites_ran [OF assms(1)] all_suites_strict [OF assms(1)]
      all_suites_active_prefix [of r] all_suites_eq by simp
qed

theorem all_suites_listing_witness:
  "registry_all_suites (rev seeded) = registry_all_suites seeded"
proof -
  have "registry_wf seeded" "registry_wf (rev seeded)" by (simp_all add: registry_wf_def seeded_eq)
  moreover have "registry_get_suite (rev seeded) = registry_get_suite seeded"
    by (simp add: fun_eq_iff registry_get_suite_def seeded_eq)
  ultimately show ?thesis using all_suites_listing by blast
qed

lemma to_dict_eq:
  "to_dict s = JObject
     [(''active'', JBool (cs_active s)),
      (''description'', JString (cs_description s)),
      (''fips_refs'', JArray (map JString (cs_fips_refs s))),
      (''kind'', JString (suite_kind_as_str (cs_kind s))),
      (''primitives'', JArray (map JString (cs_primitives s))),
      (''quantum_resistant'', JBool (suite_is_quantum_resistant s)),
      (''replaces'', (case cs_replaces s of None \<Rightarrow> JNull | Some r \<Rightarrow> JString r)),
      (''status'', JString (status_as_str (cs_status s))),
      (''suite_id'', JString (cs_suite_id s))]"
  by (simp add: to_dict_def json_object_def)

lemma to_dict_inject: "to_dict s = (to_dict s' :: 'f json) \<longleftrightarrow> s = s'"
proof
  assume eq: "to_dict s = (to_dict s' :: 'f json)"
  have "inj (JString :: string \<Rightarrow> 'f json)" by (simp add: inj_def)
  with eq have "cs_primitives s = cs_primitives s'" "cs_fips_refs s = cs_fips_refs s'"
    by (simp_all add: to_dict_eq inj_map_eq_map)
  with eq show "s = s'" by (intro crypto_suite.equality) (auto simp: to_dict_eq split: option.splits)
qed simp

text \<open>The derived serialisation of the kind and the status is that of the members of the JSON view.\<close>

lemma serialized_members:
  "\<exists>m. crypto_suite_serialize id s = JObject m \<and>
     map_of m ''kind'' = Some (suite_kind_serialize JString (cs_kind s)) \<and>
     map_of m ''status'' = Some (suite_status_serialize JString (cs_status s))"
  by (simp add: crypto_suite_serialize_def suite_kind_serialize_def suite_status_serialize_def to_dict_eq)

text \<open>
  A reader of the documented JSON view, member by member and by name; a missing member, or one of the
  wrong shape, makes it fail. The strings of kinds and statuses are the documented ones.
\<close>

definition read_kind :: "string \<Rightarrow> suite_kind option" where
  "read_kind = map_of [(''kem'', Kem), (''sig'', Sig), (''aead'', Aead)]"

definition read_status :: "string \<Rightarrow> suite_status option" where
  "read_status = map_of [(''classical'', Classical), (''hybrid-pq'', HybridPq), (''pq'', Pq), (''symmetric'', Symmetric)]"

fun as_bool :: "'f json \<Rightarrow> bool option" where
  "as_bool (JBool b) = Some b"
| "as_bool _ = None"

fun as_strings :: "'f json \<Rightarrow> string list option" where
  "as_strings (JArray js) = those (map as_str js)"
| "as_strings _ = None"

fun as_nullable_str :: "'f json \<Rightarrow> string option option" where
  "as_nullable_str JNull = Some None"
| "as_nullable_str j = map_option Some (as_str j)"

definition member :: "string \<Rightarrow> ('f json \<Rightarrow> 'a option) \<Rightarrow> 'f json \<Rightarrow> 'a option" where
  "member key parse j = Option.bind (json_get key j) parse"

definition read_suite :: "'f json \<Rightarrow> crypto_suite option" where
  "read_suite j =
     Option.bind (member ''suite_id'' as_str j) (\<lambda>suite_id.
     Option.bind (Option.bind (member ''kind'' as_str j) read_kind) (\<lambda>kind.
     Option.bind (Option.bind (member ''status'' as_str j) read_status) (\<lambda>status.
     Option.bind (member ''primitives'' as_strings j) (\<lambda>primitives.
     Option.bind (member ''fips_refs'' as_strings j) (\<lambda>fips_refs.
     Option.bind (member ''description'' as_str j) (\<lambda>description.
     Option.bind (member ''active'' as_bool j) (\<lambda>active.
     Option.bind (member ''replaces'' as_nullable_str j) (\<lambda>replaces.
     Some \<lparr>cs_suite_id = suite_id, cs_kind = kind, cs_status = status, cs_primitives = primitives,
       cs_fips_refs = fips_refs, cs_description = description, cs_active = active, cs_replaces = replaces\<rparr>))))))))"

lemma read_kind_iff: "read_kind t = Some k \<longleftrightarrow> t = suite_kind_as_str k"
  by (cases k) (auto simp: read_kind_def)

lemma read_status_iff: "read_status t = Some st \<longleftrightarrow> t = status_as_str st"
  by (cases st) (auto simp: read_status_def)

lemma as_str_iff: "as_str j = Some t \<longleftrightarrow> j = JString t"
  by (cases j) auto

lemma as_bool_iff: "as_bool j = Some b \<longleftrightarrow> j = JBool b"
  by (cases j) auto

lemma those_as_str_iff: "those (map as_str js) = Some ts \<longleftrightarrow> js = map JString ts"
  by (induction js arbitrary: ts) (auto simp: as_str_iff split: option.splits)

lemma as_strings_iff: "as_strings j = Some ts \<longleftrightarrow> j = JArray (map JString ts)"
  by (cases j) (auto simp: those_as_str_iff)

lemma as_nullable_str_iff: "as_nullable_str j = Some r \<longleftrightarrow> j = (case r of None \<Rightarrow> JNull | Some t \<Rightarrow> JString t)"
  by (cases j) (auto split: option.splits)

lemmas reader_iffs = read_kind_iff read_status_iff as_str_iff as_bool_iff as_strings_iff as_nullable_str_iff

lemma read_suite_iff:
  "read_suite j = Some s \<longleftrightarrow>
     json_get ''suite_id'' j = Some (JString (cs_suite_id s)) \<and>
     json_get ''kind'' j = Some (JString (suite_kind_as_str (cs_kind s))) \<and>
     json_get ''status'' j = Some (JString (status_as_str (cs_status s))) \<and>
     json_get ''primitives'' j = Some (JArray (map JString (cs_primitives s))) \<and>
     json_get ''fips_refs'' j = Some (JArray (map JString (cs_fips_refs s))) \<and>
     json_get ''description'' j = Some (JString (cs_description s)) \<and>
     json_get ''active'' j = Some (JBool (cs_active s)) \<and>
     json_get ''replaces'' j = Some (case cs_replaces s of None \<Rightarrow> JNull | Some r \<Rightarrow> JString r)"
  by (cases s) (auto simp: read_suite_def member_def bind_eq_Some_conv reader_iffs)

lemma entries_by_key: "distinct (map fst m) \<Longrightarrow> m = map (\<lambda>k. (k, the (map_of m k))) (map fst m)"
  by (rule sym, subst map_map, rule map_idI) auto

text \<open>
  C36: The JSON view of a suite loses nothing and says nothing else. Reading its members by their names
  gives back every field of the suite: id, kind, status, primitives, FIPS references, description,
  activity and the suite it replaces. Its \<open>quantum_resistant\<close> member is what the status read from the
  wire says. And it is the only object with the nine documented members in key order of which both
  hold. A status string reads back as the status; any other string reads as \<open>Classical\<close>.
\<close>

theorem to_dict_faithful:
  "read_suite (to_dict s :: 'f json) = Some s \<and>
   (\<forall>j :: 'f json. j = to_dict s \<longleftrightarrow>
     (\<exists>m. j = JObject m \<and>
       map fst m = [''active'', ''description'', ''fips_refs'', ''kind'', ''primitives'', ''quantum_resistant'',
                    ''replaces'', ''status'', ''suite_id''] \<and>
       read_suite j = Some s \<and>
       (\<exists>t. map_of m ''status'' = Some (JString t) \<and>
          map_of m ''quantum_resistant'' = Some (JBool (status_from_wire t \<noteq> Classical))))) \<and>
   (to_dict s = (to_dict s' :: 'f json) \<longleftrightarrow> s = s') \<and>
   status_from_wire (status_as_str st) = st \<and>
   (status_from_wire w = Classical \<longleftrightarrow> w \<notin> status_as_str ` {HybridPq, Pq, Symmetric})"
proof -
  have read: "read_suite (to_dict s :: 'f json) = Some s" for s
    by (simp add: read_suite_iff to_dict_eq)
  have unique: "j = to_dict s" if "j = JObject m" and "map fst m = [''active'', ''description'', ''fips_refs'',
      ''kind'', ''primitives'', ''quantum_resistant'', ''replaces'', ''status'', ''suite_id'']"
    and "read_suite j = Some s" and "map_of m ''status'' = Some (JString t)"
    and "map_of m ''quantum_resistant'' = Some (JBool (status_from_wire t \<noteq> Classical))" for j :: "'f json" and m t
  proof -
    have get: "json_get k j = map_of m k" for k by (simp add: that(1))
    have "distinct (map fst m)" by (simp add: that(2))
    then have "m = map (\<lambda>k. (k, the (map_of m k))) (map fst m)" by (rule entries_by_key)
    then show ?thesis
      using that(3) [unfolded read_suite_iff get] that(4,5)
      using status_from_wire_as_str [of "cs_status s"]
      by (simp add: that(1,2) to_dict_eq suite_is_quantum_resistant_def status_is_quantum_resistant_iff
          del: status_from_wire_as_str)
  qed
  have forth: "\<exists>m. (to_dict s :: 'f json) = JObject m \<and>
      map fst m = [''active'', ''description'', ''fips_refs'', ''kind'', ''primitives'', ''quantum_resistant'',
                    ''replaces'', ''status'', ''suite_id''] \<and>
      (\<exists>t. map_of m ''status'' = Some (JString t) \<and>
          map_of m ''quantum_resistant'' = Some (JBool (status_from_wire t \<noteq> Classical)))"
    by (simp add: to_dict_eq suite_is_quantum_resistant_def status_is_quantum_resistant_iff)
  show ?thesis
  proof (intro conjI allI)
    show "status_from_wire w = Classical \<longleftrightarrow> w \<notin> status_as_str ` {HybridPq, Pq, Symmetric}"
      by (auto simp: status_from_wire_def)
  next
    fix j :: "'f json"
    show "j = to_dict s \<longleftrightarrow>
      (\<exists>m. j = JObject m \<and>
        map fst m = [''active'', ''description'', ''fips_refs'', ''kind'', ''primitives'', ''quantum_resistant'',
                     ''replaces'', ''status'', ''suite_id''] \<and>
        read_suite j = Some s \<and>
        (\<exists>t. map_of m ''status'' = Some (JString t) \<and>
           map_of m ''quantum_resistant'' = Some (JBool (status_from_wire t \<noteq> Classical))))"
      (is "_ = ?members")
    proof
      assume j: "j = to_dict s"
      show ?members unfolding j read using forth by (elim exE conjE) (intro exI conjI refl)
    next
      assume ?members then show "j = to_dict s" by (elim exE conjE, intro unique)
    qed
  qed (simp_all only: read to_dict_inject status_from_wire_as_str)
qed

end
