(* ===== verification/Report.thy ===== *)
theory Report
  imports Suites
begin

text \<open>
  The self-report (\<open>src/report.rs\<close>): the screen for forbidden words, the surface builders with their
  notes, and the report over a list of surfaces. A failed \<open>assert!\<close> is \<open>Panic\<close>.
\<close>

subsection \<open>The screen\<close>

definition FORBIDDEN_WORDS :: "string list" where
  "FORBIDDEN_WORDS = [''quantum-proof'', ''quantum-safe'', ''unbreakable'']"

definition DEFAULT_CONVERSATION_SUITE :: string where
  "DEFAULT_CONVERSATION_SUITE = ''x25519-pgp-wrap-v1''"

definition REPORT_HYBRID_KEM_SUITE :: string where
  "REPORT_HYBRID_KEM_SUITE = ''x25519-mlkem768''"

definition is_honest_note :: "string \<Rightarrow> bool" where
  "is_honest_note note =
     (let lower = to_ascii_lowercase note in \<not> list_ex (\<lambda>w. contains lower w) FORBIDDEN_WORDS)"

subsection \<open>Surfaces\<close>

datatype ratchet_level = L2Oneshot | L3Epoch

fun ratchet_level_as_str :: "ratchet_level \<Rightarrow> string" where
  "ratchet_level_as_str L2Oneshot = ''L2-oneshot''"
| "ratchet_level_as_str L3Epoch = ''L3-epoch''"

definition ratchet_level_from_wire :: "string \<Rightarrow> ratchet_level" where
  "ratchet_level_from_wire s = (if s = ''L3-epoch'' then L3Epoch else L2Oneshot)"

record surface_report =
  sr_surface :: string
  sr_component :: string
  sr_active_suite :: string
  sr_status :: string
  sr_quantum_resistant :: bool
  sr_primitives :: "string list"
  sr_fips_refs :: "string list"
  sr_note :: string

definition assert_honest :: "surface_report \<Rightarrow> ('e, unit) result" where
  "assert_honest s =
     (if \<not> is_honest_note (sr_note s) then Panic
      else if sr_status s = ''classical'' \<and> sr_quantum_resistant s then Panic
      else Ok ())"

record resolved =
  rs_status :: suite_status
  rs_primitives :: "string list"
  rs_fips_refs :: "string list"
  rs_quantum_resistant :: bool

definition resolve_suite :: "string \<Rightarrow> resolved" where
  "resolve_suite suite_id =
     (case get_suite suite_id of
        Some s \<Rightarrow> \<lparr>rs_status = cs_status s, rs_primitives = cs_primitives s, rs_fips_refs = cs_fips_refs s,
                   rs_quantum_resistant = suite_is_quantum_resistant s\<rparr>
      | None \<Rightarrow> \<lparr>rs_status = Classical, rs_primitives = [''unknown''], rs_fips_refs = [],
                 rs_quantum_resistant = False\<rparr>)"

definition surface_from :: "string \<Rightarrow> string \<Rightarrow> string \<Rightarrow> string \<Rightarrow> ('e, surface_report) result" where
  "surface_from surface component suite_id note =
     (let r = resolve_suite suite_id;
          report = \<lparr>sr_surface = surface, sr_component = component, sr_active_suite = suite_id,
            sr_status = status_as_str (rs_status r), sr_quantum_resistant = rs_quantum_resistant r,
            sr_primitives = rs_primitives r, sr_fips_refs = rs_fips_refs r, sr_note = note\<rparr>
      in rbind (assert_honest report) (\<lambda>_. Ok report))"

definition who :: "string \<Rightarrow> string" where
  "who peer = (if peer = [] then [] else '' with '' @ peer)"

definition suite_or_default :: "string \<Rightarrow> string" where
  "suite_or_default negotiated_suite =
     (if negotiated_suite = [] then DEFAULT_CONVERSATION_SUITE else negotiated_suite)"

definition dm_note :: "bool \<Rightarrow> string \<Rightarrow> ratchet_level \<Rightarrow> u64 \<Rightarrow> string \<Rightarrow> string" where
  "dm_note is_hybrid suite_id ratchet_level epoch peer =
     (if \<not> is_hybrid then
        ''DM'' @ who peer @ '' on the CLASSICAL PGP key-wrap ('' @ suite_id @ '') '' @ em_dash @
        '' HNDL-exposed: recorded ciphertext is retroactively decryptable. The '' @
        ratchet_level_as_str ratchet_level @
        '' ratchet structure provides NO post-quantum confidentiality while the KEM is classical; negotiate the hybrid X25519+ML-KEM-768 (FIPS 203) suite to close the harvest-now-decrypt-later gap.''
      else if ratchet_level = L3Epoch then
        ''DM'' @ who peer @
        '' on the running epoch-ratchet, FS + PCS, hybrid X25519+ML-KEM-768 rekey per epoch (epoch '' @
        u64_to_string epoch @
        ''). Each epoch re-derives the chain from a fresh hybrid-KEM secret, so a compromised key neither decrypts past epochs (forward secrecy) nor future ones once healed (post-compromise security). Secure while EITHER the X25519 or the ML-KEM-768 (FIPS 203) leg holds.''
      else
        ''DM'' @ who peer @ '' sealed with a stateless one-shot hybrid seal '' @ em_dash @
        '' PQ at the published prekey only, no running ratchet. Forward secrecy is limited to prekey rotation (no per-message/per-epoch rekey, no post-compromise security). Secure while EITHER the X25519 or the ML-KEM-768 (FIPS 203) leg holds; upgrade to the L3 epoch-ratchet for FS + PCS.'')"

definition dm_ratchet_surface_for ::
  "string \<Rightarrow> ratchet_level \<Rightarrow> u64 \<Rightarrow> string \<Rightarrow> ('e, surface_report) result" where
  "dm_ratchet_surface_for negotiated_suite ratchet_level epoch peer =
     (let suite_id = suite_or_default negotiated_suite;
          is_hybrid = rs_quantum_resistant (resolve_suite suite_id)
      in surface_from ''dm'' ''skchat (DmRatchet)'' suite_id
           (dm_note is_hybrid suite_id ratchet_level epoch peer))"

datatype conversation_kind = Dm | Envelope

definition conversation_note :: "bool \<Rightarrow> string \<Rightarrow> string \<Rightarrow> string" where
  "conversation_note quantum_resistant upper peer =
     (if quantum_resistant then
        upper @ '' conversation'' @ who peer @
        '' negotiated the hybrid KEM: the body symmetric key is wrapped via X25519+ML-KEM-768 (PQXDH-style signed prekey) and AES-256-GCM seals the body. Negotiated suite is bound into the AEAD AAD (downgrade-lock). HNDL-resistant.''
      else
        upper @ '' conversation'' @ who peer @
        '' on the CLASSICAL PGP key-wrap (HNDL-exposed). Either the peer advertised no hybrid prekey or a downgrade occurred '' @
        em_dash @ '' recorded honestly. Hybrid engages only when both sides advertise a hybrid prekey.'')"

definition conversation_surface_for ::
  "string \<Rightarrow> conversation_kind \<Rightarrow> string \<Rightarrow> ('e, surface_report) result" where
  "conversation_surface_for negotiated_suite kind peer =
     (let suite_id = suite_or_default negotiated_suite;
          (surface, component) = (case kind of
             Envelope \<Rightarrow> (''envelope-payload'', ''skcomms (EnvelopeCrypto)'')
           | Dm \<Rightarrow> (''dm'', ''skchat (ChatCrypto)''));
          quantum_resistant = rs_quantum_resistant (resolve_suite suite_id);
          upper = to_ascii_uppercase surface
      in surface_from surface component suite_id (conversation_note quantum_resistant upper peer))"

subsection \<open>Reports\<close>

definition honest_claim :: "surface_report list \<Rightarrow> string" where
  "honest_claim surfaces =
     (let total = length surfaces;
          qr = length (filter sr_quantum_resistant surfaces);
          any_classical = list_ex (\<lambda>s. sr_status s = ''classical'') surfaces
      in if total > 0 \<and> qr = total then ''All owned surfaces are quantum-resistant.''
         else if any_classical then
           ''NOT quantum-resistant end-to-end. Asymmetric surfaces reported here are CLASSICAL (Shor-breakable) unless a hybrid X25519+ML-KEM-768 (FIPS 203) suite was negotiated. Symmetric/at-rest layers are quantum-acceptable. Do not claim hybrid/post-quantum protection where a surface reads classical.''
         else ''Only symmetric surfaces present; no asymmetric PQ migration done.'')"

record summary =
  sm_total_surfaces :: nat
  sm_quantum_resistant :: nat
  sm_classical :: nat
  sm_symmetric :: nat

record report =
  rp_report :: string
  rp_surfaces :: "surface_report list"
  rp_summary :: summary
  rp_honest_claim :: string

fun assert_all_honest :: "surface_report list \<Rightarrow> ('e, unit) result" where
  "assert_all_honest [] = Ok ()"
| "assert_all_honest (s # ss) = rbind (assert_honest s) (\<lambda>_. assert_all_honest ss)"

definition from_surfaces :: "surface_report list \<Rightarrow> ('e, report) result" where
  "from_surfaces surfaces =
     rbind (assert_all_honest surfaces) (\<lambda>_.
       Ok \<lparr>rp_report = ''pqc-self-report'', rp_surfaces = surfaces,
          rp_summary = \<lparr>sm_total_surfaces = length surfaces,
            sm_quantum_resistant = length (filter sr_quantum_resistant surfaces),
            sm_classical = length (filter (\<lambda>s. sr_status s = ''classical'') surfaces),
            sm_symmetric = length (filter (\<lambda>s. sr_status s = ''symmetric'') surfaces)\<rparr>,
          rp_honest_claim = honest_claim surfaces\<rparr>)"

text \<open>
  \<open>to_json\<close>: the members derived by serde, in the order of the fields, written by \<open>pp\<close>, which stands
  for \<open>serde_json::to_string_pretty\<close>.
\<close>

definition surface_report_json :: "surface_report \<Rightarrow> 'f json" where
  "surface_report_json s = JObject
     [(''surface'', JString (sr_surface s)), (''component'', JString (sr_component s)),
      (''active_suite'', JString (sr_active_suite s)), (''status'', JString (sr_status s)),
      (''quantum_resistant'', JBool (sr_quantum_resistant s)),
      (''primitives'', JArray (map JString (sr_primitives s))),
      (''fips_refs'', JArray (map JString (sr_fips_refs s))), (''note'', JString (sr_note s))]"

definition summary_json :: "summary \<Rightarrow> 'f json" where
  "summary_json m = JObject
     [(''total_surfaces'', JNumber (PosInt (word_of_nat (sm_total_surfaces m)))),
      (''quantum_resistant'', JNumber (PosInt (word_of_nat (sm_quantum_resistant m)))),
      (''classical'', JNumber (PosInt (word_of_nat (sm_classical m)))),
      (''symmetric'', JNumber (PosInt (word_of_nat (sm_symmetric m))))]"

definition report_json :: "report \<Rightarrow> 'f json" where
  "report_json r = JObject
     [(''report'', JString (rp_report r)), (''surfaces'', JArray (map surface_report_json (rp_surfaces r))),
      (''summary'', summary_json (rp_summary r)), (''honest_claim'', JString (rp_honest_claim r))]"

definition report_to_json :: "('f json \<Rightarrow> string option) \<Rightarrow> report \<Rightarrow> ('e, string) result" where
  "report_to_json pp r = expect (pp (report_json r))"

subsection \<open>The screen on concatenations\<close>

lemma contains_subset: "contains s p \<Longrightarrow> set p \<subseteq> set s"
  by (auto simp: contains_iff)

lemma is_honest_note_iff: "is_honest_note s \<longleftrightarrow> (\<forall>w \<in> set FORBIDDEN_WORDS. \<not> contains (map ascii_lower s) w)"
  by (auto simp: is_honest_note_def to_ascii_lowercase_def list_ex_iff Let_def)

text \<open>A space or a parenthesis cannot be part of a forbidden word.\<close>

lemma is_honest_note_separated:
  assumes "d \<in> {CHR '' '', CHR ''('', CHR '')''}"
  shows "is_honest_note (a @ d # b) \<longleftrightarrow> is_honest_note a \<and> is_honest_note b"
proof -
  have "ascii_lower d \<notin> set w" if "w \<in> set FORBIDDEN_WORDS" for w
    using assms that by (auto simp: FORBIDDEN_WORDS_def ascii_lower_def)
  then show ?thesis
    unfolding is_honest_note_iff map_append list.map using contains_separated by blast
qed

lemmas is_honest_note_space = is_honest_note_separated [of "CHR '' ''", simplified]
lemmas is_honest_note_open = is_honest_note_separated [of "CHR ''(''", simplified]
lemmas is_honest_note_close = is_honest_note_separated [of "CHR '')''", simplified]

lemma is_honest_note_Nil [simp]: "is_honest_note []"
  by (simp add: is_honest_note_iff FORBIDDEN_WORDS_def)

lemma is_honest_note_space_Cons: "is_honest_note (CHR '' '' # b) \<longleftrightarrow> is_honest_note b"
  using is_honest_note_space [of "[]" b] by simp

lemma is_honest_note_decimal [simp]: "is_honest_note (u64_to_string x)"
proof -
  have "CHR ''u'' \<notin> set (map ascii_lower (decimal n))" for n
  proof
    assume "CHR ''u'' \<in> set (map ascii_lower (decimal n))"
    then obtain d where d: "d < 10" "CHR ''u'' = ascii_lower (digit d)" using decimal_digits by fastforce
    then have "ascii_lower (digit d) = digit d" by (simp add: ascii_lower_def digit_def Let_def)
    with d have "digit_value (CHR ''u'') = Some d" by (metis digit_value_digit)
    then show False by (simp add: digit_value_def Let_def)
  qed
  moreover have "CHR ''u'' \<in> set w" if "w \<in> set FORBIDDEN_WORDS" for w
    using that by (auto simp: FORBIDDEN_WORDS_def)
  ultimately show ?thesis
    unfolding is_honest_note_iff u64_to_string_def using contains_subset by blast
qed

lemma is_honest_note_who: "is_honest_note (a @ who peer @ CHR '' '' # b) \<longleftrightarrow>
    is_honest_note a \<and> is_honest_note peer \<and> is_honest_note b"
proof -
  have "is_honest_note ''with''" by code_simp
  then show ?thesis
    using is_honest_note_space [of a "''with'' @ CHR '' '' # peer @ CHR '' '' # b"]
      is_honest_note_space [of "''with''" "peer @ CHR '' '' # b"]
    by (simp add: who_def is_honest_note_space)
qed

lemma level_honest [simp]: "is_honest_note (ratchet_level_as_str l)"
  by (cases l; simp; code_simp)

lemma is_honest_note_inside:
  assumes "p = a @ [d]" "d \<in> {CHR '' '', CHR ''('', CHR '')''}" "e \<in> {CHR '' '', CHR ''('', CHR '')''}"
  shows "is_honest_note (p @ x @ e # b) \<longleftrightarrow> is_honest_note a \<and> is_honest_note x \<and> is_honest_note b"
  using is_honest_note_separated [OF assms(2), of a "x @ e # b"] is_honest_note_separated [OF assms(3), of x b]
    assms(1) by simp

lemma honest_DM: "is_honest_note ''DM''"
  by code_simp

subsection \<open>The notes\<close>

lemma dm_note_classical:
  "is_honest_note (dm_note False suite_id l e peer) \<longleftrightarrow> is_honest_note peer \<and> is_honest_note suite_id"
proof -
  let ?b = "em_dash @ '' HNDL-exposed: recorded ciphertext is retroactively decryptable. The '' @
        ratchet_level_as_str l @
        '' ratchet structure provides NO post-quantum confidentiality while the KEM is classical; negotiate the hybrid X25519+ML-KEM-768 (FIPS 203) suite to close the harvest-now-decrypt-later gap.''"
  have "is_honest_note ?b" by (cases l; simp; code_simp)
  then have b: "is_honest_note (CHR '' '' # ?b)" by (simp only: is_honest_note_space_Cons)
  have a: "is_honest_note ''on the CLASSICAL PGP key-wrap ''" by code_simp
  have "is_honest_note (''on the CLASSICAL PGP key-wrap ('' @ suite_id @ CHR '')'' # CHR '' '' # ?b) \<longleftrightarrow> is_honest_note suite_id"
    using is_honest_note_inside [of "''on the CLASSICAL PGP key-wrap (''" "''on the CLASSICAL PGP key-wrap ''" "CHR ''(''"
        "CHR '')''" suite_id "CHR '' '' # ?b"] a b
    by simp
  then show ?thesis
    using is_honest_note_who [of "''DM''" peer "''on the CLASSICAL PGP key-wrap ('' @ suite_id @ CHR '')'' # CHR '' '' # ?b"]
      honest_DM by (simp add: dm_note_def)
qed

lemma dm_note_hybrid: "is_honest_note (dm_note True suite_id l e peer) \<longleftrightarrow> is_honest_note peer"
proof (cases l)
  case L2Oneshot
  let ?b = "''sealed with a stateless one-shot hybrid seal '' @ em_dash @
        '' PQ at the published prekey only, no running ratchet. Forward secrecy is limited to prekey rotation (no per-message/per-epoch rekey, no post-compromise security). Secure while EITHER the X25519 or the ML-KEM-768 (FIPS 203) leg holds; upgrade to the L3 epoch-ratchet for FS + PCS.''"
  have "is_honest_note ?b" by code_simp
  then show ?thesis
    using is_honest_note_who [of "''DM''" peer ?b] honest_DM L2Oneshot by (simp add: dm_note_def)
next
  case L3Epoch
  let ?a = "''on the running epoch-ratchet, FS + PCS, hybrid X25519+ML-KEM-768 rekey per epoch (epoch ''"
  let ?b = "''. Each epoch re-derives the chain from a fresh hybrid-KEM secret, so a compromised key neither decrypts past epochs (forward secrecy) nor future ones once healed (post-compromise security). Secure while EITHER the X25519 or the ML-KEM-768 (FIPS 203) leg holds.''"
  have b: "is_honest_note ?b" by code_simp
  have a: "is_honest_note ''on the running epoch-ratchet, FS + PCS, hybrid X25519+ML-KEM-768 rekey per epoch (epoch''" by code_simp
  have "is_honest_note (?a @ u64_to_string e @ CHR '')'' # ?b)"
    using is_honest_note_inside [of ?a "''on the running epoch-ratchet, FS + PCS, hybrid X25519+ML-KEM-768 rekey per epoch (epoch''"
        "CHR '' ''" "CHR '')''" "u64_to_string e" ?b] a b by simp
  then show ?thesis
    using is_honest_note_who [of "''DM''" peer "?a @ u64_to_string e @ CHR '')'' # ?b"] honest_DM L3Epoch
    by (simp add: dm_note_def)
qed

lemma conversation_note_honest:
  assumes "is_honest_note upper"
  shows "is_honest_note (conversation_note qr upper peer) \<longleftrightarrow> is_honest_note peer"
proof -
  let ?h = "''negotiated the hybrid KEM: the body symmetric key is wrapped via X25519+ML-KEM-768 (PQXDH-style signed prekey) and AES-256-GCM seals the body. Negotiated suite is bound into the AEAD AAD (downgrade-lock). HNDL-resistant.''"
  let ?c = "''on the CLASSICAL PGP key-wrap (HNDL-exposed). Either the peer advertised no hybrid prekey or a downgrade occurred '' @
        em_dash @ '' recorded honestly. Hybrid engages only when both sides advertise a hybrid prekey.''"
  have h: "is_honest_note ?h" by code_simp
  have c: "is_honest_note ?c" by code_simp
  have "is_honest_note ''conversation''" by code_simp
  then have a: "is_honest_note (upper @ '' conversation'')"
    using is_honest_note_space [of upper "''conversation''"] assms by simp
  show ?thesis
    using is_honest_note_who [of "upper @ '' conversation''" peer ?h] is_honest_note_who [of "upper @ '' conversation''" peer ?c]
      a h c by (cases qr) (simp_all add: conversation_note_def)
qed

subsection \<open>The builders\<close>

lemma resolve_suite_registry:
  "rs_status (resolve_suite i) = suite_status_of i"
  "rs_quantum_resistant (resolve_suite i) = is_quantum_resistant i"
  by (simp_all add: resolve_suite_def suite_status_of_def registry_suite_status_def is_quantum_resistant_def
      registry_is_quantum_resistant_def get_suite_def split: option.split)

lemma is_quantum_resistant_status: "is_quantum_resistant i \<longleftrightarrow> suite_status_of i \<noteq> Classical"
  by (simp add: suite_status_of_def registry_suite_status_def is_quantum_resistant_def registry_is_quantum_resistant_def
      suite_is_quantum_resistant_def status_is_quantum_resistant_iff split: option.split)

lemma is_quantum_resistant_iff: "is_quantum_resistant i \<longleftrightarrow> i \<in> {''aes256-gcm-v1'', ''x25519-mlkem768''}"
  by (simp add: is_quantum_resistant_def registry_is_quantum_resistant_def suite_is_quantum_resistant_def
      get_suite_eq flip: get_suite_def)

lemma status_as_str_classical: "status_as_str t = ''classical'' \<longleftrightarrow> t = Classical"
  by (cases t) simp_all

lemma surface_from_eq:
  "surface_from surface component i note =
     (if is_honest_note note then
        Ok \<lparr>sr_surface = surface, sr_component = component, sr_active_suite = i,
            sr_status = status_as_str (suite_status_of i), sr_quantum_resistant = is_quantum_resistant i,
            sr_primitives = rs_primitives (resolve_suite i), sr_fips_refs = rs_fips_refs (resolve_suite i),
            sr_note = note\<rparr>
      else Panic)"
  by (simp add: surface_from_def assert_honest_def Let_def resolve_suite_registry status_as_str_classical
      is_quantum_resistant_status)

text \<open>The posture a surface may report for the suite \<open>i\<close>: what the registry says, and no forbidden word.\<close>

definition honest_surface :: "string \<Rightarrow> surface_report \<Rightarrow> bool" where
  "honest_surface i s \<longleftrightarrow>
     sr_active_suite s = i \<and> sr_status s = status_as_str (suite_status_of i) \<and>
     sr_quantum_resistant s = is_quantum_resistant i \<and> is_honest_note (sr_note s)"

lemma surface_from_honest: "surface_from surface component i note = Ok s \<Longrightarrow> honest_surface i s"
  by (auto simp: surface_from_eq honest_surface_def split: if_splits)

lemma honest_default: "is_honest_note ''x25519-pgp-wrap-v1''"
  by code_simp

lemma is_honest_note_dm_note:
  "is_honest_note (dm_note (is_quantum_resistant i) i l e peer) \<longleftrightarrow>
     is_honest_note peer \<and> (get_suite i = None \<longrightarrow> is_honest_note i)"
proof (cases "is_quantum_resistant i")
  case True
  then show ?thesis by (auto simp: dm_note_hybrid is_quantum_resistant_iff get_suite_eq)
next
  case False
  then show ?thesis
    using honest_default by (auto simp: dm_note_classical is_quantum_resistant_iff get_suite_eq split: if_splits)
qed

lemma conversation_honest_upper:
  "is_honest_note (to_ascii_uppercase ''dm'')" "is_honest_note (to_ascii_uppercase ''envelope-payload'')"
  by code_simp+

lemma contains_append_left: "contains a p \<Longrightarrow> contains (a @ b) p"
  by (auto simp: contains_iff) (metis append.assoc)

lemma contains_append_right: "contains b p \<Longrightarrow> contains (a @ b) p"
  by (auto simp: contains_iff) (metis append.assoc)

lemma dm_note_says:
  "contains (dm_note False i l e peer) ''HNDL-exposed''"
  "contains (dm_note True i l e peer) ''EITHER''"
  "contains (dm_note True i L3Epoch e peer) (''(epoch '' @ u64_to_string e @ '')'')"
proof -
  show "contains (dm_note False i l e peer) ''HNDL-exposed''"
    by (simp add: dm_note_def contains_append_right contains_append_left)
  show "contains (dm_note True i l e peer) ''EITHER''"
    by (cases l) (simp_all add: dm_note_def contains_append_right contains_append_left)
  show "contains (dm_note True i L3Epoch e peer) (''(epoch '' @ u64_to_string e @ '')'')"
    unfolding contains_iff
    by (rule exI [where x = "''DM'' @ who peer @ '' on the running epoch-ratchet, FS + PCS, hybrid X25519+ML-KEM-768 rekey per epoch ''"])
      (simp add: dm_note_def)
qed

lemma conversation_note_says:
  "contains (conversation_note False upper peer) ''HNDL-exposed''"
  "contains (conversation_note True upper peer) ''hybrid KEM''"
  by (simp_all add: conversation_note_def contains_append_right contains_append_left)

text \<open>
  C37: The direct-message surface. It is honest for the negotiated suite (the default for an empty
  one): its status and quantum-resistance are the registry's, only the two seeded suites
  \<open>aes256-gcm-v1\<close> and \<open>x25519-mlkem768\<close> read as quantum-resistant, and a note over any other suite
  says it is exposed, at both ratchet levels. The builder panics exactly when the peer name, or a
  suite id the registry does not know, carries a forbidden word.
\<close>

theorem dm_surface_outcomes:
  "(dm_ratchet_surface_for n l e peer = (Panic :: ('e, surface_report) result) \<longleftrightarrow>
      \<not> is_honest_note peer \<or> get_suite (suite_or_default n) = None \<and> \<not> is_honest_note (suite_or_default n)) \<and>
   (dm_ratchet_surface_for n l e peer \<noteq> (Panic :: ('e, surface_report) result) \<longrightarrow>
      (\<exists>s. dm_ratchet_surface_for n l e peer = (Ok s :: ('e, surface_report) result) \<and> sr_surface s = ''dm'' \<and>
         honest_surface (suite_or_default n) s \<and>
         (sr_quantum_resistant s \<longleftrightarrow> suite_or_default n \<in> {''aes256-gcm-v1'', ''x25519-mlkem768''}) \<and>
         contains (sr_note s) (if sr_quantum_resistant s then ''EITHER'' else ''HNDL-exposed'') \<and>
         (sr_quantum_resistant s \<and> l = L3Epoch \<longrightarrow> contains (sr_note s) (''(epoch '' @ u64_to_string e @ '')''))))"
proof -
  let ?i = "suite_or_default n"
  have says: "contains (dm_note (is_quantum_resistant ?i) ?i l e peer) (if is_quantum_resistant ?i then ''EITHER'' else ''HNDL-exposed'')"
    "is_quantum_resistant ?i \<and> l = L3Epoch \<longrightarrow>
       contains (dm_note (is_quantum_resistant ?i) ?i l e peer) (''(epoch '' @ u64_to_string e @ '')'')"
    using dm_note_says by auto
  show ?thesis
    unfolding is_quantum_resistant_iff [symmetric]
    using is_honest_note_dm_note [of ?i l e peer] says
    by (simp add: dm_ratchet_surface_for_def Let_def surface_from_eq resolve_suite_registry honest_surface_def)
      blast
qed

theorem dm_surface_outcomes_witness:
  "\<exists>s. dm_ratchet_surface_for ''acme-9000'' L3Epoch 7 ''bob'' = (Ok s :: (unit, surface_report) result) \<and>
     \<not> sr_quantum_resistant s \<and> contains (sr_note s) ''HNDL-exposed''"
proof -
  have "is_honest_note ''bob''" "is_honest_note ''acme-9000''" by code_simp+
  then show ?thesis
    using dm_surface_outcomes [of "''acme-9000''" L3Epoch 7 "''bob''", where 'e = unit]
    by (auto simp: suite_or_default_def split: if_splits)
qed

text \<open>
  The conversation surface, for a direct message or an envelope. It is honest for the negotiated
  suite and never fails but by panicking, exactly when the peer name carries a forbidden word.
\<close>

lemma conversation_surface_outcomes:
  "(conversation_surface_for n k peer = (Panic :: ('e, surface_report) result) \<longleftrightarrow> \<not> is_honest_note peer) \<and>
   (is_honest_note peer \<longrightarrow>
      (\<exists>s. conversation_surface_for n k peer = (Ok s :: ('e, surface_report) result) \<and>
         sr_surface s = (case k of Dm \<Rightarrow> ''dm'' | Envelope \<Rightarrow> ''envelope-payload'') \<and>
         honest_surface (suite_or_default n) s \<and>
         contains (sr_note s) (if sr_quantum_resistant s then ''hybrid KEM'' else ''HNDL-exposed'')))"
  using conversation_note_honest [OF conversation_honest_upper(1)] conversation_note_honest [OF conversation_honest_upper(2)]
    conversation_note_says
  by (cases k) (auto simp: conversation_surface_for_def Let_def surface_from_eq resolve_suite_registry honest_surface_def)

subsection \<open>Reports over honest surfaces\<close>

lemma assert_all_honest_eq:
  "assert_all_honest ss = (if list_all (\<lambda>s. assert_honest s = (Ok () :: ('e, unit) result)) ss then Ok () else (Panic :: ('e, unit) result))"
  by (induction ss) (auto simp: assert_honest_def)

lemma honest_surface_asserts: "honest_surface i s \<Longrightarrow> assert_honest s = Ok ()"
  by (auto simp: honest_surface_def assert_honest_def status_as_str_classical is_quantum_resistant_status)

lemma honest_surface_classical: "honest_surface i s \<Longrightarrow> sr_status s = ''classical'' \<longleftrightarrow> \<not> sr_quantum_resistant s"
  by (auto simp: honest_surface_def status_as_str_classical is_quantum_resistant_status)

lemma length_filter_all: "length (filter P xs) = length xs \<longleftrightarrow> list_all P xs"
  by (auto simp: list_all_iff length_filter_conv_card) (metis filter_True length_filter_less nat_neq_iff length_filter_conv_card)+

lemma honest_claim_all:
  "honest_claim ss = ''All owned surfaces are quantum-resistant.'' \<longleftrightarrow> ss \<noteq> [] \<and> list_all sr_quantum_resistant ss"
  by (cases "list_all sr_quantum_resistant ss"; cases "ss = []")
    (simp_all add: honest_claim_def Let_def length_filter_all)

lemma honest_surfaces_report:
  "list_all (\<lambda>s. \<exists>i. honest_surface i s) ss \<Longrightarrow>
   \<exists>r. from_surfaces ss = (Ok r :: ('e, report) result) \<and> rp_honest_claim r = honest_claim ss"
  using honest_surface_asserts by (fastforce simp: from_surfaces_def assert_all_honest_eq list_all_iff)

lemma honest_claim_honest: "is_honest_note (honest_claim ss)"
proof -
  have "is_honest_note ''All owned surfaces are quantum-resistant.''" by code_simp
  moreover have "is_honest_note ''NOT quantum-resistant end-to-end. Asymmetric surfaces reported here are CLASSICAL (Shor-breakable) unless a hybrid X25519+ML-KEM-768 (FIPS 203) suite was negotiated. Symmetric/at-rest layers are quantum-acceptable. Do not claim hybrid/post-quantum protection where a surface reads classical.''" by code_simp
  moreover have "is_honest_note ''Only symmetric surfaces present; no asymmetric PQ migration done.''" by code_simp
  ultimately show ?thesis by (simp add: honest_claim_def Let_def)
qed

text \<open>The counts of a report, by position.\<close>

lemma from_surfaces_OkD:
  assumes "from_surfaces ss = (Ok r :: ('e, report) result)"
  shows "rp_report r = ''pqc-self-report''" "rp_surfaces r = ss" "rp_honest_claim r = honest_claim ss"
    "sm_total_surfaces (rp_summary r) = length ss"
    "sm_quantum_resistant (rp_summary r) = card {i. i < length ss \<and> sr_quantum_resistant (ss ! i)}"
    "sm_classical (rp_summary r) = card {i. i < length ss \<and> sr_status (ss ! i) = ''classical''}"
    "sm_symmetric (rp_summary r) = card {i. i < length ss \<and> sr_status (ss ! i) = ''symmetric''}"
  using assms by (auto simp: from_surfaces_def result_iffs length_filter_conv_card)

lemma honest_positions:
  assumes "list_all (\<lambda>s. \<exists>i. honest_surface i s) ss"
  shows "{i. i < length ss \<and> sr_quantum_resistant (ss ! i)} =
      {i. i < length ss \<and> suite_status_of (sr_active_suite (ss ! i)) \<noteq> Classical}"
    "{i. i < length ss \<and> sr_status (ss ! i) = status_as_str t} =
      {i. i < length ss \<and> suite_status_of (sr_active_suite (ss ! i)) = t}"
proof -
  have "sr_quantum_resistant (ss ! i) \<longleftrightarrow> suite_status_of (sr_active_suite (ss ! i)) \<noteq> Classical"
    and "sr_status (ss ! i) = status_as_str (suite_status_of (sr_active_suite (ss ! i)))" if "i < length ss" for i
    using assms that by (fastforce simp: list_all_length honest_surface_def is_quantum_resistant_status)+
  then show "{i. i < length ss \<and> sr_quantum_resistant (ss ! i)} =
      {i. i < length ss \<and> suite_status_of (sr_active_suite (ss ! i)) \<noteq> Classical}"
    "{i. i < length ss \<and> sr_status (ss ! i) = status_as_str t} =
      {i. i < length ss \<and> suite_status_of (sr_active_suite (ss ! i)) = t}"
    by (auto simp: status_as_str_inject)
qed

text \<open>
  C38: A report over any list of surfaces is built exactly when every surface passes its own assertion,
  and panics otherwise. It then lists the surfaces as given and counts them: all, those that are
  quantum-resistant, those whose status is \<open>classical\<close>, and those whose status is \<open>symmetric\<close>. Over
  surfaces that are honest for their suites a report is always built, and the counts are those of the
  suites: the quantum-resistant and the classical surfaces are complementary, the symmetric ones are
  among the former. Its claim has no forbidden word, and says "all" exactly when there are surfaces
  and all are quantum-resistant, "NOT" exactly when one of them is classical, and "only symmetric"
  for the empty report alone.
\<close>

theorem report_outcomes:
  "(from_surfaces ss = (Panic :: ('e, report) result) \<longleftrightarrow>
      (\<exists>s \<in> set ss. \<not> is_honest_note (sr_note s) \<or> sr_status s = ''classical'' \<and> sr_quantum_resistant s)) \<and>
   (\<forall>r. from_surfaces ss = (Ok r :: ('e, report) result) \<longrightarrow>
      rp_surfaces r = ss \<and> sm_total_surfaces (rp_summary r) = length ss \<and>
      sm_quantum_resistant (rp_summary r) = card {i. i < length ss \<and> sr_quantum_resistant (ss ! i)} \<and>
      sm_classical (rp_summary r) = card {i. i < length ss \<and> sr_status (ss ! i) = ''classical''} \<and>
      sm_symmetric (rp_summary r) = card {i. i < length ss \<and> sr_status (ss ! i) = ''symmetric''}) \<and>
   (list_all (\<lambda>s. \<exists>i. honest_surface i s) ss \<longrightarrow>
      (\<exists>r. from_surfaces ss = (Ok r :: ('e, report) result) \<and>
         sm_quantum_resistant (rp_summary r) =
           card {i. i < length ss \<and> suite_status_of (sr_active_suite (ss ! i)) \<noteq> Classical} \<and>
         sm_classical (rp_summary r) =
           card {i. i < length ss \<and> suite_status_of (sr_active_suite (ss ! i)) = Classical} \<and>
         sm_symmetric (rp_summary r) =
           card {i. i < length ss \<and> suite_status_of (sr_active_suite (ss ! i)) = Symmetric} \<and>
         sm_quantum_resistant (rp_summary r) + sm_classical (rp_summary r) = sm_total_surfaces (rp_summary r) \<and>
         sm_symmetric (rp_summary r) \<le> sm_quantum_resistant (rp_summary r) \<and>
         is_honest_note (rp_honest_claim r) \<and>
         (rp_honest_claim r = ''All owned surfaces are quantum-resistant.'' \<longleftrightarrow> ss \<noteq> [] \<and> list_all sr_quantum_resistant ss) \<and>
         (starts_with (rp_honest_claim r) ''NOT'' \<longleftrightarrow> \<not> list_all sr_quantum_resistant ss) \<and>
         (starts_with (rp_honest_claim r) ''Only symmetric'' \<longleftrightarrow> ss = [])))"
proof (intro conjI impI allI)
  show "from_surfaces ss = (Panic :: ('e, report) result) \<longleftrightarrow>
      (\<exists>s \<in> set ss. \<not> is_honest_note (sr_note s) \<or> sr_status s = ''classical'' \<and> sr_quantum_resistant s)"
    by (auto simp: from_surfaces_def assert_all_honest_eq assert_honest_def list_all_iff)
next
  assume h: "list_all (\<lambda>s. \<exists>i. honest_surface i s) ss"
  obtain r where r: "from_surfaces ss = (Ok r :: ('e, report) result)"
    using honest_surfaces_report [OF h, where 'e = 'e] by blast
  note counts = from_surfaces_OkD [OF r]
  let ?C = "{i. i < length ss \<and> suite_status_of (sr_active_suite (ss ! i)) = Classical}"
  let ?Q = "{i. i < length ss \<and> suite_status_of (sr_active_suite (ss ! i)) \<noteq> Classical}"
  have "card ?Q + card ?C = card (?Q \<union> ?C)" by (intro card_Un_disjoint [symmetric]) auto
  also have "?Q \<union> ?C = {..<length ss}" by auto
  finally have sum: "card ?Q + card ?C = length ss" by simp
  have sub: "card {i. i < length ss \<and> suite_status_of (sr_active_suite (ss ! i)) = Symmetric} \<le> card ?Q"
    by (rule card_mono) auto
  have "list_ex (\<lambda>s. sr_status s = ''classical'') ss \<longleftrightarrow> \<not> list_all sr_quantum_resistant ss"
    using h honest_surface_classical by (auto simp: list_all_iff list_ex_iff)
  then have claim: "(starts_with (honest_claim ss) ''NOT'' \<longleftrightarrow> \<not> list_all sr_quantum_resistant ss) \<and>
      (starts_with (honest_claim ss) ''Only symmetric'' \<longleftrightarrow> ss = [])"
    by (cases "list_all sr_quantum_resistant ss"; cases "ss = []")
      (simp_all add: honest_claim_def Let_def length_filter_all)
  show "\<exists>r. from_surfaces ss = (Ok r :: ('e, report) result) \<and>
         sm_quantum_resistant (rp_summary r) = card ?Q \<and> sm_classical (rp_summary r) = card ?C \<and>
         sm_symmetric (rp_summary r) =
           card {i. i < length ss \<and> suite_status_of (sr_active_suite (ss ! i)) = Symmetric} \<and>
         sm_quantum_resistant (rp_summary r) + sm_classical (rp_summary r) = sm_total_surfaces (rp_summary r) \<and>
         sm_symmetric (rp_summary r) \<le> sm_quantum_resistant (rp_summary r) \<and>
         is_honest_note (rp_honest_claim r) \<and>
         (rp_honest_claim r = ''All owned surfaces are quantum-resistant.'' \<longleftrightarrow> ss \<noteq> [] \<and> list_all sr_quantum_resistant ss) \<and>
         (starts_with (rp_honest_claim r) ''NOT'' \<longleftrightarrow> \<not> list_all sr_quantum_resistant ss) \<and>
         (starts_with (rp_honest_claim r) ''Only symmetric'' \<longleftrightarrow> ss = [])"
    using r sum sub claim honest_claim_honest [of ss] honest_claim_all [of ss] counts(3)
    by (intro exI [of _ r])
      (simp add: counts(4-7) honest_positions(1) [OF h] honest_positions(2) [OF h, of Classical, simplified]
        honest_positions(2) [OF h, of Symmetric, simplified])
qed (rule from_surfaces_OkD, assumption)+

theorem report_outcomes_witness:
  "\<exists>s r. dm_ratchet_surface_for ''aes256-gcm-v1'' L3Epoch 1 [] = (Ok s :: (unit, surface_report) result) \<and>
     from_surfaces [s] = (Ok r :: (unit, report) result) \<and>
     sm_quantum_resistant (rp_summary r) = 1 \<and> sm_classical (rp_summary r) = 0 \<and>
     rp_honest_claim r = ''All owned surfaces are quantum-resistant.''"
proof -
  have i: "is_quantum_resistant ''aes256-gcm-v1''" by (simp add: is_quantum_resistant_iff)
  obtain s where s: "dm_ratchet_surface_for ''aes256-gcm-v1'' L3Epoch 1 [] = (Ok s :: (unit, surface_report) result)"
    using i by (auto simp: dm_ratchet_surface_for_def suite_or_default_def Let_def surface_from_eq
        resolve_suite_registry dm_note_hybrid)
  then have "honest_surface ''aes256-gcm-v1'' s"
    by (auto simp: dm_ratchet_surface_for_def suite_or_default_def Let_def intro: surface_from_honest)
  then have "list_all (\<lambda>s. \<exists>i. honest_surface i s) [s]" "list_all sr_quantum_resistant [s]"
    using i by (auto simp: honest_surface_def)
  then obtain r where r: "from_surfaces [s] = (Ok r :: (unit, report) result)"
      "rp_honest_claim r = ''All owned surfaces are quantum-resistant.''"
      "sm_quantum_resistant (rp_summary r) + sm_classical (rp_summary r) = sm_total_surfaces (rp_summary r)"
      "sm_quantum_resistant (rp_summary r) = card {i. i < length [s] \<and> sr_quantum_resistant ([s] ! i)}"
      "sm_total_surfaces (rp_summary r) = length [s]"
    using report_outcomes [of "[s]", where 'e = unit] by blast
  have "{i. i < length [s] \<and> sr_quantum_resistant ([s] ! i)} = {0}"
    using \<open>list_all sr_quantum_resistant [s]\<close> by auto
  with r s show ?thesis by (intro exI [of _ s] exI [of _ r]) simp
qed

lemma map_JString_inject: "map JString xs = (map JString ys :: 'f json list) \<longleftrightarrow> xs = ys"
  by (rule inj_map_eq_map) (simp add: inj_def)

lemma surface_report_json_inject:
  "surface_report_json s = (surface_report_json s' :: 'f json) \<longleftrightarrow> s = s'"
  by (auto simp: surface_report_json_def map_JString_inject surface_report.equality)

text \<open>The JSON of a report determines its surfaces and its claim.\<close>

lemma report_json_surfaces:
  "report_json r = (report_json r' :: 'f json) \<Longrightarrow> rp_surfaces r = rp_surfaces r' \<and> rp_honest_claim r = rp_honest_claim r'"
  by (auto simp: report_json_def inj_map_eq_map inj_def surface_report_json_inject)

end
