(* ===== verification/Bindings.thy ===== *)
theory Bindings
  imports Ratchet
begin

text \<open>
  The foreign-function surfaces: Dart (\<open>src/frb_api.rs\<close>), Python (\<open>src/python.rs\<close>) and WebAssembly
  (\<open>wasm/src/lib.rs\<close>). Each call marshals bytes and turns a crate error into its text; a \<open>ValueError\<close>
  and a \<open>JsValue\<close> stand for the text they are made of. The marshalling of PyO3 and wasm-bindgen is not
  in the repository.
\<close>

subsection \<open>Dart\<close>

record frb_hybrid_key_pair =
  fkp_public_key :: bytes
  fkp_private_key :: bytes

record frb_encap_result =
  fer_ciphertext :: bytes
  fer_shared_secret :: bytes

definition frb_hybrid_keypair :: "('w, 'z) crypto_scheme \<Rightarrow> 'w \<Rightarrow> frb_hybrid_key_pair \<times> 'w" where
  "frb_hybrid_keypair C w =
     (case hybrid_keypair C w of (kp, w') \<Rightarrow>
       (\<lparr>fkp_public_key = kp_public_key kp, fkp_private_key = kp_private_key kp\<rparr>, w'))"

definition frb_hybrid_encap :: "('w, 'z) crypto_scheme \<Rightarrow> bytes \<Rightarrow> ('w, string, frb_encap_result) eff" where
  "frb_hybrid_encap C peer_public_key =
     ebind (emap_err kem_error_to_string (hybrid_encap C peer_public_key)) (\<lambda>(ciphertext, shared).
     lift (Ok \<lparr>fer_ciphertext = ciphertext, fer_shared_secret = shared\<rparr>))"

definition frb_hybrid_decap :: "('w, 'z) crypto_scheme \<Rightarrow> bytes \<Rightarrow> bytes \<Rightarrow> (string, bytes) result" where
  "frb_hybrid_decap C ciphertext private_key =
     rbind (map_err kem_error_to_string (hybrid_decap C ciphertext private_key)) (\<lambda>shared. Ok shared)"

definition frb_derive_dm_message_key ::
  "('w, 'z) crypto_scheme \<Rightarrow> bytes \<Rightarrow> u64 \<Rightarrow> u64 \<Rightarrow> (string, bytes) result" where
  "frb_derive_dm_message_key C epoch_secret epoch index =
     rbind (map_err ratchet_error_to_string (derive_dm_message_key C epoch_secret epoch index)) (\<lambda>key. Ok key)"

definition frb_suite_id :: string where
  "frb_suite_id = SUITE_ID"

definition frb_wire_sizes :: "u64 list" where
  "frb_wire_sizes =
     [word_of_nat PUBLIC_KEY_LEN, word_of_nat PRIVATE_KEY_LEN, word_of_nat CIPHERTEXT_LEN, word_of_nat SHARED_SECRET_LEN]"

subsection \<open>Python\<close>

definition py_hybrid_keypair :: "('w, 'z) crypto_scheme \<Rightarrow> 'w \<Rightarrow> (bytes \<times> bytes) \<times> 'w" where
  "py_hybrid_keypair C w =
     (case hybrid_keypair C w of (kp, w') \<Rightarrow> ((kp_public_key kp, kp_private_key kp), w'))"

definition py_hybrid_encap :: "('w, 'z) crypto_scheme \<Rightarrow> bytes \<Rightarrow> ('w, string, bytes \<times> bytes) eff" where
  "py_hybrid_encap C peer_public_key =
     ebind (emap_err kem_error_to_string (hybrid_encap C peer_public_key)) (\<lambda>(ct, ss). lift (Ok (ct, ss)))"

definition py_hybrid_decap :: "('w, 'z) crypto_scheme \<Rightarrow> bytes \<Rightarrow> bytes \<Rightarrow> (string, bytes) result" where
  "py_hybrid_decap C ciphertext private_key =
     rbind (map_err kem_error_to_string (hybrid_decap C ciphertext private_key)) (\<lambda>ss. Ok ss)"

definition py_derive_dm_message_key ::
  "('w, 'z) crypto_scheme \<Rightarrow> bytes \<Rightarrow> u64 \<Rightarrow> u64 \<Rightarrow> (string, bytes) result" where
  "py_derive_dm_message_key C epoch_secret epoch index =
     rbind (map_err ratchet_error_to_string (derive_dm_message_key C epoch_secret epoch index)) (\<lambda>key. Ok key)"

text \<open>The constants the module exports.\<close>

definition py_SUITE_ID :: string where "py_SUITE_ID = SUITE_ID"

definition py_lengths :: "(string \<times> nat) list" where
  "py_lengths =
     [(''PUBLIC_KEY_LEN'', PUBLIC_KEY_LEN), (''PRIVATE_KEY_LEN'', PRIVATE_KEY_LEN),
      (''CIPHERTEXT_LEN'', CIPHERTEXT_LEN), (''SHARED_SECRET_LEN'', SHARED_SECRET_LEN)]"

subsection \<open>WebAssembly\<close>

record wasm_hybrid_key_pair =
  wkp_public_key :: bytes
  wkp_private_key :: bytes

record wasm_encap_result =
  wer_ciphertext :: bytes
  wer_shared_secret :: bytes

definition wasm_hybrid_keypair :: "('w, 'z) crypto_scheme \<Rightarrow> 'w \<Rightarrow> wasm_hybrid_key_pair \<times> 'w" where
  "wasm_hybrid_keypair C w =
     (case hybrid_keypair C w of (kp, w') \<Rightarrow>
       (\<lparr>wkp_public_key = kp_public_key kp, wkp_private_key = kp_private_key kp\<rparr>, w'))"

definition wasm_hybrid_encap :: "('w, 'z) crypto_scheme \<Rightarrow> bytes \<Rightarrow> ('w, string, wasm_encap_result) eff" where
  "wasm_hybrid_encap C peer_public_key =
     ebind (emap_err kem_error_to_string (hybrid_encap C peer_public_key)) (\<lambda>(ciphertext, shared).
     lift (Ok \<lparr>wer_ciphertext = ciphertext, wer_shared_secret = shared\<rparr>))"

definition wasm_hybrid_decap :: "('w, 'z) crypto_scheme \<Rightarrow> bytes \<Rightarrow> bytes \<Rightarrow> (string, bytes) result" where
  "wasm_hybrid_decap C ciphertext private_key =
     rbind (map_err kem_error_to_string (hybrid_decap C ciphertext private_key)) (\<lambda>ss. Ok ss)"

definition wasm_derive_dm_message_key ::
  "('w, 'z) crypto_scheme \<Rightarrow> bytes \<Rightarrow> u64 \<Rightarrow> u64 \<Rightarrow> (string, bytes) result" where
  "wasm_derive_dm_message_key C epoch_secret epoch index =
     rbind (map_err ratchet_error_to_string (derive_dm_message_key C epoch_secret epoch index)) (\<lambda>key. Ok key)"

definition wasm_suite_id :: string where
  "wasm_suite_id = SUITE_ID"

subsection \<open>A surface over the core\<close>

lemma decimal_lengths: "decimal 32 = ''32''" "decimal 1120 = ''1120''" "decimal 1216 = ''1216''" "decimal 2432 = ''2432''"
  by code_simp+

text \<open>
  The contract every surface keeps, in terms of pairs of bytes: it returns what the core returns and
  reports the core's error as its text.
\<close>

locale surface =
  fixes pair :: "('w, 'z) crypto_scheme \<Rightarrow> 'w \<Rightarrow> (bytes \<times> bytes) \<times> 'w"
    and encap :: "('w, 'z) crypto_scheme \<Rightarrow> bytes \<Rightarrow> ('w, string, bytes \<times> bytes) eff"
    and decap :: "('w, 'z) crypto_scheme \<Rightarrow> bytes \<Rightarrow> bytes \<Rightarrow> (string, bytes) result"
  assumes pair_core: "pair C w = (case hybrid_keypair C w of (kp, w') \<Rightarrow> ((kp_public_key kp, kp_private_key kp), w'))"
    and encap_core: "encap C pub w = emap_err kem_error_to_string (hybrid_encap C pub) w"
    and decap_core: "decap C ct priv = map_err kem_error_to_string (hybrid_decap C ct priv)"
begin

lemma encap_wrong_length:
  assumes "length pub \<noteq> 1216"
  shows "encap C pub w = (Err (''hybrid public key must be 1216 bytes, got '' @ decimal (length pub)), w)"
  using assms
  by (simp add: encap_core hybrid_encap_def expect_len_def len_simps emap_err_def decimal_lengths)

lemma decap_wrong_length:
  assumes "length ct \<noteq> 1120"
  shows "decap C ct priv = Err (''hybrid ciphertext must be 1120 bytes, got '' @ decimal (length ct))"
  using assms
  by (simp add: decap_core hybrid_decap_def expect_len_def len_simps decimal_lengths)

end

text \<open>The surfaces, with their result classes read as pairs.\<close>

definition frb_pair :: "('w, 'z) crypto_scheme \<Rightarrow> 'w \<Rightarrow> (bytes \<times> bytes) \<times> 'w" where
  "frb_pair C w = (case frb_hybrid_keypair C w of (kp, w') \<Rightarrow> ((fkp_public_key kp, fkp_private_key kp), w'))"

definition frb_encap :: "('w, 'z) crypto_scheme \<Rightarrow> bytes \<Rightarrow> ('w, string, bytes \<times> bytes) eff" where
  "frb_encap C pub = ebind (frb_hybrid_encap C pub) (\<lambda>r. lift (Ok (fer_ciphertext r, fer_shared_secret r)))"

definition wasm_pair :: "('w, 'z) crypto_scheme \<Rightarrow> 'w \<Rightarrow> (bytes \<times> bytes) \<times> 'w" where
  "wasm_pair C w = (case wasm_hybrid_keypair C w of (kp, w') \<Rightarrow> ((wkp_public_key kp, wkp_private_key kp), w'))"

definition wasm_encap :: "('w, 'z) crypto_scheme \<Rightarrow> bytes \<Rightarrow> ('w, string, bytes \<times> bytes) eff" where
  "wasm_encap C pub = ebind (wasm_hybrid_encap C pub) (\<lambda>r. lift (Ok (wer_ciphertext r, wer_shared_secret r)))"

lemma rbind_Ok [simp]: "rbind m Ok = m"
  by (cases m) simp_all

interpretation frb: surface frb_pair frb_encap frb_hybrid_decap
  by unfold_locales
    (auto simp: frb_pair_def frb_hybrid_keypair_def frb_encap_def frb_hybrid_encap_def frb_hybrid_decap_def ebind_def
      split: prod.splits result.splits)

interpretation py: surface py_hybrid_keypair py_hybrid_encap py_hybrid_decap
  by unfold_locales
    (auto simp: py_hybrid_keypair_def py_hybrid_encap_def py_hybrid_decap_def ebind_def split: prod.splits result.splits)

interpretation wasm: surface wasm_pair wasm_encap wasm_hybrid_decap
  by unfold_locales
    (auto simp: wasm_pair_def wasm_hybrid_keypair_def wasm_encap_def wasm_hybrid_encap_def wasm_hybrid_decap_def ebind_def
      split: prod.splits result.splits)

subsection \<open>Interoperation\<close>

text \<open>
  C18: The three surfaces are one. Key pairs, encapsulations and decapsulations agree between Dart, Python
  and WebAssembly from the same state of the random generator, errors included; what one of them
  encapsulates to a generated key each of them decapsulates to the same secret; and a wrong length is
  reported with the expected one, which is the length \<open>wire_sizes\<close> announces.
\<close>

theorem bindings_interoperate:
  assumes "crypto_ok C" "generated_pair C pub priv"
  shows "frb_pair C w = py_hybrid_keypair C w \<and> wasm_pair C w = py_hybrid_keypair C w \<and>
    frb_encap C key w = py_hybrid_encap C key w \<and> wasm_encap C key w = py_hybrid_encap C key w \<and>
    (\<forall>ct k. frb_hybrid_decap C ct k = py_hybrid_decap C ct k \<and> wasm_hybrid_decap C ct k = py_hybrid_decap C ct k) \<and>
    (\<exists>ct ss w'. py_hybrid_encap C pub w = (Ok (ct, ss), w') \<and> frb_hybrid_decap C ct priv = Ok ss \<and>
       py_hybrid_decap C ct priv = Ok ss \<and> wasm_hybrid_decap C ct priv = Ok ss \<and>
       [unat (frb_wire_sizes ! 0), unat (frb_wire_sizes ! 1), unat (frb_wire_sizes ! 2), unat (frb_wire_sizes ! 3)] =
         [length pub, length priv, length ct, length ss]) \<and>
    (length key \<noteq> 1216 \<longrightarrow>
       frb_encap C key w = (Err (''hybrid public key must be 1216 bytes, got '' @ decimal (length key)), w)) \<and>
    (length key \<noteq> 1120 \<longrightarrow>
       wasm_hybrid_decap C key priv = Err (''hybrid ciphertext must be 1120 bytes, got '' @ decimal (length key)))"
proof -
  obtain ct ss w' where e: "hybrid_encap C pub w = (Ok (ct, ss), w')" "length ct = 1120" "length ss = 32"
      "hybrid_decap C ct priv = Ok ss"
    using hybrid_roundtrip [OF assms] by blast
  have l: "length pub = 1216" "length priv = 2432" using generated_pair_lengths [OF assms] by (simp_all add: len_simps)
  show ?thesis
    using e l frb.encap_wrong_length [of key C w] wasm.decap_wrong_length [of key C priv]
    by (auto simp: frb.pair_core py.pair_core wasm.pair_core frb.encap_core py.encap_core wasm.encap_core
        frb.decap_core py.decap_core wasm.decap_core emap_err_def frb_wire_sizes_def len_simps)
qed

theorem bindings_interoperate_witness:
  "frb_encap toy (lit ''abc'') 0 = (Err ''hybrid public key must be 1216 bytes, got 3'', 0)"
proof -
  have "generated_pair toy toy_pub toy_priv" by (simp add: toy_def)
  moreover have "decimal (Suc (Suc (Suc 0))) = ''3''" by code_simp
  ultimately show ?thesis using bindings_interoperate [OF toy_ok, of toy_pub toy_priv 0 "lit ''abc''"] by auto
qed

text \<open>The message key agrees too, and a short epoch secret is reported with its length.\<close>

lemma bindings_message_key:
  "frb_derive_dm_message_key C secret e i = py_derive_dm_message_key C secret e i"
  "wasm_derive_dm_message_key C secret e i = py_derive_dm_message_key C secret e i"
  "length secret \<noteq> 32 \<Longrightarrow> py_derive_dm_message_key C secret e i =
     Err (''epoch_secret must be 32 bytes, got '' @ decimal (length secret))"
  by (simp_all add: frb_derive_dm_message_key_def py_derive_dm_message_key_def wasm_derive_dm_message_key_def
      derive_dm_message_key_def EPOCH_SECRET_LEN_def decimal_lengths)

end

