(* ===== verification/Bridge.thy ===== *)
theory Bridge
  imports Bindings Json
begin

text \<open>
  The glue between Dart and the Dart surface (\<open>src/frb_generated.rs\<close>): the SSE encoding of every type
  that crosses, the six wire functions and the two dispatchers. A decoder is a computation on the bytes
  that are left under the cursor; each \<open>unwrap\<close> of a read is a panic.
\<close>

subsection \<open>What the glue relies on\<close>

text \<open>
  From \<open>byteorder\<close>: reads and writes in the byte order of the platform. From \<open>flutter_rust_bridge\<close>: the
  bytes of a message (\<open>from_wire\<close>, \<open>SseDeserializer::new\<close>), whether \<open>end\<close> accepts what is left
  unread, and the answer of a call made from encoded bytes (success or error) or from a caught panic.
\<close>

record ('p, 'o) bridge =
  br_put_u64 :: "u64 \<Rightarrow> bytes"
  br_get_u64 :: "bytes \<Rightarrow> (u64 \<times> bytes) option"
  br_put_i32 :: "u32 \<Rightarrow> bytes"
  br_get_i32 :: "bytes \<Rightarrow> (u32 \<times> bytes) option"
  br_put_u8 :: "u8 \<Rightarrow> bytes"
  br_get_u8 :: "bytes \<Rightarrow> (u8 \<times> bytes) option"
  br_message :: "'p \<Rightarrow> u32 \<Rightarrow> u32 \<Rightarrow> bytes"
  br_end :: "bytes \<Rightarrow> bool"
  br_ok :: "bytes \<Rightarrow> 'o"
  br_err :: "bytes \<Rightarrow> 'o"
  br_panic :: 'o

text \<open>Fixed-width integers: \<open>n\<close> bytes are written, and exactly what was written is read.\<close>

definition fixed_width :: "nat \<Rightarrow> ('a \<Rightarrow> bytes) \<Rightarrow> (bytes \<Rightarrow> ('a \<times> bytes) option) \<Rightarrow> bool" where
  "fixed_width n put get \<longleftrightarrow>
     (\<forall>x. length (put x) = n) \<and> (\<forall>d x r. get d = Some (x, r) \<longleftrightarrow> d = put x @ r)"

definition bridge_ok :: "('p, 'o) bridge \<Rightarrow> bool" where
  "bridge_ok B \<longleftrightarrow>
     fixed_width 8 (br_put_u64 B) (br_get_u64 B) \<and> fixed_width 4 (br_put_i32 B) (br_get_i32 B) \<and>
     fixed_width 1 (br_put_u8 B) (br_get_u8 B) \<and>
     br_end B [] \<and> (\<forall>x. br_ok B x \<noteq> br_panic B \<and> br_err B x \<noteq> br_panic B)"

subsection \<open>Decoders\<close>

type_synonym ('e, 'a) decoder = "(bytes, 'e, 'a) eff"

definition de_read :: "(bytes \<Rightarrow> ('a \<times> bytes) option) \<Rightarrow> ('e, 'a) decoder" where
  "de_read get d = (case get d of Some (x, d') \<Rightarrow> (Ok x, d') | None \<Rightarrow> (Panic, d))"

definition sse_decode_u64 :: "('p, 'o) bridge \<Rightarrow> ('e, u64) decoder" where
  "sse_decode_u64 B = de_read (br_get_u64 B)"

definition sse_decode_u8 :: "('p, 'o) bridge \<Rightarrow> ('e, u8) decoder" where
  "sse_decode_u8 B = de_read (br_get_u8 B)"

definition sse_decode_unit :: "('e, unit) decoder" where
  "sse_decode_unit = lift (Ok ())"

definition sse_decode_i32 :: "('p, 'o) bridge \<Rightarrow> ('e, u32) decoder" where
  "sse_decode_i32 B = de_read (br_get_i32 B)"

definition sse_decode_bool :: "('p, 'o) bridge \<Rightarrow> ('e, bool) decoder" where
  "sse_decode_bool B = ebind (de_read (br_get_u8 B)) (\<lambda>b. lift (Ok (b \<noteq> 0)))"

text \<open>
  \<open>Vec::with_capacity\<close> panics when the bytes asked for pass \<open>isize::MAX\<close>; a negative \<open>i32\<close> cast to
  \<open>usize\<close> is sign-extended. The loop \<open>for idx_ in 0..len_\<close> runs \<open>len_\<close> times, never when it is negative.
\<close>

definition with_capacity :: "nat \<Rightarrow> u64 \<Rightarrow> ('e, unit) result" where
  "with_capacity item_size n = (if item_size * unat n < 2 ^ 63 then Ok () else Panic)"

fun de_items :: "('e, 'a) decoder \<Rightarrow> nat \<Rightarrow> ('e, 'a list) decoder" where
  "de_items item 0 = lift (Ok [])"
| "de_items item (Suc n) = ebind item (\<lambda>x. ebind (de_items item n) (\<lambda>xs. lift (Ok (x # xs))))"

definition de_vec :: "('p, 'o) bridge \<Rightarrow> nat \<Rightarrow> ('e, 'a) decoder \<Rightarrow> ('e, 'a list) decoder" where
  "de_vec B item_size item =
     ebind (sse_decode_i32 B) (\<lambda>len.
     ebind (lift (with_capacity item_size (scast len))) (\<lambda>_.
     de_items item (nat (sint len))))"

definition sse_decode_vec_u64 :: "('p, 'o) bridge \<Rightarrow> ('e, u64 list) decoder" where
  "sse_decode_vec_u64 B = de_vec B 8 (sse_decode_u64 B)"

definition sse_decode_vec_u8 :: "('p, 'o) bridge \<Rightarrow> ('e, bytes) decoder" where
  "sse_decode_vec_u8 B = de_vec B 1 (sse_decode_u8 B)"

text \<open>\<open>String::from_utf8(inner).unwrap()\<close>.\<close>

definition unlit :: "bytes \<Rightarrow> string" where
  "unlit bs = map (\<lambda>b. char_of (unat b)) bs"

definition from_utf8 :: "bytes \<Rightarrow> string option" where
  "from_utf8 bs = (if valid_str (unlit bs) then Some (unlit bs) else None)"

definition sse_decode_string :: "('p, 'o) bridge \<Rightarrow> ('e, string) decoder" where
  "sse_decode_string B = ebind (sse_decode_vec_u8 B) (\<lambda>inner. lift (expect (from_utf8 inner)))"

definition sse_decode_encap_result :: "('p, 'o) bridge \<Rightarrow> ('e, frb_encap_result) decoder" where
  "sse_decode_encap_result B =
     ebind (sse_decode_vec_u8 B) (\<lambda>var_ciphertext.
     ebind (sse_decode_vec_u8 B) (\<lambda>var_sharedSecret.
     lift (Ok \<lparr>fer_ciphertext = var_ciphertext, fer_shared_secret = var_sharedSecret\<rparr>)))"

definition sse_decode_hybrid_key_pair :: "('p, 'o) bridge \<Rightarrow> ('e, frb_hybrid_key_pair) decoder" where
  "sse_decode_hybrid_key_pair B =
     ebind (sse_decode_vec_u8 B) (\<lambda>var_publicKey.
     ebind (sse_decode_vec_u8 B) (\<lambda>var_privateKey.
     lift (Ok \<lparr>fkp_public_key = var_publicKey, fkp_private_key = var_privateKey\<rparr>)))"

subsection \<open>Encoders\<close>

text \<open>What is appended under the cursor; writes to a growing buffer do not fail.\<close>

definition sse_encode_u64 :: "('p, 'o) bridge \<Rightarrow> u64 \<Rightarrow> bytes" where
  "sse_encode_u64 B x = br_put_u64 B x"

definition sse_encode_u8 :: "('p, 'o) bridge \<Rightarrow> u8 \<Rightarrow> bytes" where
  "sse_encode_u8 B x = br_put_u8 B x"

definition sse_encode_unit :: "unit \<Rightarrow> bytes" where
  "sse_encode_unit x = []"

definition sse_encode_i32 :: "('p, 'o) bridge \<Rightarrow> u32 \<Rightarrow> bytes" where
  "sse_encode_i32 B x = br_put_i32 B x"

definition sse_encode_bool :: "('p, 'o) bridge \<Rightarrow> bool \<Rightarrow> bytes" where
  "sse_encode_bool B x = br_put_u8 B (if x then 1 else 0)"

definition sse_encode_vec_u64 :: "('p, 'o) bridge \<Rightarrow> u64 list \<Rightarrow> bytes" where
  "sse_encode_vec_u64 B xs =
     sse_encode_i32 B (word_of_nat (length xs)) @ concat (map (sse_encode_u64 B) xs)"

definition sse_encode_vec_u8 :: "('p, 'o) bridge \<Rightarrow> bytes \<Rightarrow> bytes" where
  "sse_encode_vec_u8 B xs =
     sse_encode_i32 B (word_of_nat (length xs)) @ concat (map (sse_encode_u8 B) xs)"

definition sse_encode_string :: "('p, 'o) bridge \<Rightarrow> string \<Rightarrow> bytes" where
  "sse_encode_string B s = sse_encode_vec_u8 B (lit s)"

definition sse_encode_encap_result :: "('p, 'o) bridge \<Rightarrow> frb_encap_result \<Rightarrow> bytes" where
  "sse_encode_encap_result B r = sse_encode_vec_u8 B (fer_ciphertext r) @ sse_encode_vec_u8 B (fer_shared_secret r)"

definition sse_encode_hybrid_key_pair :: "('p, 'o) bridge \<Rightarrow> frb_hybrid_key_pair \<Rightarrow> bytes" where
  "sse_encode_hybrid_key_pair B r = sse_encode_vec_u8 B (fkp_public_key r) @ sse_encode_vec_u8 B (fkp_private_key r)"

subsection \<open>Wire functions and dispatch\<close>

text \<open>
  The state of a call is the rest of its message and the world. \<open>transform_result_sse\<close> turns the result
  of the closure into an answer; \<open>wrap_sync\<close> runs the closure and catches its panic.
\<close>

type_synonym ('w, 'o, 'a) closure = "(bytes \<times> 'w, 'o, 'a) eff"

definition sse_end :: "('p, 'o) bridge \<Rightarrow> ('e, unit) decoder" where
  "sse_end B = (\<lambda>d. (if br_end B d then Ok () else Panic, d))"

definition transform_result_sse ::
  "('p, 'o) bridge \<Rightarrow> ('a \<Rightarrow> bytes) \<Rightarrow> ('e \<Rightarrow> bytes) \<Rightarrow> ('w, 'e, 'a) eff \<Rightarrow> ('w, 'o, 'o) closure" where
  "transform_result_sse B enc_ok enc_err m =
     ebind (emap_err (\<lambda>e. br_err B (enc_err e)) (on_world m)) (\<lambda>x. lift (Ok (br_ok B (enc_ok x))))"

definition wrap_sync ::
  "('p, 'o) bridge \<Rightarrow> ('w, 'o, 'o) closure \<Rightarrow> 'p \<Rightarrow> u32 \<Rightarrow> u32 \<Rightarrow> 'w \<Rightarrow> 'o \<times> 'w" where
  "wrap_sync B closure ptr rust_vec_len data_len w =
     (case closure (br_message B ptr rust_vec_len data_len, w) of (r, (_, w')) \<Rightarrow>
       (case r of Ok out \<Rightarrow> out | Err out \<Rightarrow> out | Panic \<Rightarrow> br_panic B, w'))"

definition wire_derive_dm_message_key ::
  "('w, 'z) crypto_scheme \<Rightarrow> ('p, 'o) bridge \<Rightarrow> 'p \<Rightarrow> u32 \<Rightarrow> u32 \<Rightarrow> 'w \<Rightarrow> 'o \<times> 'w" where
  "wire_derive_dm_message_key C B = wrap_sync B
     (ebind (on_self (sse_decode_vec_u8 B)) (\<lambda>api_epoch_secret.
      ebind (on_self (sse_decode_u64 B)) (\<lambda>api_epoch.
      ebind (on_self (sse_decode_u64 B)) (\<lambda>api_index.
      ebind (on_self (sse_end B)) (\<lambda>_.
      transform_result_sse B (sse_encode_vec_u8 B) (sse_encode_string B)
        (lift (frb_derive_dm_message_key C api_epoch_secret api_epoch api_index)))))))"

definition wire_hybrid_decap ::
  "('w, 'z) crypto_scheme \<Rightarrow> ('p, 'o) bridge \<Rightarrow> 'p \<Rightarrow> u32 \<Rightarrow> u32 \<Rightarrow> 'w \<Rightarrow> 'o \<times> 'w" where
  "wire_hybrid_decap C B = wrap_sync B
     (ebind (on_self (sse_decode_vec_u8 B)) (\<lambda>api_ciphertext.
      ebind (on_self (sse_decode_vec_u8 B)) (\<lambda>api_private_key.
      ebind (on_self (sse_end B)) (\<lambda>_.
      transform_result_sse B (sse_encode_vec_u8 B) (sse_encode_string B)
        (lift (frb_hybrid_decap C api_ciphertext api_private_key))))))"

definition wire_hybrid_encap ::
  "('w, 'z) crypto_scheme \<Rightarrow> ('p, 'o) bridge \<Rightarrow> 'p \<Rightarrow> u32 \<Rightarrow> u32 \<Rightarrow> 'w \<Rightarrow> 'o \<times> 'w" where
  "wire_hybrid_encap C B = wrap_sync B
     (ebind (on_self (sse_decode_vec_u8 B)) (\<lambda>api_peer_public_key.
      ebind (on_self (sse_end B)) (\<lambda>_.
      transform_result_sse B (sse_encode_encap_result B) (sse_encode_string B)
        (frb_hybrid_encap C api_peer_public_key))))"

definition wire_hybrid_keypair ::
  "('w, 'z) crypto_scheme \<Rightarrow> ('p, 'o) bridge \<Rightarrow> 'p \<Rightarrow> u32 \<Rightarrow> u32 \<Rightarrow> 'w \<Rightarrow> 'o \<times> 'w" where
  "wire_hybrid_keypair C B = wrap_sync B
     (ebind (on_self (sse_end B)) (\<lambda>_.
      transform_result_sse B (sse_encode_hybrid_key_pair B) sse_encode_unit (call (frb_hybrid_keypair C))))"

definition wire_suite_id ::
  "('p, 'o) bridge \<Rightarrow> 'p \<Rightarrow> u32 \<Rightarrow> u32 \<Rightarrow> 'w \<Rightarrow> 'o \<times> 'w" where
  "wire_suite_id B = wrap_sync B
     (ebind (on_self (sse_end B)) (\<lambda>_.
      transform_result_sse B (sse_encode_string B) sse_encode_unit (lift (Ok frb_suite_id))))"

definition wire_wire_sizes ::
  "('p, 'o) bridge \<Rightarrow> 'p \<Rightarrow> u32 \<Rightarrow> u32 \<Rightarrow> 'w \<Rightarrow> 'o \<times> 'w" where
  "wire_wire_sizes B = wrap_sync B
     (ebind (on_self (sse_end B)) (\<lambda>_.
      transform_result_sse B (sse_encode_vec_u64 B) sse_encode_unit (lift (Ok frb_wire_sizes))))"

definition pde_ffi_dispatcher_sync ::
  "('w, 'z) crypto_scheme \<Rightarrow> ('p, 'o) bridge \<Rightarrow> u32 \<Rightarrow> 'p \<Rightarrow> u32 \<Rightarrow> u32 \<Rightarrow> ('w, 'e, 'o) eff" where
  "pde_ffi_dispatcher_sync C B func_id ptr rust_vec_len data_len =
     (if func_id = 1 then call (wire_derive_dm_message_key C B ptr rust_vec_len data_len)
      else if func_id = 2 then call (wire_hybrid_decap C B ptr rust_vec_len data_len)
      else if func_id = 3 then call (wire_hybrid_encap C B ptr rust_vec_len data_len)
      else if func_id = 4 then call (wire_hybrid_keypair C B ptr rust_vec_len data_len)
      else if func_id = 5 then call (wire_suite_id B ptr rust_vec_len data_len)
      else if func_id = 6 then call (wire_wire_sizes B ptr rust_vec_len data_len)
      else lift Panic)"

definition pde_ffi_dispatcher_primary :: "u32 \<Rightarrow> 'port \<Rightarrow> 'p \<Rightarrow> u32 \<Rightarrow> u32 \<Rightarrow> ('w, 'e, unit) eff" where
  "pde_ffi_dispatcher_primary func_id port ptr rust_vec_len data_len = lift Panic"

text \<open>The second encoding of the two result classes, as a list of Dart objects (\<open>IntoDart\<close>).\<close>

definition encap_result_into_dart :: "(bytes \<Rightarrow> 'd) \<Rightarrow> ('d list \<Rightarrow> 'd) \<Rightarrow> frb_encap_result \<Rightarrow> 'd" where
  "encap_result_into_dart dart_bytes dart_list r = dart_list [dart_bytes (fer_ciphertext r), dart_bytes (fer_shared_secret r)]"

definition hybrid_key_pair_into_dart :: "(bytes \<Rightarrow> 'd) \<Rightarrow> ('d list \<Rightarrow> 'd) \<Rightarrow> frb_hybrid_key_pair \<Rightarrow> 'd" where
  "hybrid_key_pair_into_dart dart_bytes dart_list r = dart_list [dart_bytes (fkp_public_key r), dart_bytes (fkp_private_key r)]"

subsection \<open>The contract of a wire type\<close>

text \<open>
  On the values that fit, decoding reads back what was encoded and leaves the rest; a decoder never
  reports an error, it panics. A canonical decoder accepts only encodings.
\<close>

locale sse_codec =
  fixes ok :: "'b \<Rightarrow> bool" and enc :: "'b \<Rightarrow> 'a \<Rightarrow> bytes" and dec :: "'b \<Rightarrow> ('e, 'a) decoder" and fits :: "'a \<Rightarrow> bool"
  assumes dec_enc: "ok B \<Longrightarrow> fits x \<Longrightarrow> dec B (enc B x @ r) = (Ok x, r)"
    and dec_no_err: "dec B d \<noteq> (Err e, d')"
begin

lemma enc_prefix:
  assumes "ok B" "fits x" "fits y" "enc B x @ r = enc B y @ s"
  shows "x = y \<and> r = s"
  using dec_enc [OF assms(1,2), of r, unfolded assms(4)] dec_enc [OF assms(1,3), of s] by simp

end

locale sse_canonical = sse_codec +
  assumes dec_canonical: "ok B \<Longrightarrow> dec B d = (Ok x, r) \<Longrightarrow> fits x \<and> d = enc B x @ r"
begin

lemma dec_Ok_iff:
  assumes "ok B"
  shows "dec B d = (Ok x, r) \<longleftrightarrow> fits x \<and> d = enc B x @ r"
proof
  assume "dec B d = (Ok x, r)"
  then show "fits x \<and> d = enc B x @ r" by (rule dec_canonical [OF assms])
next
  assume "fits x \<and> d = enc B x @ r"
  then show "dec B d = (Ok x, r)" using dec_enc [OF assms, of x r] by (elim conjE) (simp only:)
qed

lemma dec_cases:
  assumes "ok B"
  obtains x r where "fits x" "d = enc B x @ r" "dec B d = (Ok x, r)" | d' where "\<nexists>x r. fits x \<and> d = enc B x @ r" "dec B d = (Panic, d')"
proof -
  obtain y r where y: "dec B d = (y, r)" by (metis surj_pair)
  show thesis
  proof (cases y)
    case (Ok x)
    with y dec_canonical [OF assms] show thesis by (intro that(1)) auto
  next
    case (Err e)
    with y dec_no_err show thesis by blast
  next
    case Panic
    with y dec_enc [OF assms] have "\<nexists>x r. fits x \<and> d = enc B x @ r" by force
    with y Panic show thesis by (intro that(2)) auto
  qed
qed

end

subsection \<open>Integers\<close>

lemma bridge_okD:
  assumes "bridge_ok B"
  shows "fixed_width 8 (br_put_u64 B) (br_get_u64 B)" "fixed_width 4 (br_put_i32 B) (br_get_i32 B)"
    "fixed_width 1 (br_put_u8 B) (br_get_u8 B)" "br_end B []"
    "br_ok B x \<noteq> br_panic B" "br_err B x \<noteq> br_panic B"
  using assms by (auto simp: bridge_ok_def)

lemma de_read_no_err: "de_read get d \<noteq> (Err e, d')"
  by (auto simp: de_read_def split: option.splits)

lemma de_read_iff:
  assumes "fixed_width n put get"
  shows "de_read get d = (Ok x, r) \<longleftrightarrow> d = put x @ r"
proof -
  have "de_read get d = (Ok x, r) \<longleftrightarrow> get d = Some (x, r)" by (auto simp: de_read_def split: option.splits)
  also have "\<dots> \<longleftrightarrow> d = put x @ r" using assms unfolding fixed_width_def by blast
  finally show ?thesis .
qed

interpretation u64_sse: sse_canonical bridge_ok sse_encode_u64 sse_decode_u64 "\<lambda>_. True"
  by unfold_locales
    (simp_all add: sse_encode_u64_def sse_decode_u64_def de_read_no_err de_read_iff [OF bridge_okD(1)])

interpretation u8_sse: sse_canonical bridge_ok sse_encode_u8 sse_decode_u8 "\<lambda>_. True"
  by unfold_locales
    (simp_all add: sse_encode_u8_def sse_decode_u8_def de_read_no_err de_read_iff [OF bridge_okD(3)])

interpretation i32_sse: sse_canonical bridge_ok sse_encode_i32 sse_decode_i32 "\<lambda>_. True"
  by unfold_locales
    (simp_all add: sse_encode_i32_def sse_decode_i32_def de_read_no_err de_read_iff [OF bridge_okD(2)])

interpretation unit_sse: sse_canonical bridge_ok "\<lambda>_. sse_encode_unit" "\<lambda>_. sse_decode_unit" "\<lambda>_. True"
  by unfold_locales (simp_all add: sse_encode_unit_def sse_decode_unit_def)

lemma sse_decode_bool_encode:
  "bridge_ok B \<Longrightarrow> sse_decode_bool B (sse_encode_bool B x @ r) = (Ok x, r)"
  by (cases x) (auto simp: sse_decode_bool_def sse_encode_bool_def ebind_eq_Ok_iff de_read_iff [OF bridge_okD(3)])

interpretation bool_sse: sse_codec bridge_ok sse_encode_bool sse_decode_bool "\<lambda>_. True"
  by unfold_locales
    (rule sse_decode_bool_encode, assumption, auto simp: sse_decode_bool_def ebind_eq_Err_iff de_read_no_err)

subsection \<open>Vectors\<close>

lemma length_sse_encode [simp]:
  assumes "bridge_ok B"
  shows "length (sse_encode_u64 B x) = 8" "length (sse_encode_u8 B y) = 1" "length (sse_encode_i32 B n) = 4"
  using assms by (simp_all add: sse_encode_u64_def sse_encode_u8_def sse_encode_i32_def bridge_ok_def fixed_width_def)

text \<open>The length as it is written and as it is read back.\<close>

lemma unat_scast_i32:
  fixes n :: u32
  shows "int (unat (scast n :: u64)) = (if 0 \<le> sint n then sint n else 2 ^ 64 + sint n)"
proof -
  have b: "- (2 ^ 31) \<le> sint n" "sint n < 2 ^ 31"
    using sint_greater_eq [of n] sint_less [of n] by simp_all
  have "int (unat (scast n :: u64)) = sint n mod 2 ^ 64"
    unfolding scast_eq of_nat_unat uint_word_of_int by simp
  also have "\<dots> = (if 0 \<le> sint n then sint n else 2 ^ 64 + sint n)"
  proof (cases "0 \<le> sint n")
    case True then show ?thesis using b by (simp add: mod_pos_pos_trivial)
  next
    case False
    have "sint n mod 2 ^ 64 = (2 ^ 64 + sint n) mod 2 ^ 64" by (rule mod_add_self1 [symmetric])
    also have "\<dots> = 2 ^ 64 + sint n" using False b by (intro mod_pos_pos_trivial) auto
    finally show ?thesis using False by (simp only: if_False)
  qed
  finally show ?thesis .
qed

lemma with_capacity_i32:
  fixes n :: u32
  assumes "0 < sz" "sz \<le> 8"
  shows "sz * unat (scast n :: u64) < 2 ^ 63 \<longleftrightarrow> 0 \<le> sint n"
proof -
  have b: "- (2 ^ 31) \<le> sint n" "sint n < 2 ^ 31"
    using sint_greater_eq [of n] sint_less [of n] by simp_all
  have u: "int (unat (scast n :: u64)) = (if 0 \<le> sint n then sint n else 2 ^ 64 + sint n)"
    by (rule unat_scast_i32)
  show ?thesis
  proof (cases "0 \<le> sint n")
    case True
    then have "int (unat (scast n :: u64)) < int (2 ^ 31)" using u b by simp
    then have "unat (scast n :: u64) < 2 ^ 31" by (simp only: of_nat_less_iff)
    then have "sz * unat (scast n :: u64) \<le> 8 * 2 ^ 31"
      using assms by (intro mult_le_mono) auto
    also have "\<dots> < 2 ^ 63" by simp
    finally show ?thesis using True by simp
  next
    case False
    then have "int (2 ^ 63) \<le> int (unat (scast n :: u64))" using u b by simp
    then have "2 ^ 63 \<le> unat (scast n :: u64)" by (simp only: of_nat_le_iff)
    also have "\<dots> \<le> sz * unat (scast n :: u64)" using assms by simp
    finally show ?thesis using False by simp
  qed
qed

lemma shift_mod_32:
  fixes k :: int
  assumes "0 \<le> k" "k < 2 ^ 32"
  shows "(k + 2 ^ 31) mod 2 ^ 32 = (if k < 2 ^ 31 then k + 2 ^ 31 else k - 2 ^ 31)"
proof (cases "k < 2 ^ 31")
  case True
  then show ?thesis using assms by (simp add: mod_pos_pos_trivial)
next
  case False
  have "(k + 2 ^ 31) mod 2 ^ 32 = (k - 2 ^ 31 + 2 ^ 32) mod 2 ^ 32" by (simp add: add.commute)
  also have "\<dots> = (k - 2 ^ 31) mod 2 ^ 32" by (rule mod_add_self2)
  also have "\<dots> = k - 2 ^ 31" using assms False by (intro mod_pos_pos_trivial) auto
  finally show ?thesis using False by simp
qed

lemma sint_of_nat_i32:
  "sint (word_of_nat n :: u32) = (if n mod 2 ^ 32 < 2 ^ 31 then int (n mod 2 ^ 32) else int (n mod 2 ^ 32) - 2 ^ 32)"
proof -
  have u: "uint (word_of_nat n :: u32) = int (n mod 2 ^ 32)"
  proof -
    have "unat (word_of_nat n :: u32) = n mod 2 ^ 32" by (simp add: unat_of_nat)
    then show ?thesis using of_nat_unat [of "word_of_nat n :: u32"] by metis
  qed
  have k: "0 \<le> int (n mod 2 ^ 32)" "int (n mod 2 ^ 32) < 2 ^ 32"
    using of_nat_less_iff [of "n mod 2 ^ 32" "2 ^ 32", where 'a = int] by simp_all
  have "sint (word_of_nat n :: u32) = (int (n mod 2 ^ 32) + 2 ^ 31) mod 2 ^ 32 - 2 ^ 31"
    unfolding sint_uint u signed_take_bit_eq_take_bit_shift take_bit_eq_mod by simp
  also have "\<dots> = (if n mod 2 ^ 32 < 2 ^ 31 then int (n mod 2 ^ 32) else int (n mod 2 ^ 32) - 2 ^ 32)"
    unfolding shift_mod_32 [OF k] using of_nat_less_iff [of "n mod 2 ^ 32" "2 ^ 31", where 'a = int] by auto
  finally show ?thesis .
qed

text \<open>Reading \<open>n\<close> items, for a canonical item.\<close>

lemma de_items_iff:
  assumes "\<And>d x r. item d = (Ok x, r) \<longleftrightarrow> d = e x @ r"
  shows "de_items item n d = (Ok xs, r) \<longleftrightarrow> length xs = n \<and> d = concat (map e xs) @ r"
proof (induction n arbitrary: d xs)
  case (Suc n)
  then show ?case by (cases xs) (auto simp: ebind_eq_Ok_iff assms)
qed auto

lemma de_items_no_err:
  "(\<And>d d'. item d \<noteq> (Err x, d')) \<Longrightarrow> de_items item n d \<noteq> (Err x, d')"
  by (induction n arbitrary: d d') (auto simp: ebind_eq_Err_iff)

definition encode_vec :: "('p, 'o) bridge \<Rightarrow> ('a \<Rightarrow> bytes) \<Rightarrow> 'a list \<Rightarrow> bytes" where
  "encode_vec B e xs = sse_encode_i32 B (word_of_nat (length xs)) @ concat (map e xs)"

lemma sse_encode_vec: "sse_encode_vec_u8 B = encode_vec B (sse_encode_u8 B)" "sse_encode_vec_u64 B = encode_vec B (sse_encode_u64 B)"
  by (simp_all add: fun_eq_iff encode_vec_def sse_encode_vec_u8_def sse_encode_vec_u64_def)

text \<open>
  The one fact about vectors: the length counts modulo \<open>2 ^ 32\<close>, as an \<open>i32\<close>. A length that reads as
  negative panics in \<open>with_capacity\<close>; otherwise as many items are read as the length says.
\<close>

lemma de_vec_encode:
  fixes item :: "('e, 'a) decoder"
  assumes B: "bridge_ok B" and sz: "0 < sz" "sz \<le> 8"
    and item: "\<And>d x r. item d = (Ok x, r) \<longleftrightarrow> d = e x @ r"
  shows "de_vec B sz item (encode_vec B e xs @ r) =
    (if length xs mod 2 ^ 32 < 2 ^ 31
     then (Ok (take (length xs mod 2 ^ 32) xs), concat (map e (drop (length xs mod 2 ^ 32) xs)) @ r)
     else (Panic, concat (map e xs) @ r))"
proof -
  let ?n = "length xs mod 2 ^ 32"
  have l: "(sse_decode_i32 B :: ('e, u32) decoder) (encode_vec B e xs @ r) = (Ok (word_of_nat (length xs)), concat (map e xs) @ r)"
    using i32_sse.dec_enc [OF B] by (simp add: encode_vec_def)
  have "?n \<le> length xs" "?n < 2 ^ 32" by simp_all
  then have "de_items item ?n (concat (map e xs) @ r) = (Ok (take ?n xs), concat (map e (drop ?n xs)) @ r)"
    unfolding de_items_iff [where e = e, OF item]
    by (simp flip: map_append concat_append append_assoc)
  moreover have "nat (sint (word_of_nat (length xs) :: u32)) = ?n" if "?n < 2 ^ 31"
    using that by (simp only: sint_of_nat_i32 if_True nat_int)
  moreover have "0 \<le> sint (word_of_nat (length xs) :: u32) \<longleftrightarrow> ?n < 2 ^ 31"
    unfolding sint_of_nat_i32 using \<open>?n < 2 ^ 32\<close> of_nat_less_iff [of ?n "2 ^ 32", where 'a = int] by auto
  ultimately show ?thesis
    using l with_capacity_i32 [OF sz, of "word_of_nat (length xs)"]
    by (simp add: de_vec_def ebind_def with_capacity_def del: power_numeral)
qed

lemma de_vec_OkD:
  fixes item :: "('e, 'a) decoder"
  assumes B: "bridge_ok B" and sz: "0 < sz" "sz \<le> 8"
    and item: "\<And>d x r. item d = (Ok x, r) \<longleftrightarrow> d = e x @ r"
    and d: "de_vec B sz item d = (Ok xs, r)"
  shows "length xs < 2 ^ 31 \<and> d = encode_vec B e xs @ r"
proof -
  obtain n d' where n: "(sse_decode_i32 B :: ('e, u32) decoder) d = (Ok n, d')"
    and c: "(with_capacity sz (scast n) :: ('e, unit) result) = Ok ()" and it: "de_items item (nat (sint n)) d' = (Ok xs, r)"
    using d by (auto simp: de_vec_def ebind_eq_Ok_iff)
  have pos: "0 \<le> sint n" using c with_capacity_i32 [OF sz] by (simp add: with_capacity_def split: if_splits)
  have xs: "length xs = nat (sint n)" "d' = concat (map e xs) @ r"
    using it unfolding de_items_iff [where e = e, OF item] by auto
  have "sint n < 2 ^ 31" using sint_less [of n] by simp
  then have "int (length xs) < int (2 ^ 31)" using xs(1) pos by simp
  then have l: "length xs < 2 ^ 31" by (simp only: of_nat_less_iff)
  have "word_of_nat (length xs) = n" using xs(1) pos by simp
  then have "d = encode_vec B e xs @ r"
    using i32_sse.dec_canonical [OF B n] xs(2) by (simp add: encode_vec_def)
  with l show ?thesis by simp
qed

lemma de_vec_no_err:
  assumes "\<And>d d'. item d \<noteq> (Err x, d')"
  shows "de_vec B sz item d \<noteq> (Err x, d')"
  using de_items_no_err [of item x, OF assms]
  by (auto simp: de_vec_def with_capacity_def ebind_eq_Err_iff i32_sse.dec_no_err)

lemma vec_canonical:
  fixes item :: "('p, 'o) bridge \<Rightarrow> ('e, 'a) decoder"
  assumes sz: "0 < sz" "sz \<le> 8" and c: "sse_canonical bridge_ok e item (\<lambda>_. True)"
  shows "sse_canonical bridge_ok (\<lambda>B. encode_vec B (e B)) (\<lambda>B. de_vec B sz (item B)) (\<lambda>xs. length xs < 2 ^ 31)"
proof unfold_locales
  fix B :: "('p, 'o) bridge" and xs r d d' and x :: 'e
  note item = sse_canonical.dec_Ok_iff [OF c, simplified]
  show "de_vec B sz (item B) (encode_vec B (e B) xs @ r) = (Ok xs, r)" if "bridge_ok B" "length xs < 2 ^ 31"
    using de_vec_encode [OF that(1) sz item [OF that(1)], of xs r] that(2)
    by (simp only: mod_less less_trans [OF that(2)] if_True take_all drop_all) simp
  show "de_vec B sz (item B) d \<noteq> (Err x, d')"
    by (rule de_vec_no_err) (rule sse_codec.dec_no_err [OF sse_canonical.axioms(1) [OF c]])
  show "length xs < 2 ^ 31 \<and> d = encode_vec B (e B) xs @ r" if "bridge_ok B" "de_vec B sz (item B) d = (Ok xs, r)"
    by (rule de_vec_OkD [OF that(1) sz item [OF that(1)] that(2)])
qed

interpretation vec_u8_sse: sse_canonical bridge_ok sse_encode_vec_u8 sse_decode_vec_u8 "\<lambda>xs. length xs < 2 ^ 31"
  unfolding sse_encode_vec [abs_def] sse_decode_vec_u8_def [abs_def]
  by (rule vec_canonical) (simp_all add: u8_sse.sse_canonical_axioms)

interpretation vec_u64_sse: sse_canonical bridge_ok sse_encode_vec_u64 sse_decode_vec_u64 "\<lambda>xs. length xs < 2 ^ 31"
  unfolding sse_encode_vec [abs_def] sse_decode_vec_u64_def [abs_def]
  by (rule vec_canonical) (simp_all add: u64_sse.sse_canonical_axioms)

subsection \<open>Strings and classes\<close>

lemma unlit_lit [simp]: "unlit (lit s) = s"
  by (induction s) (simp_all add: unlit_def unat_of_nat)

lemma unat_u8_mod: "unat (b :: u8) mod 256 = unat b"
  using unsigned_less [of b, where 'a = nat] by simp

lemma lit_unlit [simp]: "lit (unlit bs) = bs"
  by (induction bs) (simp_all add: unlit_def lit_def unat_u8_mod)

lemma from_utf8_iff: "from_utf8 inner = Some s \<longleftrightarrow> valid_str s \<and> inner = lit s"
  by (auto simp: from_utf8_def)

lemma sse_decode_string_iff:
  fixes B :: "('p, 'o) bridge"
  assumes B: "bridge_ok B"
  shows "(sse_decode_string B d :: ('e, string) result \<times> bytes) = (Ok s, r) \<longleftrightarrow>
    valid_str s \<and> length s < 2 ^ 31 \<and> d = sse_encode_string B s @ r"
proof -
  have "(sse_decode_string B d :: ('e, string) result \<times> bytes) = (Ok s, r) \<longleftrightarrow>
      valid_str s \<and> (sse_decode_vec_u8 B :: ('e, bytes) decoder) d = (Ok (lit s), r)"
    by (auto simp: sse_decode_string_def ebind_eq_Ok_iff from_utf8_iff)
  then show ?thesis unfolding vec_u8_sse.dec_Ok_iff [OF B] by (simp add: sse_encode_string_def)
qed

lemma sse_decode_string_no_err: "sse_decode_string B d \<noteq> (Err x, d')"
  by (auto simp: sse_decode_string_def ebind_eq_Err_iff vec_u8_sse.dec_no_err)

interpretation string_sse: sse_canonical bridge_ok sse_encode_string sse_decode_string
    "\<lambda>s. valid_str s \<and> length s < 2 ^ 31"
  by unfold_locales (simp_all add: sse_decode_string_iff sse_decode_string_no_err)

lemma pair_canonical:
  fixes d1 :: "'b \<Rightarrow> ('e, 'x) decoder" and d2 :: "'b \<Rightarrow> ('e, 'y) decoder"
  assumes c1: "sse_canonical ok e1 d1 f1" and c2: "sse_canonical ok e2 d2 f2"
    and mk: "\<And>a b. p1 (mk a b) = a" "\<And>a b. p2 (mk a b) = b" "\<And>x. mk (p1 x) (p2 x) = x"
  shows "sse_canonical ok (\<lambda>B x. e1 B (p1 x) @ e2 B (p2 x))
    (\<lambda>B. ebind (d1 B) (\<lambda>a. ebind (d2 B) (\<lambda>b. lift (Ok (mk a b))))) (\<lambda>x. f1 (p1 x) \<and> f2 (p2 x))"
proof unfold_locales
  fix B d d' r x and y :: 'e
  note iff = sse_canonical.dec_Ok_iff [OF c1] sse_canonical.dec_Ok_iff [OF c2]
  show "ebind (d1 B) (\<lambda>a. ebind (d2 B) (\<lambda>b. lift (Ok (mk a b)))) ((e1 B (p1 x) @ e2 B (p2 x)) @ r) = (Ok x, r)"
    if "ok B" "f1 (p1 x) \<and> f2 (p2 x)"
    using that mk(3) [of x] by (auto simp: ebind_eq_Ok_iff iff)
  show "(f1 (p1 x) \<and> f2 (p2 x)) \<and> d = (e1 B (p1 x) @ e2 B (p2 x)) @ r"
    if "ok B" "ebind (d1 B) (\<lambda>a. ebind (d2 B) (\<lambda>b. lift (Ok (mk a b)))) d = (Ok x, r)"
    using that mk(1,2) by (auto simp: ebind_eq_Ok_iff iff)
  show "ebind (d1 B) (\<lambda>a. ebind (d2 B) (\<lambda>b. lift (Ok (mk a b)))) d \<noteq> (Err y, d')"
    using sse_codec.dec_no_err [OF sse_canonical.axioms(1) [OF c1], of B]
      sse_codec.dec_no_err [OF sse_canonical.axioms(1) [OF c2], of B]
    by (auto simp: ebind_eq_Err_iff)
qed

interpretation encap_result_sse: sse_canonical bridge_ok sse_encode_encap_result sse_decode_encap_result
    "\<lambda>r. length (fer_ciphertext r) < 2 ^ 31 \<and> length (fer_shared_secret r) < 2 ^ 31"
  unfolding sse_encode_encap_result_def [abs_def] sse_decode_encap_result_def [abs_def]
  by (rule pair_canonical [OF vec_u8_sse.sse_canonical_axioms vec_u8_sse.sse_canonical_axioms]) simp_all

interpretation hybrid_key_pair_sse: sse_canonical bridge_ok sse_encode_hybrid_key_pair sse_decode_hybrid_key_pair
    "\<lambda>r. length (fkp_public_key r) < 2 ^ 31 \<and> length (fkp_private_key r) < 2 ^ 31"
  unfolding sse_encode_hybrid_key_pair_def [abs_def] sse_decode_hybrid_key_pair_def [abs_def]
  by (rule pair_canonical [OF vec_u8_sse.sse_canonical_axioms vec_u8_sse.sse_canonical_axioms]) simp_all

lemma length_concat_fixed: "(\<And>x. length (e x) = k) \<Longrightarrow> length (concat (map e xs)) = k * length xs"
  by (induction xs) simp_all

text \<open>
  C21: The length of a vector on the wire is an \<open>i32\<close>. A vector of \<open>n\<close> items is written with the length
  \<open>n mod 2 ^ 32\<close>: below \<open>2 ^ 31\<close> it reads back, from \<open>2 ^ 31\<close> on its length is negative and the reader
  panics, and from \<open>2 ^ 32\<close> on the reader takes a wrong prefix. Whatever a reader accepts it accepts
  from one text only: the vector has fewer than \<open>2 ^ 31\<close> items, and its items and the four bytes of its
  length were in the message.
\<close>

theorem sse_vector_bounds:
  assumes "bridge_ok B"
  shows "(fst (sse_decode_vec_u8 B (sse_encode_vec_u8 B v @ r)) =
      (if length v mod 2 ^ 32 < 2 ^ 31 then Ok (take (length v mod 2 ^ 32) v) else Panic :: ('e, bytes) result)) \<and>
    (fst (sse_decode_vec_u64 B (sse_encode_vec_u64 B u @ r)) =
      (if length u mod 2 ^ 32 < 2 ^ 31 then Ok (take (length u mod 2 ^ 32) u) else Panic :: ('e, u64 list) result)) \<and>
    (length v < 2 ^ 31 \<longrightarrow> (sse_decode_vec_u8 B :: ('e, bytes) decoder) (sse_encode_vec_u8 B v @ r) = (Ok v, r)) \<and>
    (\<forall>d w. (sse_decode_vec_u8 B :: ('e, bytes) decoder) d = (Ok w, r) \<longrightarrow>
       d = sse_encode_vec_u8 B w @ r \<and> length w < 2 ^ 31 \<and> length d = 4 + length w + length r) \<and>
    (\<forall>d w. (sse_decode_vec_u64 B :: ('e, u64 list) decoder) d = (Ok w, r) \<longrightarrow>
       d = sse_encode_vec_u64 B w @ r \<and> length w < 2 ^ 31 \<and> length d = 4 + 8 * length w + length r)"
proof (intro conjI allI impI)
  note i8 = u8_sse.dec_Ok_iff [OF assms, simplified] and i64 = u64_sse.dec_Ok_iff [OF assms, simplified]
  show "fst (sse_decode_vec_u8 B (sse_encode_vec_u8 B v @ r)) =
      (if length v mod 2 ^ 32 < 2 ^ 31 then Ok (take (length v mod 2 ^ 32) v) else Panic :: ('e, bytes) result)"
    unfolding sse_decode_vec_u8_def sse_encode_vec by (subst de_vec_encode [OF assms _ _ i8]) simp_all
  show "fst (sse_decode_vec_u64 B (sse_encode_vec_u64 B u @ r)) =
      (if length u mod 2 ^ 32 < 2 ^ 31 then Ok (take (length u mod 2 ^ 32) u) else Panic :: ('e, u64 list) result)"
    unfolding sse_decode_vec_u64_def sse_encode_vec by (subst de_vec_encode [OF assms _ _ i64]) simp_all
  show "(sse_decode_vec_u8 B :: ('e, bytes) decoder) (sse_encode_vec_u8 B v @ r) = (Ok v, r)" if "length v < 2 ^ 31"
    by (rule vec_u8_sse.dec_enc [OF assms that])
next
  fix d w assume d: "(sse_decode_vec_u8 B :: ('e, bytes) decoder) d = (Ok w, r)"
  note c = vec_u8_sse.dec_canonical [OF assms d]
  show "d = sse_encode_vec_u8 B w @ r" "length w < 2 ^ 31" using c by simp_all
  show "length d = 4 + length w + length r"
    using c length_concat_fixed [of "sse_encode_u8 B" 1 w] length_sse_encode [OF assms]
    by (simp add: sse_encode_vec_u8_def)
next
  fix d w assume d: "(sse_decode_vec_u64 B :: ('e, u64 list) decoder) d = (Ok w, r)"
  note c = vec_u64_sse.dec_canonical [OF assms d]
  show "d = sse_encode_vec_u64 B w @ r" "length w < 2 ^ 31" using c by simp_all
  show "length d = 4 + 8 * length w + length r"
    using c length_concat_fixed [of "sse_encode_u64 B" 8 w] length_sse_encode [OF assms]
    by (simp add: sse_encode_vec_u64_def)
qed

text \<open>A bridge in big-endian order whose answers say what they are.\<close>

definition toy_bridge :: "(bytes, string \<times> bytes) bridge" where
  "toy_bridge =
     \<lparr>br_put_u64 = u64_be, br_get_u64 = (\<lambda>d. if length d < 8 then None else Some (u64_from_be (take 8 d), drop 8 d)),
      br_put_i32 = u32_be, br_get_i32 = (\<lambda>d. if length d < 4 then None else Some (u32_from_be (take 4 d), drop 4 d)),
      br_put_u8 = (\<lambda>b. [b]), br_get_u8 = (\<lambda>d. case d of [] \<Rightarrow> None | b # r \<Rightarrow> Some (b, r)),
      br_message = (\<lambda>p _ _. p), br_end = (\<lambda>d. d = []),
      br_ok = Pair ''ok'', br_err = Pair ''error'', br_panic = (''panic'', [])\<rparr>"

lemma toy_bridge_ok [simp]: "bridge_ok toy_bridge"
proof -
  have "d = u64_be (u64_from_be (take 8 d)) @ drop 8 d" if "\<not> length d < 8" for d
    using that by (simp add: u64_be_from_be)
  moreover have "d = u32_be (u32_from_be (take 4 d)) @ drop 4 d" if "\<not> length d < 4" for d
    using that by (simp add: u32_be_from_be)
  ultimately show ?thesis
    by (auto simp: bridge_ok_def fixed_width_def toy_bridge_def split: list.splits)
qed

theorem sse_vector_bounds_witness:
  "(sse_decode_vec_u8 toy_bridge :: (unit, bytes) decoder) (sse_encode_vec_u8 toy_bridge [7, 8] @ [9]) = (Ok [7, 8], [9])"
  using sse_vector_bounds [OF toy_bridge_ok, of "[7, 8]" "[9]" "[]", where 'e = unit] by simp

subsection \<open>Calls\<close>

text \<open>A closure run on the bytes of a message, and the answer to a result of the Dart surface.\<close>

definition run_closure :: "('p, 'o) bridge \<Rightarrow> ('w, 'o, 'o) closure \<Rightarrow> bytes \<Rightarrow> 'w \<Rightarrow> 'o \<times> 'w" where
  "run_closure B closure d w =
     (case closure (d, w) of (r, (_, w')) \<Rightarrow>
       (case r of Ok out \<Rightarrow> out | Err out \<Rightarrow> out | Panic \<Rightarrow> br_panic B, w'))"

definition answer ::
  "('p, 'o) bridge \<Rightarrow> ('a \<Rightarrow> bytes) \<Rightarrow> ('e \<Rightarrow> bytes) \<Rightarrow> ('w, 'e, 'a) eff \<Rightarrow> 'w \<Rightarrow> 'o \<times> 'w" where
  "answer B enc_ok enc_err m w =
     (case m w of (r, w') \<Rightarrow>
       (case r of Ok x \<Rightarrow> br_ok B (enc_ok x) | Err e \<Rightarrow> br_err B (enc_err e) | Panic \<Rightarrow> br_panic B, w'))"

lemma wrap_sync_run: "wrap_sync B c p rl dl = run_closure B c (br_message B p rl dl)"
  by (simp add: fun_eq_iff wrap_sync_def run_closure_def)

lemma run_decode:
  assumes "\<And>e d'. dec d \<noteq> (Err e, d')"
  shows "run_closure B (ebind (on_self dec) f) d w =
    (case dec d of (Ok x, r) \<Rightarrow> run_closure B (f x) r w | _ \<Rightarrow> (br_panic B, w))"
  using assms by (auto simp: run_closure_def ebind_def on_self_def split: prod.splits result.splits)

lemma run_end:
  "run_closure B (ebind (on_self (sse_end B)) (\<lambda>_. transform_result_sse B e1 e2 m)) d w =
     (if br_end B d then answer B e1 e2 m w else (br_panic B, w))"
  by (auto simp: run_closure_def sse_end_def transform_result_sse_def answer_def ebind_def on_self_def
      on_world_def emap_err_def split: prod.splits result.splits)

lemma answer_no_panic:
  assumes "bridge_ok B" "fst (m w) \<noteq> Panic"
  shows "fst (answer B e1 e2 m w) \<noteq> br_panic B"
  using assms bridge_okD(5,6) [OF assms(1)]
  by (auto simp: answer_def split: prod.splits result.splits)

lemma frb_no_panic:
  assumes "crypto_ok C"
  shows "fst (frb_hybrid_encap C pub w) \<noteq> Panic" "frb_hybrid_decap C ct priv \<noteq> Panic"
    "frb_derive_dm_message_key C secret e i \<noteq> Panic"
proof -
  have "fst (hybrid_encap C pub w) \<noteq> Panic" by (rule hybrid_encap_no_panic [OF assms])
  then show "fst (frb_hybrid_encap C pub w) \<noteq> Panic"
    by (auto simp: frb_hybrid_encap_def ebind_def emap_err_def split: prod.splits result.splits)
  show "frb_hybrid_decap C ct priv \<noteq> Panic"
    using hybrid_decap_no_panic [OF assms] by (simp add: frb_hybrid_decap_def)
  show "frb_derive_dm_message_key C secret e i \<noteq> Panic"
    using derive_dm_no_panic [OF assms] by (simp add: frb_derive_dm_message_key_def)
qed

text \<open>The messages each function accepts: its arguments, encoded in order, and a rest that \<open>end\<close> accepts.\<close>

definition args_ok :: "('p, 'o) bridge \<Rightarrow> u32 \<Rightarrow> bytes \<Rightarrow> bool" where
  "args_ok B func_id d \<longleftrightarrow>
     (if func_id = 1 then \<exists>s e i r. length s < 2 ^ 31 \<and> br_end B r \<and>
        d = sse_encode_vec_u8 B s @ sse_encode_u64 B e @ sse_encode_u64 B i @ r
      else if func_id = 2 then \<exists>ct k r. length ct < 2 ^ 31 \<and> length k < 2 ^ 31 \<and> br_end B r \<and>
        d = sse_encode_vec_u8 B ct @ sse_encode_vec_u8 B k @ r
      else if func_id = 3 then \<exists>k r. length k < 2 ^ 31 \<and> br_end B r \<and> d = sse_encode_vec_u8 B k @ r
      else br_end B d)"

lemmas wire_defs = wire_derive_dm_message_key_def wire_hybrid_decap_def wire_hybrid_encap_def
  wire_hybrid_keypair_def wire_suite_id_def wire_wire_sizes_def

lemmas run_simps = wrap_sync_run run_end run_decode [OF vec_u8_sse.dec_no_err] run_decode [OF u64_sse.dec_no_err]

text \<open>A function whose arguments are accepted answers with the result of the surface.\<close>

lemma wire_answers:
  assumes B: "bridge_ok B" and e: "br_end B r"
  shows "br_message B p rl dl = sse_encode_vec_u8 B s @ sse_encode_u64 B ep @ sse_encode_u64 B i @ r \<Longrightarrow>
      length s < 2 ^ 31 \<Longrightarrow> wire_derive_dm_message_key C B p rl dl w =
        answer B (sse_encode_vec_u8 B) (sse_encode_string B) (lift (frb_derive_dm_message_key C s ep i)) w"
    and "br_message B p rl dl = sse_encode_vec_u8 B ct @ sse_encode_vec_u8 B k @ r \<Longrightarrow>
      length ct < 2 ^ 31 \<Longrightarrow> length k < 2 ^ 31 \<Longrightarrow> wire_hybrid_decap C B p rl dl w =
        answer B (sse_encode_vec_u8 B) (sse_encode_string B) (lift (frb_hybrid_decap C ct k)) w"
    and "br_message B p rl dl = sse_encode_vec_u8 B k @ r \<Longrightarrow> length k < 2 ^ 31 \<Longrightarrow>
      wire_hybrid_encap C B p rl dl w =
        answer B (sse_encode_encap_result B) (sse_encode_string B) (frb_hybrid_encap C k) w"
    and "br_message B p rl dl = r \<Longrightarrow> wire_hybrid_keypair C B p rl dl w =
        answer B (sse_encode_hybrid_key_pair B) sse_encode_unit (call (frb_hybrid_keypair C)) w"
    and "br_message B p rl dl = r \<Longrightarrow> wire_suite_id B p rl dl w =
        answer B (sse_encode_string B) sse_encode_unit (lift (Ok frb_suite_id)) w"
    and "br_message B p rl dl = r \<Longrightarrow> wire_wire_sizes B p rl dl w =
        answer B (sse_encode_vec_u64 B) sse_encode_unit (lift (Ok frb_wire_sizes)) w"
  using e by (simp_all add: wire_defs run_simps vec_u8_sse.dec_enc [OF B] u64_sse.dec_enc [OF B])

lemma wire_rejects:
  assumes B: "bridge_ok B" and d: "br_message B p rl dl = d"
  shows "\<not> args_ok B 1 d \<Longrightarrow> wire_derive_dm_message_key C B p rl dl w = (br_panic B, w)"
    and "\<not> args_ok B 2 d \<Longrightarrow> wire_hybrid_decap C B p rl dl w = (br_panic B, w)"
    and "\<not> args_ok B 3 d \<Longrightarrow> wire_hybrid_encap C B p rl dl w = (br_panic B, w)"
    and "\<not> br_end B d \<Longrightarrow> wire_hybrid_keypair C B p rl dl w = (br_panic B, w)"
    and "\<not> br_end B d \<Longrightarrow> wire_suite_id B p rl dl w = (br_panic B, w)"
    and "\<not> br_end B d \<Longrightarrow> wire_wire_sizes B p rl dl w = (br_panic B, w)"
  using d
  by (auto simp: wire_defs run_simps args_ok_def split: prod.splits result.splits
      dest!: vec_u8_sse.dec_canonical [OF B] u64_sse.dec_canonical [OF B])

lemma wire_accepts:
  assumes C: "crypto_ok C" and B: "bridge_ok B" and d: "br_message B p rl dl = d"
  shows "args_ok B 1 d \<Longrightarrow> fst (wire_derive_dm_message_key C B p rl dl w) \<noteq> br_panic B"
    and "args_ok B 2 d \<Longrightarrow> fst (wire_hybrid_decap C B p rl dl w) \<noteq> br_panic B"
    and "args_ok B 3 d \<Longrightarrow> fst (wire_hybrid_encap C B p rl dl w) \<noteq> br_panic B"
    and "br_end B d \<Longrightarrow> fst (wire_hybrid_keypair C B p rl dl w) \<noteq> br_panic B"
    and "br_end B d \<Longrightarrow> fst (wire_suite_id B p rl dl w) \<noteq> br_panic B"
    and "br_end B d \<Longrightarrow> fst (wire_wire_sizes B p rl dl w) \<noteq> br_panic B"
proof -
  note np = answer_no_panic [OF B] frb_no_panic [OF C]
  show "args_ok B 1 d \<Longrightarrow> fst (wire_derive_dm_message_key C B p rl dl w) \<noteq> br_panic B"
    using wire_answers(1) [OF B, where C = C] d by (auto simp: args_ok_def np)
  show "args_ok B 2 d \<Longrightarrow> fst (wire_hybrid_decap C B p rl dl w) \<noteq> br_panic B"
    using wire_answers(2) [OF B, where C = C] d by (auto simp: args_ok_def np)
  show "args_ok B 3 d \<Longrightarrow> fst (wire_hybrid_encap C B p rl dl w) \<noteq> br_panic B"
    using wire_answers(3) [OF B, where C = C] d by (auto simp: args_ok_def np)
  show "br_end B d \<Longrightarrow> fst (wire_hybrid_keypair C B p rl dl w) \<noteq> br_panic B"
    using wire_answers(4) [OF B, where C = C] d by (auto simp: np call_def split: prod.splits)
  show "br_end B d \<Longrightarrow> fst (wire_suite_id B p rl dl w) \<noteq> br_panic B"
    using wire_answers(5) [OF B, where w = w] d by (auto simp: np)
  show "br_end B d \<Longrightarrow> fst (wire_wire_sizes B p rl dl w) \<noteq> br_panic B"
    using wire_answers(6) [OF B, where w = w] d by (auto simp: np)
qed

lemma call_outcome:
  assumes "\<not> A \<Longrightarrow> f w = (br_panic B, w)" "A \<Longrightarrow> fst (f w) \<noteq> br_panic B"
  shows "\<exists>out w'. call f w = (Ok out, w') \<and> (out = br_panic B \<longleftrightarrow> \<not> A) \<and> (out = br_panic B \<longrightarrow> w' = w)"
  using assms by (cases A) (auto simp: call_def split: prod.splits)

text \<open>
  C20: What a call over the bridge can do. A function id other than 1 to 6 panics in the dispatcher, and the
  asynchronous dispatcher always panics, there being no asynchronous function. For the six functions
  the dispatcher always answers; the answer is a caught panic exactly when the message is not the
  function's arguments in their encoding, and then no random byte is consumed.
\<close>

theorem dispatch_outcomes:
  assumes "crypto_ok C" "bridge_ok B"
  shows "(func_id \<notin> {1, 2, 3, 4, 5, 6} \<longrightarrow> pde_ffi_dispatcher_sync C B func_id p rl dl w = (Panic, w)) \<and>
    pde_ffi_dispatcher_primary func_id port p rl dl w = (Panic, w) \<and>
    (func_id \<in> {1, 2, 3, 4, 5, 6} \<longrightarrow>
       (\<exists>out w'. pde_ffi_dispatcher_sync C B func_id p rl dl w = (Ok out, w') \<and>
          (out = br_panic B \<longleftrightarrow> \<not> args_ok B func_id (br_message B p rl dl)) \<and>
          (out = br_panic B \<longrightarrow> w' = w)))"
proof -
  note no = wire_rejects [OF assms(2) refl, of p rl dl] and yes = wire_accepts [OF assms refl, of p rl dl]
  have "\<exists>out w'. pde_ffi_dispatcher_sync C B func_id p rl dl w = (Ok out, w') \<and>
      (out = br_panic B \<longleftrightarrow> \<not> args_ok B func_id (br_message B p rl dl)) \<and> (out = br_panic B \<longrightarrow> w' = w)"
    if "func_id \<in> {1, 2, 3, 4, 5, 6}"
    using that unfolding insert_iff empty_iff
  proof (elim disjE FalseE)
    assume "func_id = 1"
    then show ?thesis
      using call_outcome [of _ "wire_derive_dm_message_key C B p rl dl" w B, OF no(1) yes(1)]
      by (simp add: pde_ffi_dispatcher_sync_def)
  next
    assume "func_id = 2"
    then show ?thesis
      using call_outcome [of _ "wire_hybrid_decap C B p rl dl" w B, OF no(2) yes(2)]
      by (simp add: pde_ffi_dispatcher_sync_def)
  next
    assume "func_id = 3"
    then show ?thesis
      using call_outcome [of _ "wire_hybrid_encap C B p rl dl" w B, OF no(3) yes(3)]
      by (simp add: pde_ffi_dispatcher_sync_def)
  next
    assume "func_id = 4"
    then show ?thesis
      using call_outcome [of _ "wire_hybrid_keypair C B p rl dl" w B, OF no(4) yes(4)]
      by (simp add: pde_ffi_dispatcher_sync_def args_ok_def)
  next
    assume "func_id = 5"
    then show ?thesis
      using call_outcome [of _ "wire_suite_id B p rl dl" w B, OF no(5) yes(5)]
      by (simp add: pde_ffi_dispatcher_sync_def args_ok_def)
  next
    assume "func_id = 6"
    then show ?thesis
      using call_outcome [of _ "wire_wire_sizes B p rl dl" w B, OF no(6) yes(6)]
      by (simp add: pde_ffi_dispatcher_sync_def args_ok_def)
  qed
  then show ?thesis by (auto simp: pde_ffi_dispatcher_sync_def pde_ffi_dispatcher_primary_def)
qed

theorem dispatch_outcomes_witness:
  "pde_ffi_dispatcher_sync toy toy_bridge 2 [0, 0] 0 2 5 = (Ok (''panic'', []), 5)"
proof -
  have "\<not> args_ok toy_bridge 2 (br_message toy_bridge [0, 0] 0 2)"
    by (auto simp: args_ok_def toy_bridge_def sse_encode_vec_u8_def sse_encode_i32_def
        dest!: arg_cong [where f = length])
  moreover have "br_panic toy_bridge = (''panic'', [])" by (simp add: toy_bridge_def)
  ultimately show ?thesis
    using dispatch_outcomes [OF toy_ok toy_bridge_ok, of 2 "[0, 0]" 0 2 5 "()", THEN conjunct2, THEN conjunct2] by auto
qed

text \<open>
  C19: A call over the bridge is a call of the surface. When a message holds the arguments in their encoding,
  the answer is the encoding of what the surface returns, or its error text; for a generated key the
  encapsulation's answer reads back as its two fields, and sending the ciphertext and the private key
  to \<open>hybrid_decap\<close> answers with the same secret.
\<close>

theorem bridge_calls:
  assumes "crypto_ok C" "bridge_ok B" "generated_pair C pub priv"
  shows "(length s < 2 ^ 31 \<and> br_message B p rl dl = sse_encode_vec_u8 B s @ sse_encode_u64 B e @ sse_encode_u64 B i \<longrightarrow>
       pde_ffi_dispatcher_sync C B 1 p rl dl w = (Ok
         (case frb_derive_dm_message_key C s e i of Ok k \<Rightarrow> br_ok B (sse_encode_vec_u8 B k)
          | Err x \<Rightarrow> br_err B (sse_encode_string B x) | Panic \<Rightarrow> br_panic B), w)) \<and>
    (length s < 2 ^ 31 \<and> length priv' < 2 ^ 31 \<and> br_message B p rl dl = sse_encode_vec_u8 B s @ sse_encode_vec_u8 B priv' \<longrightarrow>
       pde_ffi_dispatcher_sync C B 2 p rl dl w = (Ok
         (case frb_hybrid_decap C s priv' of Ok k \<Rightarrow> br_ok B (sse_encode_vec_u8 B k)
          | Err x \<Rightarrow> br_err B (sse_encode_string B x) | Panic \<Rightarrow> br_panic B), w)) \<and>
    (br_message B p rl dl = sse_encode_vec_u8 B pub \<longrightarrow>
       (\<exists>r w'. pde_ffi_dispatcher_sync C B 3 p rl dl w = (Ok (br_ok B (sse_encode_encap_result B r)), w') \<and>
          frb_hybrid_encap C pub w = (Ok r, w') \<and>
          (sse_decode_encap_result B :: ('e, frb_encap_result) decoder) (sse_encode_encap_result B r) = (Ok r, []) \<and>
          (\<forall>q ql dl v. br_message B q ql dl = sse_encode_vec_u8 B (fer_ciphertext r) @ sse_encode_vec_u8 B priv \<longrightarrow>
             pde_ffi_dispatcher_sync C B 2 q ql dl v = (Ok (br_ok B (sse_encode_vec_u8 B (fer_shared_secret r))), v)))) \<and>
    (br_message B p rl dl = [] \<longrightarrow>
       pde_ffi_dispatcher_sync C B 5 p rl dl w = (Ok (br_ok B (sse_encode_string B SUITE_ID)), w) \<and>
       pde_ffi_dispatcher_sync C B 6 p rl dl w = (Ok (br_ok B (sse_encode_vec_u64 B [1216, 2432, 1120, 32])), w))"
proof -
  note B = assms(2)
  note a = wire_answers(1-3) [OF B bridge_okD(4) [OF B], unfolded append_Nil2, where C = C]
    wire_answers(5-6) [OF B bridge_okD(4) [OF B], where w = w]
  note disp = pde_ffi_dispatcher_sync_def call_def answer_def
  obtain ct ss w' where e: "hybrid_encap C pub w = (Ok (ct, ss), w')" "length ct = 1120" "length ss = 32"
      "hybrid_decap C ct priv = Ok ss"
    using hybrid_roundtrip [OF assms(1,3)] by blast
  have l: "length pub = 1216" "length priv = 2432" using generated_pair_lengths [OF assms(1,3)] by (simp_all add: len_simps)
  let ?r = "\<lparr>fer_ciphertext = ct, fer_shared_secret = ss\<rparr>"
  have enc: "frb_hybrid_encap C pub w = (Ok ?r, w')"
    using e(1) by (simp add: frb_hybrid_encap_def emap_err_def ebind_def)
  have dec: "frb_hybrid_decap C ct priv = Ok ss" using e(4) by (simp add: frb_hybrid_decap_def)
  have reads: "(sse_decode_encap_result B :: ('e, frb_encap_result) decoder) (sse_encode_encap_result B ?r) = (Ok ?r, [])"
    using encap_result_sse.dec_enc [OF B, of ?r "[]"] e by simp
  have one: "pde_ffi_dispatcher_sync C B 3 p rl dl w = (Ok (br_ok B (sse_encode_encap_result B ?r)), w')"
    if "br_message B p rl dl = sse_encode_vec_u8 B pub"
    using a(3) [OF that] l enc by (simp add: disp)
  have two: "pde_ffi_dispatcher_sync C B 2 q ql dl v = (Ok (br_ok B (sse_encode_vec_u8 B ss)), v)"
    if "br_message B q ql dl = sse_encode_vec_u8 B ct @ sse_encode_vec_u8 B priv" for q ql dl v
    using a(2) [OF that] l e dec by (simp add: disp)
  have sizes: "frb_wire_sizes = [1216, 2432, 1120, 32]" by (simp add: frb_wire_sizes_def len_simps)
  show ?thesis
    using a(1) a(2) a(4) a(5) one two enc reads by (auto simp: disp frb_suite_id_def sizes)
qed

theorem bridge_calls_witness:
  "\<exists>r w'. pde_ffi_dispatcher_sync toy toy_bridge 3 (sse_encode_vec_u8 toy_bridge toy_pub) 0 0 0 =
      (Ok (''ok'', sse_encode_encap_result toy_bridge r), w') \<and>
    pde_ffi_dispatcher_sync toy toy_bridge 2
        (sse_encode_vec_u8 toy_bridge (fer_ciphertext r) @ sse_encode_vec_u8 toy_bridge toy_priv) 0 0 w' =
      (Ok (''ok'', sse_encode_vec_u8 toy_bridge (fer_shared_secret r)), w')"
proof -
  have g: "generated_pair toy toy_pub toy_priv" by (simp add: toy_def)
  have sel: "br_message toy_bridge p a b = p" "br_ok toy_bridge x = (''ok'', x)" for p a b x
    by (simp_all add: toy_bridge_def)
  show ?thesis
    using bridge_calls [where 'e = unit, OF toy_ok toy_bridge_ok g, of _ "sse_encode_vec_u8 toy_bridge toy_pub" 0 0,
        THEN conjunct2, THEN conjunct2, THEN conjunct1] sel by metis
qed

end
