(* ===== verification/Dm_Isolation.thy ===== *)
theory Dm_Isolation
  imports Dm_Delivery Dm_Snapshot
begin

text \<open>
  The epochs of a receiver are independent of each other. What \<open>open\<close> of \<open>src/dm_session.rs\<close> does with a
  frame depends on the frame and on what the session knows of the frame's epoch, and changes nothing
  else: so frames of one epoch, whoever made them, have no influence on the frames of another.
\<close>

subsection \<open>One frame\<close>

definition secret_at :: "'f dm_session \<Rightarrow> u64 \<Rightarrow> bytes option" where
  "secret_at s e = map_of (ds_epoch_secrets s) e"

lemma secret_at_insert [simp]: "secret_at (insert_secret e k s) e' = (if e' = e then Some k else secret_at s e')"
  by (simp add: secret_at_def insert_secret_def update_conv')

lemma open_elsewhere:
  "e \<noteq> sf_epoch f \<Longrightarrow> secret_at (snd (dm_open C f priv s)) e = secret_at s e"
  by (auto simp: dm_open_eq split: option.split result.split)

lemma open_here:
  assumes "secret_at s (sf_epoch f) = secret_at s' (sf_epoch f)"
  shows "fst (dm_open C f priv s) = fst (dm_open C f priv s')"
    and "secret_at (snd (dm_open C f priv s)) (sf_epoch f) = secret_at (snd (dm_open C f priv s')) (sf_epoch f)"
  using assms by (auto simp: dm_open_eq secret_at_def [symmetric] split: option.split result.split)

definition same_sender :: "'f dm_session \<Rightarrow> 'f dm_session \<Rightarrow> bool" where
  "same_sender s s' \<longleftrightarrow>
     ds_peer s = ds_peer s' \<and> ds_rekey_msg_bound s = ds_rekey_msg_bound s' \<and>
     ds_rekey_age_seconds s = ds_rekey_age_seconds s' \<and> ds_ratchet s = ds_ratchet s' \<and>
     ds_current_kam s = ds_current_kam s'"

lemma same_session_iff: "same_session s s' \<longleftrightarrow> same_sender s s' \<and> (\<forall>e. secret_at s e = secret_at s' e)"
  by (auto simp: same_session_def same_sender_def secret_at_def fun_eq_iff)

lemma open_same_sender: "same_sender (snd (dm_open C f priv s)) s"
  by (auto simp: same_sender_def dm_open_eq insert_secret_def split: option.split result.split)

subsection \<open>Any sequence of frames\<close>

definition of_epoch :: "u64 \<Rightarrow> sealed_dm_frame list \<Rightarrow> sealed_dm_frame list" where
  "of_epoch e fs = filter (\<lambda>f. sf_epoch f = e) fs"

text \<open>The outcomes of the frames of one epoch among the outcomes of all.\<close>

definition outcomes_of :: "u64 \<Rightarrow> sealed_dm_frame list \<Rightarrow> 'a list \<Rightarrow> 'a list" where
  "outcomes_of e fs rs = map snd (filter (\<lambda>(f, r). sf_epoch f = e) (zip fs rs))"

lemma of_epoch_simps [simp]:
  "of_epoch e [] = []"
  "of_epoch e (f # fs) = (if sf_epoch f = e then f # of_epoch e fs else of_epoch e fs)"
  by (simp_all add: of_epoch_def)

lemma outcomes_of_simps [simp]:
  "outcomes_of e [] rs = []"
  "outcomes_of e (f # fs) (r # rs) = (if sf_epoch f = e then r # outcomes_of e fs rs else outcomes_of e fs rs)"
  by (simp_all add: outcomes_of_def)

lemma open_all_epoch:
  assumes "secret_at s e = secret_at s' e"
  shows "outcomes_of e fs (fst (dm_open_all C priv fs s)) = fst (dm_open_all C priv (of_epoch e fs) s') \<and>
    secret_at (snd (dm_open_all C priv fs s)) e = secret_at (snd (dm_open_all C priv (of_epoch e fs) s')) e"
  using assms
proof (induction fs arbitrary: s s')
  case (Cons f fs)
  show ?case
  proof (cases "sf_epoch f = e")
    case True
    with Cons.prems have "secret_at s (sf_epoch f) = secret_at s' (sf_epoch f)" by simp
    note here = open_here [OF this, of C priv]
    show ?thesis using Cons.IH [of "snd (dm_open C f priv s)" "snd (dm_open C f priv s')"] here True
      by (simp add: split_beta)
  next
    case False
    then have "secret_at (snd (dm_open C f priv s)) e = secret_at s' e"
      using open_elsewhere [of e f C priv s] Cons.prems by auto
    from Cons.IH [OF this] False show ?thesis by (simp add: split_beta)
  qed
qed simp

lemma open_all_same_sender: "same_sender (snd (dm_open_all C priv fs s)) s"
proof (induction fs arbitrary: s)
  case (Cons f fs)
  then show ?case using open_same_sender [of C f priv s] by (simp add: split_beta same_sender_def)
qed (simp add: same_sender_def)

text \<open>
  C7: The epochs of a receiver are isolated. However frames of several epochs, genuine or forged, are
  interleaved, the frames of one epoch have the outcomes they have when they are opened alone. So two
  sequences that have the same frames of each epoch in the same order open with the same outcomes
  and leave the same session. A panic of one open is its outcome: the frames after it are opened in the
  session it leaves, as a caller that catches the panic does.
\<close>

theorem dm_epoch_isolation:
  "outcomes_of e fs (fst (dm_open_all C priv fs s)) = fst (dm_open_all C priv (of_epoch e fs) s) \<and>
   ((\<forall>e. of_epoch e gs = of_epoch e fs) \<longrightarrow>
      (\<forall>e. outcomes_of e gs (fst (dm_open_all C priv gs s)) = outcomes_of e fs (fst (dm_open_all C priv fs s))) \<and>
      same_session (snd (dm_open_all C priv gs s)) (snd (dm_open_all C priv fs s)))"
proof (intro conjI impI allI)
  show "outcomes_of e fs (fst (dm_open_all C priv fs s)) = fst (dm_open_all C priv (of_epoch e fs) s)"
    by (simp add: open_all_epoch)
next
  fix e assume "\<forall>e. of_epoch e gs = of_epoch e fs"
  then show "outcomes_of e gs (fst (dm_open_all C priv gs s)) = outcomes_of e fs (fst (dm_open_all C priv fs s))"
    using open_all_epoch [of s e s gs C priv] open_all_epoch [of s e s fs C priv] by simp
next
  assume h: "\<forall>e. of_epoch e gs = of_epoch e fs"
  have "secret_at (snd (dm_open_all C priv gs s)) e = secret_at (snd (dm_open_all C priv fs s)) e" for e
    using open_all_epoch [of s e s gs C priv] open_all_epoch [of s e s fs C priv] h by simp
  moreover have "same_sender (snd (dm_open_all C priv gs s)) (snd (dm_open_all C priv fs s))"
    using open_all_same_sender [of C priv gs s] open_all_same_sender [of C priv fs s] by (simp add: same_sender_def)
  ultimately show "same_session (snd (dm_open_all C priv gs s)) (snd (dm_open_all C priv fs s))"
    by (simp add: same_session_iff)
qed

text \<open>A frame of an unknown epoch between two frames of another one.\<close>

definition frame_in :: "u64 \<Rightarrow> u64 \<Rightarrow> bytes option \<Rightarrow> sealed_dm_frame" where
  "frame_in e i kam = \<lparr>sf_epoch = e, sf_index = i, sf_nonce = replicate 12 0, sf_body = replicate 16 0, sf_kam = kam\<rparr>"

theorem dm_epoch_isolation_witness:
  "same_session
     (snd (dm_open_all toy toy_priv [frame_in 1 0 None, frame_in 0 0 (Some []), frame_in 0 1 None] toy_session))
     (snd (dm_open_all toy toy_priv [frame_in 0 0 (Some []), frame_in 0 1 None, frame_in 1 0 None] toy_session))"
  by (rule dm_epoch_isolation [THEN conjunct2, THEN mp, THEN conjunct2]) (simp add: frame_in_def)

end
