(* ===== verification/Dm_Counting.thy ===== *)
theory Dm_Counting
  imports Dm_Properties
begin

text \<open>
  Which slot the next frame of a session gets (\<open>seal\<close> of \<open>src/dm_session.rs\<close>), when the clock never
  reaches the age bound: the frames fill the epochs one after the other, each up to the message bound.
\<close>

text \<open>No two readings of the clock are an epoch's maximal age apart.\<close>

definition clock_steady :: "('w, 'f :: {minus, ord, zero}, 'z) sys_scheme \<Rightarrow> u64 \<Rightarrow> bool" where
  "clock_steady S age \<longleftrightarrow>
     (\<forall>w w'. \<not> as_f64 S age \<le> fst (now_seconds S w') - fst (now_seconds S w))"

text \<open>Messages per epoch: a bound of zero still lets one message through.\<close>

definition per_epoch :: "u64 \<Rightarrow> nat" where
  "per_epoch bound = max 1 (unat bound)"

lemma per_epoch_pos [simp]: "0 < per_epoch bound"
  by (simp add: per_epoch_def)

text \<open>The ratchet of a session that has sealed \<open>n\<close> messages.\<close>

definition at_count :: "('w, 'f :: {minus, ord, zero}, 'z) sys_scheme \<Rightarrow> 'f dm_session \<Rightarrow> nat \<Rightarrow> bool" where
  "at_count S s n \<longleftrightarrow> session_wf s \<and>
     (case ds_ratchet s of
        None \<Rightarrow> n = 0
      | Some r \<Rightarrow> \<exists>p w. n = Suc p \<and> dr_epoch r = of_nat (p div per_epoch (ds_rekey_msg_bound s)) \<and>
          dr_message_index r = of_nat (Suc (p mod per_epoch (ds_rekey_msg_bound s))) \<and>
          dr_epoch_started_at r = fst (now_seconds S w))"

lemma at_count_init: "at_count S (dm_session_with_bounds peer bound age) 0"
  by (simp add: at_count_def) (simp add: dm_session_with_bounds_def)

text \<open>The counter of the ratchet has reached the bound exactly when the epoch is full.\<close>

lemma epoch_full_iff: "bound \<le> of_nat (Suc (p mod per_epoch bound)) \<longleftrightarrow> Suc (p mod per_epoch bound) = per_epoch bound"
proof -
  have p: "p mod per_epoch bound < per_epoch bound" by simp
  have "per_epoch bound < 2 ^ 64"
    using unsigned_less [of bound, where ?'a = nat] by (simp add: per_epoch_def)
  then have "Suc (p mod per_epoch bound) < 2 ^ 64" using p by (rule le_less_trans [OF Suc_leI, rotated])
  then have "unat (of_nat (Suc (p mod per_epoch bound)) :: u64) = Suc (p mod per_epoch bound)"
    by (simp add: unat_of_nat del: of_nat_Suc)
  then have "bound \<le> of_nat (Suc (p mod per_epoch bound)) \<longleftrightarrow> unat bound \<le> Suc (p mod per_epoch bound)"
    by (simp only: word_le_nat_alt)
  also have "\<dots> \<longleftrightarrow> per_epoch bound \<le> Suc (p mod per_epoch bound)" by (subst (2) per_epoch_def) simp
  finally show ?thesis using p by linarith
qed

lemma rekey_when_full:
  assumes "clock_steady S (dr_rekey_age_seconds r)" "dr_epoch_started_at r = fst (now_seconds S v)"
    and "dm_should_rekey S r None w = (b, w')"
  shows "b \<longleftrightarrow> dr_rekey_msg_bound r \<le> dr_message_index r"
proof -
  obtain t w1 where t: "now_seconds S w = (t, w1)" by (metis surj_pair)
  have "\<not> as_f64 S (dr_rekey_age_seconds r) \<le> t - dr_epoch_started_at r"
    using assms(1,2) t unfolding clock_steady_def by (metis fst_conv)
  then show ?thesis using assms(3) t by (auto simp: dm_should_rekey_def should_rekey_iff)
qed

text \<open>What a frame sealed in the session \<open>s1\<close>, once its epoch is settled, is and leaves.\<close>

lemma emitted:
  assumes C: "crypto_ok S" and en: "ensure_epoch S pub (s, w) = (Ok (), (s1, w1))"
    and r: "ds_ratchet s1 = Some r" "length (dr_epoch_secret r) = 32"
    and seal: "dm_seal S m pub (s, w) = (Ok f, (s', w'))"
  shows "sf_epoch f = dr_epoch r \<and> sf_index f = dr_message_index r \<and> s' = advanced s1"
proof -
  have em: "emit_frame S m (s1, w1) = (Ok f, (s', w'))"
    using seal en by (simp add: dm_seal_def ebind_def)
  show ?thesis by (rule emit_frame_cases [OF C r em]) simp_all
qed

lemma seal_begins:
  assumes C: "crypto_ok S" and en: "ensure_epoch S pub (s, w) = begin_epoch S e pub (s, v)"
    and seal: "dm_seal S m pub (s, w) = (Ok f, (s', w'))"
  obtains r t where "sf_epoch f = e" "sf_index f = 0" "ds_ratchet s' = Some r" "dr_epoch r = e" "dr_message_index r = 1"
    "dr_epoch_started_at r = fst (now_seconds S t)" "ds_rekey_msg_bound s' = ds_rekey_msg_bound s"
    "ds_rekey_age_seconds s' = ds_rekey_age_seconds s"
proof -
  obtain r1 s1 w1 where b: "begin_epoch S e pub (s, v) = (r1, (s1, w1))" by (metis surj_pair)
  show thesis
  proof (rule begin_epoch_cases [OF C b], goal_cases)
    case (1 x)
    then show thesis using seal en b by (simp add: dm_seal_def ebind_def)
  next
    case (2 secret kam t v1 v2)
    let ?r = "\<lparr>dr_epoch = e, dr_epoch_secret = secret, dr_message_index = 0,
      dr_rekey_msg_bound = ds_rekey_msg_bound s, dr_rekey_age_seconds = ds_rekey_age_seconds s,
      dr_epoch_started_at = t\<rparr>"
    have r: "ds_ratchet s1 = Some ?r" using 2 by (simp add: opened_epoch_def)
    have "sf_epoch f = dr_epoch ?r \<and> sf_index f = dr_message_index ?r \<and> s' = advanced s1"
      by (rule emitted [OF C _ r _ seal]) (use en b 2 in simp_all)
    then show thesis
      using 2 by (intro that [of "?r\<lparr>dr_message_index := 1\<rparr>" v2])
        (simp_all add: advanced_def opened_epoch_def insert_secret_def)
  qed
qed

lemma seal_count_step:
  assumes C: "crypto_ok S" and steady: "clock_steady S (ds_rekey_age_seconds s)" and n: "at_count S s n"
    and seal: "dm_seal S m pub (s, w) = (Ok f, (s', w'))"
  shows "sf_epoch f = of_nat (n div per_epoch (ds_rekey_msg_bound s)) \<and>
    sf_index f = of_nat (n mod per_epoch (ds_rekey_msg_bound s)) \<and> at_count S s' (Suc n) \<and>
    ds_rekey_msg_bound s' = ds_rekey_msg_bound s \<and> ds_rekey_age_seconds s' = ds_rekey_age_seconds s"
proof -
  let ?k = "per_epoch (ds_rekey_msg_bound s)"
  have wf: "session_wf s" using n by (simp add: at_count_def)
  have wf': "session_wf s'" by (rule dm_seal_wf [OF C wf seal])
  show ?thesis
  proof (cases "ds_ratchet s")
    case None
    then have "n = 0" using n by (simp add: at_count_def)
    show ?thesis
      by (rule seal_begins [OF C ensure_epoch_None [OF None] seal])
        (use wf' \<open>n = 0\<close> in \<open>auto simp: at_count_def\<close>)
  next
    case (Some r)
    then obtain p v where p: "n = Suc p" "dr_epoch r = of_nat (p div ?k)"
      "dr_message_index r = of_nat (Suc (p mod ?k))" "dr_epoch_started_at r = fst (now_seconds S v)"
      using n by (auto simp: at_count_def)
    have rb: "dr_rekey_msg_bound r = ds_rekey_msg_bound s" "dr_rekey_age_seconds r = ds_rekey_age_seconds s"
      using wf Some by (simp_all add: session_wf_def)
    obtain b w1 where b: "dm_should_rekey S r None w = (b, w1)" by (metis surj_pair)
    have full: "b \<longleftrightarrow> Suc (p mod ?k) = ?k"
      using rekey_when_full [OF _ p(4) b] steady by (simp only: rb p(3) epoch_full_iff)
    note en = ensure_epoch_Some [OF Some b, of pub]
    show ?thesis
    proof (cases b)
      case True
      with en have "ensure_epoch S pub (s, w) = begin_epoch S (dr_epoch r + 1) pub (s, w1)" by simp
      then show ?thesis
        by (rule seal_begins [OF C _ seal])
          (use wf' True full p in \<open>auto simp: at_count_def div_Suc mod_Suc intro!: exI [of _ "Suc p"]\<close>)
    next
      case False
      with en have "ensure_epoch S pub (s, w) = (Ok (), (s, w1))" by simp
      from emitted [OF C this Some session_wf_ratchet(2) [OF wf Some] seal]
      have f: "sf_epoch f = dr_epoch r" "sf_index f = dr_message_index r" "s' = advanced s" by simp_all
      have k: "n div ?k = p div ?k" "n mod ?k = Suc (p mod ?k)"
        using False full by (simp_all add: p(1) div_Suc mod_Suc)
      show ?thesis
        using wf' f p k Some by (auto simp: at_count_def advanced_def intro!: exI [of _ v])
    qed
  qed
qed

text \<open>A run: the frame of the \<open>i\<close>-th message is in slot \<open>(i div k, i mod k)\<close>.\<close>

lemma seal_count_run:
  assumes C: "crypto_ok S" and steady: "clock_steady S (ds_rekey_age_seconds s)" and n: "at_count S s n"
    and run: "dm_seal_all S pub ms (s, w) = (Ok fs, (s', w'))" and i: "i < length ms"
  shows "sf_epoch (fs ! i) = of_nat ((n + i) div per_epoch (ds_rekey_msg_bound s)) \<and>
    sf_index (fs ! i) = of_nat ((n + i) mod per_epoch (ds_rekey_msg_bound s))"
  using steady n run i
proof (induction ms arbitrary: s w n fs i)
  case (Cons m ms)
  obtain f s1 w1 gs where f: "dm_seal S m pub (s, w) = (Ok f, (s1, w1))"
    and gs: "dm_seal_all S pub ms (s1, w1) = (Ok gs, (s', w'))" "fs = f # gs"
    using Cons.prems(3) by (auto simp: ebind_eq_Ok_iff)
  note step = seal_count_step [OF C Cons.prems(1,2) f]
  show ?case
  proof (cases i)
    case 0
    then show ?thesis using step gs by simp
  next
    case (Suc j)
    have "sf_epoch (gs ! j) = of_nat ((Suc n + j) div per_epoch (ds_rekey_msg_bound s1)) \<and>
        sf_index (gs ! j) = of_nat ((Suc n + j) mod per_epoch (ds_rekey_msg_bound s1))"
      using step Cons.prems(1,4) Suc by (intro Cons.IH [OF _ _ gs(1)]) simp_all
    then show ?thesis using Suc gs(2) step by simp
  qed
qed simp

subsection \<open>The slot of a message\<close>

lemma less_KAM_REPEAT_iff: "n < 2 ^ 64 \<Longrightarrow> (of_nat n :: u64) < KAM_REPEAT \<longleftrightarrow> n < 3"
  by (simp add: KAM_REPEAT_def word_less_nat_alt unat_of_nat)

lemma mod_per_epoch_less: "i mod per_epoch bound < 2 ^ 64"
proof -
  have "per_epoch bound < 2 ^ 64"
    using unsigned_less [of bound, where ?'a = nat] by (simp add: per_epoch_def)
  then show ?thesis by (rule less_trans [rotated]) simp
qed

lemma slots_run:
  assumes "crypto_ok S" "generated_pair S pub priv" "length ms \<le> 2 ^ 64" "\<forall>m \<in> set ms. length m \<le> GCM_MAX"
    and "clock_steady S age"
  shows "\<exists>fs s' w'. dm_seal_all S pub ms (dm_session_with_bounds peer bound age, w) = (Ok fs, (s', w')) \<and>
    length fs = length ms \<and>
    (\<forall>i < length ms. sf_epoch (fs ! i) = of_nat (i div per_epoch bound) \<and>
       sf_index (fs ! i) = of_nat (i mod per_epoch bound) \<and> (sf_kam (fs ! i) \<noteq> None \<longleftrightarrow> i mod per_epoch bound < 3))"
proof -
  let ?s = "dm_session_with_bounds peer bound age"
  obtain fs s' w' where run: "dm_seal_all S pub ms (?s, w) = (Ok fs, (s', w'))"
    and d: "list_all2 (deliverable S priv (map_of (ds_epoch_secrets s'))) fs ms"
    and sh: "\<forall>f \<in> set fs. frame_shape bound f"
    using dm_run_init [OF assms(1-4), of peer bound age w] by blast
  have b: "ds_rekey_msg_bound ?s = bound" "ds_rekey_age_seconds ?s = age"
    by (simp_all add: dm_session_with_bounds_def)
  have len: "length fs = length ms" using d by (rule list_all2_lengthD)
  have "sf_epoch (fs ! i) = of_nat (i div per_epoch bound) \<and> sf_index (fs ! i) = of_nat (i mod per_epoch bound)"
    if "i < length ms" for i
    using seal_count_run [OF assms(1) _ at_count_init run that] assms(5) by (simp add: b)
  moreover have "sf_kam f \<noteq> None \<longleftrightarrow> sf_index f < KAM_REPEAT" if "f \<in> set fs" for f
    using sh that by (simp add: frame_shape_def)
  ultimately show ?thesis
    using run len less_KAM_REPEAT_iff [OF mod_per_epoch_less]
    by (intro exI [of _ fs] exI [of _ s'] exI [of _ w']) simp
qed

text \<open>
  C5: The slot of a message. When the clock never reaches the age bound, a session that seals any messages
  puts the \<open>i\<close>-th into epoch \<open>i div k\<close> at index \<open>i mod k\<close>, where \<open>k\<close> is the message bound (one for a bound of
  zero), and sends the key-agreement message with the first three of each epoch.
\<close>

theorem dm_slot_of_message:
  assumes "crypto_ok S" "generated_pair S pub priv" "length ms \<le> 2 ^ 64" "\<forall>m \<in> set ms. length m \<le> GCM_MAX"
    and "clock_steady S age"
  shows "\<exists>fs s' w'. dm_seal_all S pub ms (dm_session_with_bounds peer bound age, w) = (Ok fs, (s', w')) \<and>
    length fs = length ms \<and>
    (\<forall>i < length ms. frame_slot (fs ! i) = Slot (of_nat (i div max 1 (unat bound))) (of_nat (i mod max 1 (unat bound))) \<and>
       (sf_kam (fs ! i) \<noteq> None \<longleftrightarrow> i mod max 1 (unat bound) < 3))"
  using slots_run [OF assms, of peer bound w] unfolding per_epoch_def frame_slot_def by simp

text \<open>A world whose clock stands still.\<close>

definition toy_frozen :: "(nat, int) sys" where
  "toy_frozen = toy_ext \<lparr>system_time = (\<lambda>w. (Some 0, w)), as_f64 = uint\<rparr>"

lemma toy_frozen_ok [simp]: "crypto_ok toy_frozen" "generated_pair toy_frozen toy_pub toy_priv"
  by (simp_all add: toy_frozen_def)

lemma toy_frozen_steady: "age \<noteq> 0 \<Longrightarrow> clock_steady toy_frozen age"
  by (simp add: clock_steady_def now_seconds_def toy_frozen_def toy_ext_def uint_0_iff flip: word_of_int_uint)

theorem dm_slot_of_message_witness:
  "\<exists>fs s' w'. dm_seal_all toy_frozen toy_pub (map lit [''a'', ''b'', ''c'', ''d'', ''e'']) (dm_session_with_bounds ''bob'' 4 60, 0) = (Ok fs, (s', w')) \<and>
     frame_slot (fs ! 3) = Slot 0 3 \<and> sf_kam (fs ! 3) = None \<and> frame_slot (fs ! 4) = Slot 1 0 \<and> sf_kam (fs ! 4) \<noteq> None"
proof -
  let ?ms = "map lit [''a'', ''b'', ''c'', ''d'', ''e'']"
  have "clock_steady toy_frozen 60" by (rule toy_frozen_steady) simp
  from dm_slot_of_message [OF toy_frozen_ok _ _ this, of ?ms "''bob''" 4 0]
  obtain fs s' w' where run: "dm_seal_all toy_frozen toy_pub ?ms (dm_session_with_bounds ''bob'' 4 60, 0) = (Ok fs, (s', w'))"
    and slots: "\<And>i. i < length ?ms \<Longrightarrow> frame_slot (fs ! i) = Slot (of_nat (i div max 1 (unat (4 :: u64)))) (of_nat (i mod max 1 (unat (4 :: u64)))) \<and>
       (sf_kam (fs ! i) \<noteq> None \<longleftrightarrow> i mod max 1 (unat (4 :: u64)) < 3)"
    by (auto simp: GCM_MAX_def)
  show ?thesis using run slots [of 3] slots [of 4] by simp
qed

end
