(* ===== verification/Testing.thy ===== *)
theory Testing
  imports Kem Text
begin

text \<open>
  The vocabulary of the unit tests (\<open>#[cfg(test)] mod tests\<close> of the sources). A test is a computation
  whose only outcomes are to return and to panic: a failed assertion panics, and so does \<open>unwrap\<close> on
  an error. A test that draws random numbers is an effect on the world, and passes when it returns
  in every world. The test theories define the tests as they are written and show that they pass for every
  instance of the primitives, not for one run only.
\<close>

subsection \<open>Assertions\<close>

text \<open>\<open>assert!\<close>, \<open>assert_eq!\<close>, \<open>assert_ne!\<close>.\<close>

definition assert_true :: "bool \<Rightarrow> ('e, unit) result" where
  "assert_true b = (if b then Ok () else Panic)"

definition assert_eq :: "'a \<Rightarrow> 'a \<Rightarrow> ('e, unit) result" where
  "assert_eq x y = assert_true (x = y)"

definition assert_ne :: "'a \<Rightarrow> 'a \<Rightarrow> ('e, unit) result" where
  "assert_ne x y = assert_true (x \<noteq> y)"

text \<open>Assertions one after the other, and the body of a loop for every element.\<close>

fun asserts :: "('e, unit) result list \<Rightarrow> ('e, unit) result" where
  "asserts [] = Ok ()"
| "asserts (a # as) = rbind a (\<lambda>_. asserts as)"

definition for_each :: "'a list \<Rightarrow> ('a \<Rightarrow> ('e, unit) result) \<Rightarrow> ('e, unit) result" where
  "for_each xs body = asserts (map body xs)"

text \<open>\<open>unwrap_err\<close>: the error of a failed call.\<close>

fun unwrap_err :: "('d, 'a) result \<Rightarrow> ('e, 'd) result" where
  "unwrap_err (Err e) = Ok e"
| "unwrap_err _ = Panic"

text \<open>A call whose result is looked at, not unwrapped: only its panic goes on.\<close>

fun observe :: "('d, 'a) result \<Rightarrow> ('e, ('d, 'a) result) result" where
  "observe Panic = Panic"
| "observe r = Ok r"

fun is_err :: "('e, 'a) result \<Rightarrow> bool" where
  "is_err (Err _) = True"
| "is_err _ = False"

text \<open>
  Method calls on a local variable: \<open>x.m(..).unwrap()\<close> for a method that changes the object and reads
  the world (\<open>on_local\<close>), or the object only (\<open>local_result\<close>, which keeps the result).
\<close>

definition eunwrap :: "('w, 'd, 'a) eff \<Rightarrow> ('w, 'e, 'a) eff" where
  "eunwrap m w = (case m w of (r, w') \<Rightarrow> (expect_ok r, w'))"

definition on_local :: "('s \<times> 'w, 'd, 'a) eff \<Rightarrow> 's \<Rightarrow> ('w, 'e, 'a \<times> 's) eff" where
  "on_local m s w = (case m (s, w) of (r, (s', w')) \<Rightarrow> (rbind (expect_ok r) (\<lambda>x. Ok (x, s')), w'))"

definition local_result :: "('s, 'd, 'a) eff \<Rightarrow> 's \<Rightarrow> ('e, ('d, 'a) result \<times> 's) result" where
  "local_result m s = (case m s of (r, s') \<Rightarrow> rbind (observe r) (\<lambda>x. Ok (x, s')))"

definition local_unwrap :: "('s, 'd, 'a) eff \<Rightarrow> 's \<Rightarrow> ('e, 'a \<times> 's) result" where
  "local_unwrap m s = (case m s of (r, s') \<Rightarrow> rbind (expect_ok r) (\<lambda>x. Ok (x, s')))"

text \<open>The test passes, and it passes in every world.\<close>

definition passes :: "(unit, unit) result \<Rightarrow> bool" where
  "passes t \<longleftrightarrow> t = Ok ()"

definition always_passes :: "('w, unit, unit) eff \<Rightarrow> bool" where
  "always_passes t \<longleftrightarrow> (\<forall>w. fst (t w) = Ok ())"

subsection \<open>Evaluation\<close>

named_theorems test_simps \<open>evaluation of tests\<close>

lemma assert_true_eval [simp]: "assert_true True = Ok ()" "assert_true False = Panic"
  by (simp_all add: assert_true_def)

lemma assert_true_eq_Ok [simp]: "assert_true b = Ok () \<longleftrightarrow> b"
  by (simp add: assert_true_def)

declare assert_eq_def [simp] assert_ne_def [simp]

text \<open>All assertions of a list hold when each of them does.\<close>

lemma asserts_OkI: "list_all (\<lambda>a. a = Ok ()) as \<Longrightarrow> asserts as = Ok ()"
  by (induction as) auto

lemma for_each_OkI: "(\<And>x. x \<in> set xs \<Longrightarrow> body x = Ok ()) \<Longrightarrow> for_each xs body = Ok ()"
  unfolding for_each_def by (rule asserts_OkI) (simp add: list_all_iff)

lemma for_each_outcome:
  "(\<And>x. body x = assert_true (P x)) \<Longrightarrow> for_each xs body = assert_true (\<forall>x \<in> set xs. P x)"
  unfolding for_each_def by (induction xs) (auto simp: assert_true_def)

lemma eunwrap_Ok [test_simps]: "m w = (Ok x, w') \<Longrightarrow> eunwrap m w = (Ok x, w')"
  by (simp add: eunwrap_def)

text \<open>The steps of a test that draws a key pair or unwraps a call, and the key pair it gets.\<close>

lemma unwrap_step: "m w = (Ok x, w') \<Longrightarrow> ebind (eunwrap m) k w = k x w'"
  by (simp add: eunwrap_def ebind_def)

text \<open>Two witnesses at once, for the outcomes that name two random draws.\<close>

lemma exI2: "P x y \<Longrightarrow> \<exists>x y. P x y"
  by blast

lemma ebind_lift_lift: "ebind (lift r) (\<lambda>x. lift (f x)) = lift (rbind r f)"
  by (cases r) (simp_all add: fun_eq_iff)

lemma draw_step: "hybrid_keypair C w = (kp, w1) \<Longrightarrow> ebind (call (hybrid_keypair C)) k w = k kp w1"
  by (rule ebind_call)

lemma fill_step: "fill_bytes C n w = (bs, w') \<Longrightarrow> ebind (call (fill_bytes C n)) k w = k bs w'"
  by (rule ebind_call)

lemma drawn_pair: "hybrid_keypair C w = (kp, w1) \<Longrightarrow> generated_pair C (kp_public_key kp) (kp_private_key kp)"
  unfolding generated_pair_def by (rule exI [of _ w]) simp

text \<open>\<open>m.unwrap_err()\<close> and \<open>assert_eq!(m, Err(..))\<close> on a call that reads the world.\<close>

definition eobserve :: "('w, 'd, 'a) eff \<Rightarrow> ('w, 'e, ('d, 'a) result) eff" where
  "eobserve m w = (case m w of (r, w') \<Rightarrow> (observe r, w'))"

lemma observe_step: "m w = (r, w') \<Longrightarrow> r \<noteq> Panic \<Longrightarrow> ebind (eobserve m) k w = k r w'"
  by (cases r) (simp_all add: eobserve_def ebind_def)

lemma on_local_Ok [test_simps]: "m (s, w) = (Ok x, (s', w')) \<Longrightarrow> on_local m s w = (Ok (x, s'), w')"
  by (simp add: on_local_def)

lemma local_unwrap_Ok [test_simps]: "m s = (Ok x, s') \<Longrightarrow> local_unwrap m s = Ok (x, s')"
  by (simp add: local_unwrap_def)

lemma local_result_Ok [test_simps]: "m s = (Ok x, s') \<Longrightarrow> local_result m s = Ok (Ok x, s')"
  by (simp add: local_result_def)

lemma local_result_Err [test_simps]: "m s = (Err e, s') \<Longrightarrow> local_result m s = Ok (Err e, s')"
  by (simp add: local_result_def)

lemma observe_Ok_iff [simp]: "observe r = Ok x \<longleftrightarrow> r \<noteq> Panic \<and> x = r"
  by (cases r) auto

lemma unwrap_err_eq_Ok_iff [simp]: "unwrap_err r = Ok e \<longleftrightarrow> r = Err e"
  by (cases r) auto

subsection \<open>Tampering\<close>

text \<open>\<open>let last = xs.len() - 1; xs[last] ^= 0x01;\<close> on a vector: the subtraction, or the index, panics when it is empty.\<close>

definition flip_last :: "bytes \<Rightarrow> ('e, bytes) result" where
  "flip_last xs =
     (if xs = [] then Panic else Ok (xs[length xs - 1 := (xs ! (length xs - 1)) XOR 1]))"

text \<open>
  AES-GCM computes the tag from the key, the nonce, the associated data and the ciphertext, and compares: for
  given ones, no two tags are accepted.
\<close>

definition tag_unique :: "('w, 'z) crypto_scheme \<Rightarrow> bool" where
  "tag_unique C \<longleftrightarrow>
     (\<forall>k n a c t t' m m'. length t = 16 \<longrightarrow> length t' = 16 \<longrightarrow>
        aes_gcm_decrypt C k n a (c @ t) = Some m \<longrightarrow> aes_gcm_decrypt C k n a (c @ t') = Some m' \<longrightarrow> t = t')"

lemma toy_tag_unique: "tag_unique (toy_ext z)"
  by (auto simp: tag_unique_def toy_ext_def split: if_splits)

lemma flip_last_snoc: "flip_last (xs @ [x]) = Ok (xs @ [x XOR 1])"
  by (simp add: flip_last_def)

lemma flip_last_append: "flip_last ys = Ok zs \<Longrightarrow> flip_last (xs @ ys) = Ok (xs @ zs)"
  by (cases ys rule: rev_cases) (auto simp: flip_last_def list_update_append nth_append)

lemma word_xor_1_neq: "x XOR 1 \<noteq> (x :: 'a :: len word)"
proof
  assume "x XOR 1 = x"
  then have "x XOR (x XOR 1) = x XOR x" by simp
  then show False by (simp flip: xor.assoc)
qed

text \<open>What opens does not open any more after a bit of its last byte, a byte of the tag, was flipped.\<close>

lemma flipped_tag_rejected:
  assumes C: "crypto_ok C" "tag_unique C" and o: "aead_open C key nonce aad body = Ok m"
  shows "\<exists>bad. flip_last body = Ok bad \<and> length bad = length body \<and> take (length bad - 1) bad = take (length body - 1) body \<and>
    aead_open C key nonce aad bad = Err ()"
proof -
  have l: "length body = length m + 16" and k: "length key = 32" "length nonce = 12"
    using aead_open_OkD [OF C(1) o] by auto
  define c where "c = take (length m) body"
  define t where "t = drop (length m) body"
  have body: "body = c @ t" and lt: "length t = 16" using l by (simp_all add: c_def t_def)
  then obtain u x where t: "t = u @ [x]" by (metis length_0_conv rev_exhaust zero_neq_numeral)
  let ?bad = "c @ u @ [x XOR 1]"
  have f: "flip_last body = Ok ?bad"
    using flip_last_snoc [of "c @ u" x] by (simp add: body t)
  have d: "aes_gcm_decrypt C key nonce aad (c @ t) = Some m"
    using o k by (simp add: aead_open_def to_array_def body)
  have "aes_gcm_decrypt C key nonce aad ?bad = None"
  proof (rule ccontr)
    assume "aes_gcm_decrypt C key nonce aad ?bad \<noteq> None"
    then obtain m' where "aes_gcm_decrypt C key nonce aad (c @ u @ [x XOR 1]) = Some m'" by auto
    then have "t = u @ [x XOR 1]"
      using C(2) d lt unfolding tag_unique_def by (metis length_append_singleton t)
    then show False using t word_xor_1_neq [of x] by (metis last_snoc)
  qed
  then have "aead_open C key nonce aad ?bad = Err ()" using k by (simp add: aead_open_def to_array_def)
  with f show ?thesis by (intro exI [of _ ?bad]) (simp add: body t)
qed

subsection \<open>Text of other crates\<close>

text \<open>
  Lower-case hexadecimal as the \<open>hex\<close> crate documents it, and a decoder that reports an error on a
  character outside its alphabet, as the \<open>base64\<close> engines do.
\<close>

definition hex_text :: "bytes \<Rightarrow> string" where
  "hex_text bs = concat (map (\<lambda>b. [''0123456789abcdef'' ! (unat b div 16), ''0123456789abcdef'' ! (unat b mod 16)]) bs)"

definition hex_ok :: "text_codec \<Rightarrow> bool" where
  "hex_ok H \<longleftrightarrow> (\<forall>bs. tc_encode H bs = hex_text bs)"

text \<open>A known answer of HKDF-SHA256: 32 bytes of output, in hexadecimal.\<close>

definition known_answer :: "('w, 'z) crypto_scheme \<Rightarrow> bytes \<Rightarrow> bytes \<Rightarrow> bytes \<Rightarrow> string \<Rightarrow> bool" where
  "known_answer C salt ikm info hex \<longleftrightarrow> map_option hex_text (hkdf_sha256 C salt ikm info 32) = Some hex"

lemma hkdf_32: "crypto_ok C \<Longrightarrow> \<exists>okm. hkdf_sha256 C salt ikm info 32 = Some okm"
  using hkdf_total [of C 32 salt ikm info] by (auto simp: HKDF_MAX_def)

lemma known_answer_outcome:
  assumes "crypto_ok C" "hex_ok H"
  shows "rbind (expect_ok (hkdf_expect C salt ikm info 32)) (\<lambda>key. assert_true (tc_encode H key = hex)) =
    assert_true (known_answer C salt ikm info hex)"
proof -
  obtain okm where "hkdf_sha256 C salt ikm info 32 = Some okm"
    using hkdf_32 [OF assms(1)] by blast
  then show ?thesis using assms(2) by (simp add: hkdf_expect_def known_answer_def hex_ok_def)
qed

lemma known_answer_two:
  assumes "crypto_ok C" "hex_ok H"
  shows "rbind (expect_ok (hkdf_expect C salt ikm info 32)) (\<lambda>key. rbind (assert_true (tc_encode H key = hex)) (\<lambda>_.
      rbind (expect_ok (hkdf_expect C salt' ikm' info' 32)) (\<lambda>key. assert_true (tc_encode H key = hex')))) =
    assert_true (known_answer C salt ikm info hex \<and> known_answer C salt' ikm' info' hex')"
proof -
  obtain x y where "hkdf_sha256 C salt ikm info 32 = Some x" "hkdf_sha256 C salt' ikm' info' 32 = Some y"
    using hkdf_32 [OF assms(1)] by metis
  then show ?thesis using assms(2) by (simp add: hkdf_expect_def known_answer_def hex_ok_def assert_true_def)
qed

definition rejects_outside :: "string \<Rightarrow> text_codec \<Rightarrow> bool" where
  "rejects_outside alphabet T \<longleftrightarrow> (\<forall>s. \<not> set s \<subseteq> set alphabet \<longrightarrow> (\<exists>e. tc_decode T s = Inl e))"

text \<open>The alphabet all base64 variants share, and the two characters each adds; padding.\<close>

definition base64_alphabet :: string where
  "base64_alphabet = ''ABCDEFGHIJKLMNOPQRSTUVWXYZabcdefghijklmnopqrstuvwxyz0123456789+/=''"

definition base64url_alphabet :: string where
  "base64url_alphabet = ''ABCDEFGHIJKLMNOPQRSTUVWXYZabcdefghijklmnopqrstuvwxyz0123456789-_''"

text \<open>The URL-safe base64 of RFC 4648 without padding: three bytes to four characters.\<close>

definition base64url_char :: "nat \<Rightarrow> char" where
  "base64url_char i = base64url_alphabet ! i"

fun base64url_text :: "bytes \<Rightarrow> string" where
  "base64url_text [] = []"
| "base64url_text [a] = [base64url_char (unat a div 4), base64url_char (unat a mod 4 * 16)]"
| "base64url_text [a, b] =
     [base64url_char (unat a div 4), base64url_char (unat a mod 4 * 16 + unat b div 16),
      base64url_char (unat b mod 16 * 4)]"
| "base64url_text (a # b # c # bs) =
     base64url_char (unat a div 4) # base64url_char (unat a mod 4 * 16 + unat b div 16) #
     base64url_char (unat b mod 16 * 4 + unat c div 64) # base64url_char (unat c mod 64) # base64url_text bs"

definition base64url_ok :: "text_codec \<Rightarrow> bool" where
  "base64url_ok B \<longleftrightarrow> (\<forall>bs. tc_encode B bs = base64url_text bs)"

lemma base64url_vector: "base64url_text (map word_of_nat [0..<16]) = ''AAECAwQFBgcICQoLDA0ODw''"
  by (simp add: base64url_char_def base64url_alphabet_def upt_rec)

subsection \<open>Times\<close>

text \<open>The cast of an integer below \<open>2 ^ 53\<close> is exact; the differences in the tests are computed exactly.\<close>

definition exact_cast :: "(u64 \<Rightarrow> 'f :: linordered_idom) \<Rightarrow> bool" where
  "exact_cast to_f64 \<longleftrightarrow> (\<forall>n. unat n < 2 ^ 53 \<longrightarrow> to_f64 n = of_nat (unat n))"

end
