(* ===== verification/Ratchet_Tests.thy ===== *)
theory Ratchet_Tests
  imports Testing Ratchet
begin

text \<open>
  The unit tests of the direct-message ratchet (\<open>src/ratchet.rs\<close>), as they are written, and what their
  outcome is for every instance of the primitives: the tests of lengths, errors, round trips and counters
  always pass; a test that compares two derived keys, or two random draws, passes exactly when they differ,
  and a parity vector exactly when HKDF-SHA256 gives the expected bytes.
\<close>

subsection \<open>The tests\<close>

definition determinism_and_distinctness :: "('w, 'z) crypto_scheme \<Rightarrow> ('e, unit) result" where
  "determinism_and_distinctness C =
     (let es = replicate 32 9 in
      rbind (expect_ok (derive_dm_message_key C es 2 5)) (\<lambda>a.
      rbind (expect_ok (derive_dm_message_key C es 2 5)) (\<lambda>b.
      rbind (assert_eq a b) (\<lambda>_.
      rbind (expect_ok (derive_dm_message_key C es 2 5)) (\<lambda>c.
      rbind (expect_ok (derive_dm_message_key C es 2 6)) (\<lambda>d.
      assert_ne c d))))))"

definition rejects_bad_len :: "('w, 'z) crypto_scheme \<Rightarrow> ('e, unit) result" where
  "rejects_bad_len C = assert_eq (derive_dm_message_key C (replicate 16 0) 0 0) (Err (BadSecretLen 16))"

definition parity_message_key_vector :: "text_codec \<Rightarrow> ('w, 'z) crypto_scheme \<Rightarrow> ('e, unit) result" where
  "parity_message_key_vector H C =
     (let es = replicate 32 0x42 in
      rbind (expect_ok (derive_dm_message_key C es 7 3)) (\<lambda>key.
      assert_eq (tc_encode H key) ''74095f508856520198d56192d8cfd3247f05f5c10f3b33b165e6f64ea1daaddf''))"

definition parity_wrap_key_vector :: "text_codec \<Rightarrow> ('w, 'z) crypto_scheme \<Rightarrow> ('e, unit) result" where
  "parity_wrap_key_vector H C =
     (let shared = map word_of_nat [0..<32] in
      rbind (expect_ok (dm_wrap_key C shared)) (\<lambda>wk.
      assert_eq (tc_encode H wk) ''10e5ba98ec3dc39aa5fe92d05e4231ff99e5bd014a22f07f1387932e40b10036''))"

definition new_epoch_secret_is_fresh_and_sized :: "('w, 'z) crypto_scheme \<Rightarrow> ('w, 'e, unit) eff" where
  "new_epoch_secret_is_fresh_and_sized C =
     ebind (call (new_epoch_secret C)) (\<lambda>a.
     ebind (call (new_epoch_secret C)) (\<lambda>b.
     lift (asserts [assert_eq (length a) EPOCH_SECRET_LEN, assert_ne a b])))"

definition wrap_unwrap_roundtrip :: "('w, 'z) crypto_scheme \<Rightarrow> ('w, 'e, unit) eff" where
  "wrap_unwrap_roundtrip C =
     ebind (call (hybrid_keypair C)) (\<lambda>kp.
     ebind (call (new_epoch_secret C)) (\<lambda>secret.
     ebind (eunwrap (wrap_dm_epoch_secret C secret (kp_public_key kp))) (\<lambda>payload.
     ebind (lift (assert_eq (length payload) WRAPPED_PAYLOAD_LEN)) (\<lambda>_.
     ebind (lift (expect_ok (unwrap_dm_epoch_secret C payload (kp_private_key kp)))) (\<lambda>recovered.
     lift (assert_eq recovered secret))))))"

definition unwrap_rejects_tampered_payload :: "('w, 'z) crypto_scheme \<Rightarrow> ('w, 'e, unit) eff" where
  "unwrap_rejects_tampered_payload C =
     ebind (call (hybrid_keypair C)) (\<lambda>kp.
     ebind (call (new_epoch_secret C)) (\<lambda>secret.
     ebind (eunwrap (wrap_dm_epoch_secret C secret (kp_public_key kp))) (\<lambda>payload.
     ebind (lift (flip_last payload)) (\<lambda>payload.
     lift (assert_eq (unwrap_dm_epoch_secret C payload (kp_private_key kp)) (Err UnwrapFailed))))))"

definition wrap_rejects_bad_lengths :: "('w, 'z) crypto_scheme \<Rightarrow> ('w, 'e, unit) eff" where
  "wrap_rejects_bad_lengths C =
     ebind (call (hybrid_keypair C)) (\<lambda>kp.
     ebind (eobserve (wrap_dm_epoch_secret C (replicate 16 0) (kp_public_key kp))) (\<lambda>a.
     ebind (lift (assert_eq a (Err (BadSecretLen 16)))) (\<lambda>_.
     ebind (eobserve (wrap_dm_epoch_secret C (replicate 32 0) (replicate 10 0))) (\<lambda>b.
     ebind (lift (assert_eq b (Err (BadPublicKeyLen 10)))) (\<lambda>_.
     lift (assert_eq (unwrap_dm_epoch_secret C (replicate 5 0) (kp_private_key kp)) (Err (BadPayloadLen 5))))))))"

definition dm_ratchet_next_outbound_advances_and_is_index_addressable ::
  "('w, 'f :: zero, 'z) sys_scheme \<Rightarrow> ('w, 'e, unit) eff" where
  "dm_ratchet_next_outbound_advances_and_is_index_addressable S =
     (let secret = replicate 32 0x11 in
      ebind (call (dm_ratchet_new S 0 secret)) (\<lambda>r. lift (
      rbind (dm_next_outbound_key S r) (\<lambda>((i0, k0), r).
      rbind (dm_next_outbound_key S r) (\<lambda>((i1, k1), r).
      rbind (asserts [assert_eq (i0, i1) (0, 1), assert_eq (dr_message_index r) 2]) (\<lambda>_.
      rbind (expect_ok (derive_dm_message_key S secret 0 0)) (\<lambda>x0.
      rbind (assert_eq x0 k0) (\<lambda>_.
      rbind (expect_ok (derive_dm_message_key S secret 0 1)) (\<lambda>x1.
      rbind (assert_eq x1 k1) (\<lambda>_.
      assert_ne k0 k1))))))))))"

definition dm_ratchet_should_rekey_bounds ::
  "('w, 'f :: {minus, ord, zero, numeral}, 'z) sys_scheme \<Rightarrow> ('w, 'e, unit) eff" where
  "dm_ratchet_should_rekey_bounds S =
     ebind (call (dm_ratchet_with_bounds S 0 (replicate 32 7) 2 DEFAULT_REKEY_AGE_SECONDS)) (\<lambda>r.
     ebind (call (dm_should_rekey S r (Some (dr_epoch_started_at r)))) (\<lambda>b.
     ebind (lift (assert_true (\<not> b))) (\<lambda>_.
     let r = r\<lparr>dr_message_index := 2\<rparr> in
     ebind (call (dm_should_rekey S r (Some (dr_epoch_started_at r)))) (\<lambda>b.
     ebind (lift (assert_true b)) (\<lambda>_.
     ebind (call (dm_ratchet_with_bounds S 0 (replicate 32 7) 50 10)) (\<lambda>r2.
     ebind (call (dm_should_rekey S r2 (Some (dr_epoch_started_at r2 + 11)))) (\<lambda>b.
     ebind (lift (assert_true b)) (\<lambda>_.
     let r2 = r2\<lparr>dr_message_index := 1\<rparr> in
     ebind (call (dm_should_rekey S r2 (Some (dr_epoch_started_at r2 + 1)))) (\<lambda>b.
     lift (assert_true (\<not> b)))))))))))"

subsection \<open>Derived keys\<close>

lemma determinism_and_distinctness_outcome:
  assumes "crypto_ok C"
  shows "determinism_and_distinctness C =
    assert_true (derive_dm_message_key C (replicate 32 9) 2 5 \<noteq> derive_dm_message_key C (replicate 32 9) 2 6)"
proof -
  obtain a b where "derive_dm_message_key C (replicate 32 9) 2 5 = Ok a" "derive_dm_message_key C (replicate 32 9) 2 6 = Ok b"
    using derive_dm_Ok [OF assms] by (metis length_replicate)
  then show ?thesis by (simp add: determinism_and_distinctness_def)
qed

lemma rejects_bad_len_passes: "passes (rejects_bad_len C)"
  by (simp add: passes_def rejects_bad_len_def derive_dm_message_key_def len_simps)

lemma parity_message_key_vector_outcome:
  assumes "crypto_ok C" "hex_ok H"
  shows "parity_message_key_vector H C = assert_true (known_answer C
    (lit ''skchat/dm-epoch/'' @ [0, 0, 0, 0, 0, 0, 0, 7]) (replicate 32 0x42)
    (lit ''skchat/dm-ratchet/msg/v1/'' @ [0, 0, 0, 0, 0, 0, 0, 3])
    ''74095f508856520198d56192d8cfd3247f05f5c10f3b33b165e6f64ea1daaddf'')"
proof -
  have "u64_be 7 = [0, 0, 0, 0, 0, 0, 0, 7]" "u64_be 3 = [0, 0, 0, 0, 0, 0, 0, 3]" by code_simp+
  then show ?thesis
    by (simp add: parity_message_key_vector_def derive_dm_message_key_def dm_salt_def dm_info_def
        EPOCH_SALT_PREFIX_def MSG_INFO_PREFIX_def len_simps known_answer_outcome [OF assms] del: lit_Cons)
qed

lemma parity_wrap_key_vector_outcome:
  assumes "crypto_ok C" "hex_ok H"
  shows "parity_wrap_key_vector H C = assert_true (known_answer C
    [] (map word_of_nat [0..<32]) (lit ''skchat/dm-ratchet/epoch-wrap/v1'')
    ''10e5ba98ec3dc39aa5fe92d05e4231ff99e5bd014a22f07f1387932e40b10036'')"
  by (simp add: parity_wrap_key_vector_def dm_wrap_key_def INFO_DM_WRAP_def known_answer_outcome [OF assms]
      del: lit_Cons)

lemma new_epoch_secret_outcome:
  assumes "crypto_ok C"
  shows "\<exists>(a :: bytes) (b :: bytes). length a = 32 \<and> length b = 32 \<and> fst (new_epoch_secret_is_fresh_and_sized C w) = assert_true (a \<noteq> b)"
proof -
  obtain a w1 where a: "fill_bytes C 32 w = (a, w1)" by (metis surj_pair)
  obtain b w2 where b: "fill_bytes C 32 w1 = (b, w2)" by (metis surj_pair)
  have "length a = 32" "length b = 32"
    using fill_bytes_length [OF assms a] fill_bytes_length [OF assms b] by simp_all
  then show ?thesis
    by (intro exI2 [of _ a b])
      (simp add: new_epoch_secret_is_fresh_and_sized_def new_epoch_secret_def fill_step [OF a] fill_step [OF b] assert_true_def
        EPOCH_SECRET_LEN_def)
qed

subsection \<open>Wrapping\<close>

lemma unwrap_dm_tampered:
  assumes C: "crypto_ok C" "tag_unique C" and kp: "generated_pair C pub priv"
    and wrap: "wrap_dm_epoch_secret C secret pub w = (Ok p, w')"
  obtains bad where "flip_last p = Ok bad" "unwrap_dm_epoch_secret C bad priv = Err UnwrapFailed"
proof -
  obtain ct ss w1 key nonce c where l: "length secret = 32" and e: "hybrid_encap C pub w = (Ok (ct, ss), w1)"
    and k: "dm_wrap_key C ss = Ok key" and n: "fill_bytes C 12 w1 = (nonce, w')"
    and c: "aead_seal C key nonce [] secret = Ok c" and p: "p = ct @ nonce @ c"
    by (rule wrap_dm_OkE [OF wrap])
  obtain bad where bad: "flip_last c = Ok bad" "length bad = length c" "aead_open C key nonce [] bad = Err ()"
    using flipped_tag_rejected [OF C aead_seal_OkD(4) [OF C(1) c]] by blast
  have len: "length ct = 1120" "length nonce = 12" "length bad = 48"
    using hybrid_encap_Ok_lengths(2) [OF C(1) e] fill_bytes_length [OF C(1) n] aead_seal_OkD(3) [OF C(1) c] bad(2) l
    by simp_all
  have "unwrap_dm_epoch_secret C (ct @ nonce @ bad) priv = Err UnwrapFailed"
    using hybrid_encap_decap [OF C(1) kp e] k bad(3) by (simp add: unwrap_dm_unfold [OF len])
  moreover have "flip_last p = Ok (ct @ nonce @ bad)"
    using flip_last_append [OF bad(1), of "ct @ nonce"] by (simp add: p)
  ultimately show thesis using that by blast
qed

lemma draw_secret:
  assumes "crypto_ok C" "new_epoch_secret C w = (secret, w')"
  shows "length secret = 32"
  using fill_bytes_length [OF assms(1)] assms(2) by (simp add: new_epoch_secret_def EPOCH_SECRET_LEN_def)

lemma secret_step: "new_epoch_secret C w = (secret, w') \<Longrightarrow> ebind (call (new_epoch_secret C)) k w = k secret w'"
  by (rule ebind_call)

lemma wrap_step:
  "wrap_dm_epoch_secret C secret pub w = (Ok p, w') \<Longrightarrow> ebind (eunwrap (wrap_dm_epoch_secret C secret pub)) k w = k p w'"
  by (rule unwrap_step)

lemma wrap_error_step:
  "wrap_dm_epoch_secret C secret pub w = (Err e, w') \<Longrightarrow>
   ebind (eobserve (wrap_dm_epoch_secret C secret pub)) k w = k (Err e) w'"
  by (rule observe_step) simp_all

lemma wrap_tests_pass:
  assumes C: "crypto_ok C"
  shows "always_passes (wrap_unwrap_roundtrip C)"
    and "tag_unique C \<Longrightarrow> always_passes (unwrap_rejects_tampered_payload C)"
    and "always_passes (wrap_rejects_bad_lengths C)"
  unfolding always_passes_def
proof safe
  fix w
  obtain kp w1 where kp: "hybrid_keypair C w = (kp, w1)" by (metis surj_pair)
  obtain secret w2 where s: "new_epoch_secret C w1 = (secret, w2)" by (metis surj_pair)
  obtain p w3 where p: "wrap_dm_epoch_secret C secret (kp_public_key kp) w2 = (Ok p, w3)" "length p = 1180"
    "unwrap_dm_epoch_secret C p (kp_private_key kp) = Ok secret"
    using wrap_dm_roundtrip [OF C drawn_pair [OF kp] draw_secret [OF C s], of w2] by blast
  show "fst (wrap_unwrap_roundtrip C w) = Ok ()"
    by (simp add: wrap_unwrap_roundtrip_def draw_step [OF kp] secret_step [OF s] wrap_step [OF p(1)] p(2,3) len_simps)
  show "fst (unwrap_rejects_tampered_payload C w) = (Ok () :: (unit, unit) result)" if "tag_unique C"
  proof (rule unwrap_dm_tampered [OF C that drawn_pair [OF kp] p(1)])
    fix bad
    assume "flip_last p = (Ok bad :: (unit, bytes) result)"
      "unwrap_dm_epoch_secret C bad (kp_private_key kp) = Err UnwrapFailed"
    then show ?thesis
      by (simp add: unwrap_rejects_tampered_payload_def draw_step [OF kp] secret_step [OF s] wrap_step [OF p(1)])
  qed
  show "fst (wrap_rejects_bad_lengths C w) = Ok ()"
    by (simp add: wrap_rejects_bad_lengths_def draw_step [OF kp] wrap_error_step [OF wrap_dm_bad_inputs(1)]
        wrap_error_step [OF wrap_dm_bad_inputs(2)] unwrap_dm_bad_length)
qed

subsection \<open>The ratchet state\<close>

lemma next_outbound_outcome:
  fixes S :: "('w, 'f :: zero, 'z) sys_scheme"
  assumes C: "crypto_ok S"
  shows "fst (dm_ratchet_next_outbound_advances_and_is_index_addressable S w) =
    assert_true (derive_dm_message_key S (replicate 32 0x11) 0 0 \<noteq> derive_dm_message_key S (replicate 32 0x11) 0 1)"
proof -
  obtain a b where k: "derive_dm_message_key S (replicate 32 0x11) 0 0 = Ok a" "derive_dm_message_key S (replicate 32 0x11) 0 1 = Ok b"
    using derive_dm_Ok [OF C] by (metis length_replicate)
  obtain now w1 where now: "now_seconds S w = (now, w1)" by (metis surj_pair)
  show ?thesis
    by (simp add: dm_ratchet_next_outbound_advances_and_is_index_addressable_def dm_ratchet_new_def
        dm_ratchet_with_bounds_def now call_def ebind_def dm_next_outbound_key_def Let_def k)
qed

lemma should_rekey_bounds_passes:
  fixes S :: "('w, 'f :: linordered_idom, 'z) sys_scheme"
  assumes "exact_cast (as_f64 S)"
  shows "always_passes (dm_ratchet_should_rekey_bounds S)"
  unfolding always_passes_def
proof
  fix w
  obtain t w1 where t: "now_seconds S w = (t, w1)" by (metis surj_pair)
  obtain u w2 where u: "now_seconds S w1 = (u, w2)" by (metis surj_pair)
  have "as_f64 S 604800 = 604800" "as_f64 S 10 = 10"
    using assms [unfolded exact_cast_def, rule_format, of 604800] assms [unfolded exact_cast_def, rule_format, of 10]
    by simp_all
  then show "fst (dm_ratchet_should_rekey_bounds S w) = Ok ()"
    by (simp add: dm_ratchet_should_rekey_bounds_def dm_ratchet_with_bounds_def t u call_def ebind_def
        dm_should_rekey_def should_rekey_iff DEFAULT_REKEY_AGE_SECONDS_def Let_def word_le_nat_alt)
qed

end
