(* ===== verification/Group_Tests.thy ===== *)
theory Group_Tests
  imports Testing Group_Ratchet
begin

text \<open>
  The unit tests of the group ratchet (\<open>src/group_ratchet.rs\<close>), as they are written, and what their
  outcome is for every instance of the primitives. Where a test has the name of one of the direct-message
  ratchet, its definition carries the prefix \<open>group_\<close>.
\<close>

subsection \<open>The tests\<close>

definition parity_derive_message_key :: "text_codec \<Rightarrow> ('w, 'z) crypto_scheme \<Rightarrow> ('e, unit) result" where
  "parity_derive_message_key H C =
     (let es = map word_of_nat [0..<32] in
      rbind (expect_ok (derive_message_key C es 7 3)) (\<lambda>key.
      rbind (assert_eq (tc_encode H key) ''7a5e2d075c683a156190450dbb2ba2e19fab6639da12e9dd7e283dbeba1e8054'') (\<lambda>_.
      rbind (expect_ok (derive_message_key C es 0 0)) (\<lambda>key0.
      assert_eq (tc_encode H key0) ''dfc01932cac7e640f0ddfee2694975f504a5cd4d15298837489f7bd1f18319e1''))))"

definition derive_determinism_and_distinctness :: "('w, 'z) crypto_scheme \<Rightarrow> ('e, unit) result" where
  "derive_determinism_and_distinctness C =
     (let es = replicate 32 9; key = (\<lambda>secret epoch index. expect_ok (derive_message_key C secret epoch index)) in
      rbind (key es 2 5) (\<lambda>a. rbind (key es 2 5) (\<lambda>b. rbind (assert_eq a b) (\<lambda>_.
      rbind (key es 2 5) (\<lambda>a. rbind (key es 2 6) (\<lambda>b. rbind (assert_ne a b) (\<lambda>_.
      rbind (key es 2 5) (\<lambda>a. rbind (key es 3 5) (\<lambda>b. rbind (assert_ne a b) (\<lambda>_.
      rbind (key es 2 5) (\<lambda>a. rbind (key (replicate 32 8) 2 5) (\<lambda>b. assert_ne a b))))))))))))"

definition derive_rejects_bad_secret_len :: "('w, 'z) crypto_scheme \<Rightarrow> ('e, unit) result" where
  "derive_rejects_bad_secret_len C = assert_eq (derive_message_key C (replicate 16 0) 0 0) (Err (GBadSecretLen 16))"

definition wrap_layout_and_constants :: "('e, unit) result" where
  "wrap_layout_and_constants = asserts
     [assert_eq CIPHERTEXT_LEN 1120,
      assert_eq G_WRAP_NONCE_LEN 12,
      assert_eq G_WRAPPED_SECRET_LEN 48,
      assert_eq G_WRAPPED_PAYLOAD_LEN 1180,
      assert_eq G_HYBRID_KEM_SUITE SUITE_ID]"

definition wrap_unwrap_round_trip :: "('w, 'z) crypto_scheme \<Rightarrow> ('w, 'e, unit) eff" where
  "wrap_unwrap_round_trip C =
     ebind (call (hybrid_keypair C)) (\<lambda>kp.
     ebind (call (group_new_epoch_secret C)) (\<lambda>secret.
     ebind (eunwrap (wrap_epoch_secret C secret (kp_public_key kp))) (\<lambda>payload.
     ebind (lift (assert_eq (length payload) G_WRAPPED_PAYLOAD_LEN)) (\<lambda>_.
     ebind (lift (expect_ok (unwrap_epoch_secret C payload (kp_private_key kp)))) (\<lambda>recovered.
     lift (assert_eq recovered secret))))))"

definition wrap_is_randomized_but_both_unwrap :: "('w, 'z) crypto_scheme \<Rightarrow> ('w, 'e, unit) eff" where
  "wrap_is_randomized_but_both_unwrap C =
     ebind (call (hybrid_keypair C)) (\<lambda>kp.
     ebind (call (group_new_epoch_secret C)) (\<lambda>secret.
     ebind (eunwrap (wrap_epoch_secret C secret (kp_public_key kp))) (\<lambda>p1.
     ebind (eunwrap (wrap_epoch_secret C secret (kp_public_key kp))) (\<lambda>p2.
     ebind (lift (assert_ne p1 p2)) (\<lambda>_.
     ebind (lift (expect_ok (unwrap_epoch_secret C p1 (kp_private_key kp)))) (\<lambda>s1.
     ebind (lift (assert_eq s1 secret)) (\<lambda>_.
     ebind (lift (expect_ok (unwrap_epoch_secret C p2 (kp_private_key kp)))) (\<lambda>s2.
     lift (assert_eq s2 secret)))))))))"

definition group_unwrap_rejects_tampered_payload :: "('w, 'z) crypto_scheme \<Rightarrow> ('w, 'e, unit) eff" where
  "group_unwrap_rejects_tampered_payload C =
     ebind (call (hybrid_keypair C)) (\<lambda>kp.
     ebind (call (group_new_epoch_secret C)) (\<lambda>secret.
     ebind (eunwrap (wrap_epoch_secret C secret (kp_public_key kp))) (\<lambda>payload.
     ebind (lift (flip_last payload)) (\<lambda>payload.
     lift (assert_eq (unwrap_epoch_secret C payload (kp_private_key kp)) (Err GUnwrapFailed))))))"

definition unwrap_rejects_wrong_key :: "('w, 'z) crypto_scheme \<Rightarrow> ('w, 'e, unit) eff" where
  "unwrap_rejects_wrong_key C =
     ebind (call (hybrid_keypair C)) (\<lambda>kp.
     ebind (call (hybrid_keypair C)) (\<lambda>other.
     ebind (call (group_new_epoch_secret C)) (\<lambda>secret.
     ebind (eunwrap (wrap_epoch_secret C secret (kp_public_key kp))) (\<lambda>payload.
     lift (assert_eq (unwrap_epoch_secret C payload (kp_private_key other)) (Err GUnwrapFailed))))))"

definition group_wrap_rejects_bad_lengths :: "('w, 'z) crypto_scheme \<Rightarrow> ('w, 'e, unit) eff" where
  "group_wrap_rejects_bad_lengths C =
     ebind (call (hybrid_keypair C)) (\<lambda>kp.
     ebind (eobserve (wrap_epoch_secret C (replicate 16 0) (kp_public_key kp))) (\<lambda>a.
     ebind (lift (assert_eq a (Err (GBadSecretLen 16)))) (\<lambda>_.
     ebind (eobserve (wrap_epoch_secret C (replicate 32 0) (replicate 10 0))) (\<lambda>b.
     lift (assert_eq b (Err (GBadPublicKeyLen 10)))))))"

definition unwrap_rejects_bad_lengths :: "('w, 'z) crypto_scheme \<Rightarrow> ('w, 'e, unit) eff" where
  "unwrap_rejects_bad_lengths C =
     ebind (call (hybrid_keypair C)) (\<lambda>kp. lift (asserts
       [assert_eq (unwrap_epoch_secret C (replicate 100 0) (kp_private_key kp)) (Err (GBadPayloadLen 100)),
        assert_eq (unwrap_epoch_secret C (replicate G_WRAPPED_PAYLOAD_LEN 0) (replicate 10 0)) (Err (GBadPrivateKeyLen 10))]))"

definition ratchet_outbound_advances_and_matches_receiver ::
  "('w, 'f :: zero, 'z) sys_scheme \<Rightarrow> ('w, 'e, unit) eff" where
  "ratchet_outbound_advances_and_matches_receiver S =
     ebind (call (group_new_epoch_secret S)) (\<lambda>secret.
     ebind (call (epoch_ratchet_new S 4 secret)) (\<lambda>sender.
     ebind (call (epoch_ratchet_new S 4 secret)) (\<lambda>receiver. lift (
     rbind (er_next_outbound_key S sender) (\<lambda>((i0, k0), sender).
     rbind (er_next_outbound_key S sender) (\<lambda>((i1, k1), sender).
     rbind (asserts [assert_eq i0 0, assert_eq i1 1, assert_eq (er_message_index sender) 2, assert_ne k0 k1]) (\<lambda>_.
     rbind (er_message_key S receiver i0) (\<lambda>x0.
     rbind (assert_eq x0 k0) (\<lambda>_.
     rbind (er_message_key S receiver i1) (\<lambda>x1.
     assert_eq x1 k1))))))))))"

definition should_rekey_on_msg_bound ::
  "('w, 'f :: {minus, ord, zero, numeral}, 'z) sys_scheme \<Rightarrow> ('w, 'e, unit) eff" where
  "should_rekey_on_msg_bound S =
     ebind (call (group_new_epoch_secret S)) (\<lambda>secret. lift (
     let r = epoch_ratchet_new_with_started_at 1 secret 1000 in
     rbind (assert_true (\<not> er_should_rekey (as_f64 S) r 1000)) (\<lambda>_.
     let r = r\<lparr>er_message_index := G_DEFAULT_REKEY_MSG_BOUND\<rparr> in
     assert_true (er_should_rekey (as_f64 S) r 1000))))"

definition should_rekey_on_age ::
  "('w, 'f :: {minus, ord, zero, numeral}, 'z) sys_scheme \<Rightarrow> ('w, 'e, unit) eff" where
  "should_rekey_on_age S =
     ebind (call (group_new_epoch_secret S)) (\<lambda>secret. lift (
     let r = epoch_ratchet_new_with_started_at 1 secret 1000 in asserts
       [assert_true (\<not> er_should_rekey (as_f64 S) r (1000 + as_f64 S G_DEFAULT_REKEY_AGE_SECONDS - 1)),
        assert_true (er_should_rekey (as_f64 S) r (1000 + as_f64 S G_DEFAULT_REKEY_AGE_SECONDS))]))"

subsection \<open>Derived keys\<close>

lemma parity_derive_message_key_outcome:
  assumes "crypto_ok C" "hex_ok H"
  shows "parity_derive_message_key H C = assert_true
    (known_answer C (lit ''skchat/epoch/'' @ [0, 0, 0, 0, 0, 0, 0, 7]) (map word_of_nat [0..<32])
       (lit ''skchat/group-ratchet/msg/v1/'' @ [0, 0, 0, 0, 0, 0, 0, 3])
       ''7a5e2d075c683a156190450dbb2ba2e19fab6639da12e9dd7e283dbeba1e8054'' \<and>
     known_answer C (lit ''skchat/epoch/'' @ replicate 8 0) (map word_of_nat [0..<32])
       (lit ''skchat/group-ratchet/msg/v1/'' @ replicate 8 0)
       ''dfc01932cac7e640f0ddfee2694975f504a5cd4d15298837489f7bd1f18319e1'')"
proof -
  have "u64_be 7 = [0, 0, 0, 0, 0, 0, 0, 7]" "u64_be 3 = [0, 0, 0, 0, 0, 0, 0, 3]" "u64_be 0 = replicate 8 0" by code_simp+
  then have k: "derive_message_key C es 7 3 = hkdf_expect C (lit ''skchat/epoch/'' @ [0, 0, 0, 0, 0, 0, 0, 7]) es
        (lit ''skchat/group-ratchet/msg/v1/'' @ [0, 0, 0, 0, 0, 0, 0, 3]) 32"
      "derive_message_key C es 0 0 = hkdf_expect C (lit ''skchat/epoch/'' @ replicate 8 0) es
        (lit ''skchat/group-ratchet/msg/v1/'' @ replicate 8 0) 32" if "length es = 32" for es
    using that by (simp_all add: derive_message_key_def derive_message_key_arr_def group_salt_def group_info_def
        G_MSG_SALT_PREFIX_def G_MSG_INFO_PREFIX_def len_simps del: lit_Cons)
  show ?thesis
    unfolding parity_derive_message_key_def Let_def
    by (simp add: k known_answer_two [OF assms] del: lit_Cons upt_rec_numeral)
qed

lemma derive_determinism_outcome:
  assumes "crypto_ok C"
  shows "derive_determinism_and_distinctness C = assert_true
    (\<forall>k \<in> set [derive_message_key C (replicate 32 9) 2 6, derive_message_key C (replicate 32 9) 3 5,
       derive_message_key C (replicate 32 8) 2 5]. derive_message_key C (replicate 32 9) 2 5 \<noteq> k)"
proof -
  obtain a b c d where "derive_message_key C (replicate 32 9) 2 5 = Ok a" "derive_message_key C (replicate 32 9) 2 6 = Ok b"
    "derive_message_key C (replicate 32 9) 3 5 = Ok c" "derive_message_key C (replicate 32 8) 2 5 = Ok d"
    using derive_message_key_Ok [OF assms] by (metis length_replicate)
  then show ?thesis by (simp add: derive_determinism_and_distinctness_def assert_true_def)
qed

lemma plain_tests_pass: "passes (derive_rejects_bad_secret_len C)" "passes wrap_layout_and_constants"
  by (simp_all add: passes_def derive_rejects_bad_secret_len_def derive_message_key_def len_simps
      wrap_layout_and_constants_def G_HYBRID_KEM_SUITE_def SUITE_ID_def)

subsection \<open>Wrapping\<close>

text \<open>What a wrapped secret is made of, and what the member recovers.\<close>

lemma unwrap_group_tampered:
  assumes C: "crypto_ok C" "tag_unique C" and kp: "generated_pair C pub priv"
    and wrap: "wrap_epoch_secret C secret pub w = (Ok p, w')"
  obtains bad where "flip_last p = Ok bad" "unwrap_epoch_secret C bad priv = Err GUnwrapFailed"
proof -
  obtain ct ss w1 key nonce c where l: "length secret = 32" and e: "hybrid_encap C pub w = (Ok (ct, ss), w1)"
    and k: "group_derive_wrap_key C ss = Ok key" and n: "fill_bytes C 12 w1 = (nonce, w')"
    and c: "aead_seal C key nonce [] secret = Ok c" and p: "p = ct @ nonce @ c"
    by (rule wrap_group_OkE [OF wrap])
  obtain bad where bad: "flip_last c = Ok bad" "length bad = length c" "aead_open C key nonce [] bad = Err ()"
    using flipped_tag_rejected [OF C aead_seal_OkD(4) [OF C(1) c]] by blast
  have len: "length ct = 1120" "length nonce = 12" "length bad = 48" "length priv = 2432"
    using hybrid_encap_Ok_lengths(2) [OF C(1) e] fill_bytes_length [OF C(1) n] aead_seal_OkD(3) [OF C(1) c] bad(2) l
      generated_pair_lengths [OF C(1) kp] by simp_all
  have "unwrap_epoch_secret C (ct @ nonce @ bad) priv = Err GUnwrapFailed"
    using hybrid_encap_decap [OF C(1) kp e] k bad(3) by (simp add: unwrap_group_unfold [OF len])
  moreover have "flip_last p = Ok (ct @ nonce @ bad)"
    using flip_last_append [OF bad(1), of "ct @ nonce"] by (simp add: p)
  ultimately show thesis using that by blast
qed

text \<open>
  Under the private key of another pair: implicit rejection makes the decapsulation succeed with some
  secret, so the call fails in the authentication, unless the authentication is fooled.
\<close>

lemma unwrap_group_other_key:
  assumes C: "crypto_ok C" and kp: "generated_pair C pub priv" and l: "length p = 1180"
  shows "unwrap_epoch_secret C p priv = Err GUnwrapFailed \<or> (\<exists>s. unwrap_epoch_secret C p priv = Ok s)"
proof -
  obtain ct r where "p = ct @ r" and l1: "length ct = 1120" "length r = 60"
    using split_at [of p 1120 60] l by auto
  moreover obtain nonce body where "r = nonce @ body" and l2: "length nonce = 12" "length body = 48"
    using split_at [of r 12 48] l1 by auto
  ultimately have p: "p = ct @ nonce @ body" by simp
  obtain ss where ss: "hybrid_decap C ct priv = Ok ss" using hybrid_decap_total [OF C kp l1(1)] by blast
  obtain key where k: "group_derive_wrap_key C ss = Ok key" "length key = 32" using group_wrap_key_total [OF C] by blast
  note u = unwrap_group_unfold [OF l1(1) l2 generated_pair_lengths(2) [OF C kp], of C]
  show ?thesis
  proof (cases "aead_open C key nonce [] body")
    case (Ok m)
    then show ?thesis using aead_open_OkD(3) [OF C Ok] l2 ss k by (simp add: p u)
  next
    case Panic
    then show ?thesis using k l2 by (simp add: aead_open_Panic_iff)
  qed (use ss k in \<open>simp add: p u\<close>)
qed

lemma draw_group_secret:
  assumes "crypto_ok C" "group_new_epoch_secret C w = (secret, w')"
  shows "length secret = 32"
  using fill_bytes_length [OF assms(1)] assms(2) by (simp add: group_new_epoch_secret_def G_EPOCH_SECRET_LEN_def)

lemma group_secret_step:
  "group_new_epoch_secret C w = (secret, w') \<Longrightarrow> ebind (call (group_new_epoch_secret C)) k w = k secret w'"
  by (rule ebind_call)

lemma group_wrap_step:
  "wrap_epoch_secret C secret pub w = (Ok p, w') \<Longrightarrow> ebind (eunwrap (wrap_epoch_secret C secret pub)) k w = k p w'"
  by (rule unwrap_step)

lemma group_wrap_error_step:
  "wrap_epoch_secret C secret pub w = (Err e, w') \<Longrightarrow>
   ebind (eobserve (wrap_epoch_secret C secret pub)) k w = k (Err e) w'"
  by (rule observe_step) simp_all

lemma group_wrap_tests_pass:
  assumes C: "crypto_ok C"
  shows "always_passes (wrap_unwrap_round_trip C)"
    and "tag_unique C \<Longrightarrow> always_passes (group_unwrap_rejects_tampered_payload C)"
    and "always_passes (group_wrap_rejects_bad_lengths C)" "always_passes (unwrap_rejects_bad_lengths C)"
  unfolding always_passes_def
proof safe
  fix w
  obtain kp w1 where kp: "hybrid_keypair C w = (kp, w1)" by (metis surj_pair)
  obtain secret w2 where s: "group_new_epoch_secret C w1 = (secret, w2)" by (metis surj_pair)
  obtain p w3 where p: "wrap_epoch_secret C secret (kp_public_key kp) w2 = (Ok p, w3)" "length p = 1180"
    "unwrap_epoch_secret C p (kp_private_key kp) = Ok secret"
    using wrap_group_roundtrip [OF C drawn_pair [OF kp] draw_group_secret [OF C s], of w2] by blast
  show "fst (wrap_unwrap_round_trip C w) = Ok ()"
    by (simp add: wrap_unwrap_round_trip_def draw_step [OF kp] group_secret_step [OF s] group_wrap_step [OF p(1)]
        p(2,3) len_simps)
  show "fst (group_unwrap_rejects_tampered_payload C w) = (Ok () :: (unit, unit) result)" if "tag_unique C"
  proof (rule unwrap_group_tampered [OF C that drawn_pair [OF kp] p(1)])
    fix bad
    assume "flip_last p = (Ok bad :: (unit, bytes) result)"
      "unwrap_epoch_secret C bad (kp_private_key kp) = Err GUnwrapFailed"
    then show ?thesis
      by (simp add: group_unwrap_rejects_tampered_payload_def draw_step [OF kp] group_secret_step [OF s]
          group_wrap_step [OF p(1)])
  qed
  show "fst (group_wrap_rejects_bad_lengths C w) = Ok ()"
    by (simp add: group_wrap_rejects_bad_lengths_def draw_step [OF kp]
        group_wrap_error_step [OF wrap_group_bad_inputs(1)] group_wrap_error_step [OF wrap_group_bad_inputs(2)])
  show "fst (unwrap_rejects_bad_lengths C w) = Ok ()"
    by (simp add: unwrap_rejects_bad_lengths_def draw_step [OF kp] unwrap_group_bad_inputs len_simps)
qed

text \<open>The test of randomised wrapping passes exactly when the two payloads differ.\<close>

lemma wrap_is_randomized_outcome:
  assumes C: "crypto_ok C"
  shows "\<exists>(p1 :: bytes) (p2 :: bytes). length p1 = 1180 \<and> length p2 = 1180 \<and>
    fst (wrap_is_randomized_but_both_unwrap C w) = assert_true (p1 \<noteq> p2)"
proof -
  obtain kp w1 where kp: "hybrid_keypair C w = (kp, w1)" by (metis surj_pair)
  obtain secret w2 where s: "group_new_epoch_secret C w1 = (secret, w2)" by (metis surj_pair)
  note rt = wrap_group_roundtrip [OF C drawn_pair [OF kp] draw_group_secret [OF C s]]
  obtain p w3 where p: "wrap_epoch_secret C secret (kp_public_key kp) w2 = (Ok p, w3)" "length p = 1180"
    "unwrap_epoch_secret C p (kp_private_key kp) = Ok secret"
    using rt [of w2] by blast
  obtain q w4 where q: "wrap_epoch_secret C secret (kp_public_key kp) w3 = (Ok q, w4)" "length q = 1180"
    "unwrap_epoch_secret C q (kp_private_key kp) = Ok secret"
    using rt [of w3] by blast
  show ?thesis
    by (intro exI2 [of _ p q])
      (simp add: wrap_is_randomized_but_both_unwrap_def draw_step [OF kp] group_secret_step [OF s]
        group_wrap_step [OF p(1)] group_wrap_step [OF q(1)] p(2,3) q(2,3) assert_true_def)
qed

text \<open>The wrong-key test passes exactly when the other key does not open the payload.\<close>

lemma unwrap_rejects_wrong_key_outcome:
  assumes C: "crypto_ok C"
  shows "\<exists>p priv. generated_pair C (fst priv) (snd priv) \<and> length p = 1180 \<and>
    fst (unwrap_rejects_wrong_key C w) = assert_true (\<forall>s. unwrap_epoch_secret C p (snd priv) \<noteq> Ok s)"
proof -
  obtain kp w1 where kp: "hybrid_keypair C w = (kp, w1)" by (metis surj_pair)
  obtain ko w2 where ko: "hybrid_keypair C w1 = (ko, w2)" by (metis surj_pair)
  obtain secret w3 where s: "group_new_epoch_secret C w2 = (secret, w3)" by (metis surj_pair)
  obtain p w4 where p: "wrap_epoch_secret C secret (kp_public_key kp) w3 = (Ok p, w4)" "length p = 1180"
    using wrap_group_roundtrip [OF C drawn_pair [OF kp] draw_group_secret [OF C s], of w3] by blast
  have "unwrap_epoch_secret C p (kp_private_key ko) = Err GUnwrapFailed \<longleftrightarrow>
      (\<forall>s. unwrap_epoch_secret C p (kp_private_key ko) \<noteq> Ok s)"
    using unwrap_group_other_key [OF C drawn_pair [OF ko] p(2)] by auto
  then show ?thesis
    using drawn_pair [OF ko] p(2)
    by (intro exI2 [of _ p "(kp_public_key ko, kp_private_key ko)"])
      (simp add: unwrap_rejects_wrong_key_def draw_step [OF kp] draw_step [OF ko] group_secret_step [OF s]
        group_wrap_step [OF p(1)])
qed

subsection \<open>The ratchet state\<close>

lemma ratchet_step:
  "now_unix S w = (t, w') \<Longrightarrow> ebind (call (epoch_ratchet_new S e secret)) k w = k (epoch_ratchet_new_with_started_at e secret t) w'"
  by (simp add: ebind_def call_def epoch_ratchet_new_def epoch_ratchet_new_with_started_at_def)

lemma ratchet_outbound_outcome:
  fixes S :: "('w, 'f :: zero, 'z) sys_scheme"
  assumes C: "crypto_ok S"
  shows "\<exists>k0 k1. length k0 = 32 \<and> length k1 = 32 \<and>
    fst (ratchet_outbound_advances_and_matches_receiver S w) = (assert_true ((k0 :: bytes) \<noteq> k1) :: ('e, unit) result)"
proof -
  obtain secret w1 where s: "group_new_epoch_secret S w = (secret, w1)" by (metis surj_pair)
  obtain t w2 where t: "now_unix S w1 = (t, w2)" by (metis surj_pair)
  obtain u w3 where u: "now_unix S w2 = (u, w3)" by (metis surj_pair)
  obtain k0 k1 where k: "hkdf_expect S (group_salt 4) secret (group_info 0) 32 = (Ok k0 :: ('e, bytes) result)" "length k0 = 32"
    "hkdf_expect S (group_salt 4) secret (group_info 1) 32 = (Ok k1 :: ('e, bytes) result)" "length k1 = 32"
    using hkdf_expect_32 [OF C] by metis
  show ?thesis
    by (intro exI2 [of _ k0 k1])
      (simp add: ratchet_outbound_advances_and_matches_receiver_def group_secret_step [OF s] ratchet_step [OF t]
        ratchet_step [OF u] epoch_ratchet_new_with_started_at_def er_next_outbound_key_def er_message_key_def derive_message_key_arr_def Let_def k
        G_MESSAGE_KEY_LEN_def assert_true_def)
qed

lemma should_rekey_tests_pass:
  fixes S :: "('w, 'f :: linordered_idom, 'z) sys_scheme"
  assumes "exact_cast (as_f64 S)"
  shows "always_passes (should_rekey_on_msg_bound S)" "always_passes (should_rekey_on_age S)"
proof -
  have "as_f64 S 604800 = 604800"
    using assms [unfolded exact_cast_def, rule_format, of 604800] by simp
  then show "always_passes (should_rekey_on_msg_bound S)" "always_passes (should_rekey_on_age S)"
    by (simp_all add: always_passes_def should_rekey_on_msg_bound_def should_rekey_on_age_def call_def ebind_def
        epoch_ratchet_new_with_started_at_def er_should_rekey_def G_DEFAULT_REKEY_MSG_BOUND_def
        G_DEFAULT_REKEY_AGE_SECONDS_def split: prod.split)
qed

end
