(* ===== verification/Dm_Tests.thy ===== *)
theory Dm_Tests
  imports Testing Dm_Counting Dm_Channel
begin

text \<open>
  The unit tests of direct-message sessions (\<open>src/dm_session.rs\<close>), as they are written, and that they pass
  for every instance of the primitives and in every world, provided the clock does not jump by the age bound
  while a test runs. The tampering test also needs that AES-GCM accepts one tag only (\<open>tag_unique\<close>); the
  re-key test compares two random secrets and passes exactly when they differ (\<open>auto_rekey_passes_iff\<close>).
  The codecs \<open>H\<close> and \<open>B\<close> are \<open>hex\<close> and the base64 engine.
\<close>

subsection \<open>The tests\<close>

definition parity_frame_aad_vector :: "text_codec \<Rightarrow> ('e, unit) result" where
  "parity_frame_aad_vector H =
     assert_eq (tc_encode H (frame_aad 7 3)) ''736b636861742f646d2d6672616d652f76317c00000000000000070000000000000003''"

definition token_roundtrip_with_and_without_kam :: "text_codec \<Rightarrow> ('e, unit) result" where
  "token_roundtrip_with_and_without_kam B =
     (let with_kam = \<lparr>sf_epoch = 4, sf_index = 9, sf_nonce = [1, 2, 3, 4, 5, 6, 7, 8, 9, 10, 11, 12],
            sf_body = replicate 40 0xAA, sf_kam = Some (replicate 1180 0xBB)\<rparr> in
      rbind (expect_ok (from_token B (to_token B with_kam))) (\<lambda>parsed.
      rbind (assert_eq parsed with_kam) (\<lambda>_.
      let no_kam = with_kam\<lparr>sf_kam := None\<rparr> in
      rbind (expect_ok (from_token B (to_token B no_kam))) (\<lambda>parsed2. asserts
        [assert_eq parsed2 no_kam,
         assert_ne (to_token B with_kam) (to_token B no_kam)]))))"

definition is_bad_token :: "(dm_session_error, 'a) result \<Rightarrow> bool" where
  "is_bad_token r = (case r of Err (BadToken _) \<Rightarrow> True | _ \<Rightarrow> False)"

definition from_token_rejects_bad_input :: "text_codec \<Rightarrow> ('e, unit) result" where
  "from_token_rejects_bad_input B = asserts
     [assert_true (is_bad_token (from_token B ''nope:abc'')),
      assert_true (is_bad_token (from_token B ''pqdr1:!!!not-base64!!!'')),
      let truncated = PQDR_SCHEME @ tc_encode B (replicate 4 0) in
      assert_true (is_bad_token (from_token B truncated))]"

definition two_party_roundtrip_single_message ::
  "('w, 'f :: {minus, ord, zero}, 'z) sys_scheme \<Rightarrow> ('w, 'e, unit) eff" where
  "two_party_roundtrip_single_message S =
     ebind (call (hybrid_keypair S)) (\<lambda>bob.
     let alice = dm_session_new ''bob''; bob_s = dm_session_new ''alice'' :: 'f dm_session in
     ebind (on_local (dm_seal S (lit ''hi bob'') (kp_public_key bob)) alice) (\<lambda>(frame, alice).
     ebind (lift (asserts
       [assert_eq (sf_epoch frame, sf_index frame) (0, 0),
        assert_true (sf_kam frame \<noteq> None)])) (\<lambda>_.
     ebind (lift (local_unwrap (dm_open S frame (kp_private_key bob)) bob_s)) (\<lambda>(m, bob_s).
     lift (assert_eq m (lit ''hi bob''))))))"

text \<open>The loop of the next test: seal, through a token, open, collect.\<close>

fun exchange_via_token ::
  "text_codec \<Rightarrow> ('w, 'f :: {minus, ord, zero}, 'z) sys_scheme \<Rightarrow> hybrid_key_pair \<Rightarrow> bytes list \<Rightarrow>
   'f dm_session \<Rightarrow> 'f dm_session \<Rightarrow> ('w, 'e, bytes list) eff" where
  "exchange_via_token B S bob [] alice bob_s = lift (Ok [])"
| "exchange_via_token B S bob (m # ms) alice bob_s =
     ebind (on_local (dm_seal S m (kp_public_key bob)) alice) (\<lambda>(f, alice).
     let token = to_token B f in
     ebind (lift (expect_ok (from_token B token))) (\<lambda>frame.
     ebind (lift (local_unwrap (dm_open S frame (kp_private_key bob)) bob_s)) (\<lambda>(x, bob_s).
     ebind (exchange_via_token B S bob ms alice bob_s) (\<lambda>out. lift (Ok (x # out))))))"

definition multi_message_in_epoch_roundtrip_via_token ::
  "text_codec \<Rightarrow> ('w, 'f :: {minus, ord, zero}, 'z) sys_scheme \<Rightarrow> ('w, 'e, unit) eff" where
  "multi_message_in_epoch_roundtrip_via_token B S =
     ebind (call (hybrid_keypair S)) (\<lambda>bob.
     let alice = dm_session_new ''bob''; bob_s = dm_session_new ''alice'' in
     ebind (exchange_via_token B S bob [lit ''a'', lit ''b'', lit ''c''] alice bob_s) (\<lambda>out.
     lift (assert_eq out [lit ''a'', lit ''b'', lit ''c''])))"

definition loss_and_reorder_tolerant_within_epoch ::
  "('w, 'f :: {minus, ord, zero}, 'z) sys_scheme \<Rightarrow> ('w, 'e, unit) eff" where
  "loss_and_reorder_tolerant_within_epoch S =
     ebind (call (hybrid_keypair S)) (\<lambda>bob.
     let alice = dm_session_new ''bob''; bob_s = dm_session_new ''alice'' :: 'f dm_session in
     ebind (on_local (dm_seal S (lit ''first'') (kp_public_key bob)) alice) (\<lambda>(f0, alice).
     ebind (on_local (dm_seal S (lit ''second'') (kp_public_key bob)) alice) (\<lambda>(f1, alice).
     ebind (on_local (dm_seal S (lit ''third'') (kp_public_key bob)) alice) (\<lambda>(f2, alice).
     ebind (lift (local_unwrap (dm_open S f0 (kp_private_key bob)) bob_s)) (\<lambda>(m0, bob_s).
     ebind (lift (assert_eq m0 (lit ''first''))) (\<lambda>_.
     ebind (lift (local_unwrap (dm_open S f2 (kp_private_key bob)) bob_s)) (\<lambda>(m2, bob_s).
     lift (assert_eq m2 (lit ''third'')))))))))"

definition kam_repeated_on_first_frames_then_stops ::
  "('w, 'f :: {minus, ord, zero}, 'z) sys_scheme \<Rightarrow> ('w, 'e, unit) eff" where
  "kam_repeated_on_first_frames_then_stops S =
     ebind (call (hybrid_keypair S)) (\<lambda>bob.
     let alice = dm_session_new ''bob''; ms = map (\<lambda>i. lit (''m'' @ decimal i)) [0..<5] in
     ebind (on_local (dm_seal_all S (kp_public_key bob) ms) alice) (\<lambda>(frames, alice).
     ebind (lift (for_each (take (unat KAM_REPEAT) frames) (\<lambda>frame. assert_true (sf_kam frame \<noteq> None)))) (\<lambda>_.
     lift (asserts
       [assert_true (sf_kam (frames ! unat KAM_REPEAT) = None),
        assert_eq (map sf_index frames) [0, 1, 2, 3, 4]]))))"

definition reordered_kam_frame_establishes_epoch ::
  "('w, 'f :: {minus, ord, zero}, 'z) sys_scheme \<Rightarrow> ('w, 'e, unit) eff" where
  "reordered_kam_frame_establishes_epoch S =
     ebind (call (hybrid_keypair S)) (\<lambda>bob.
     let alice = dm_session_new ''bob''; bob_s = dm_session_new ''alice'' :: 'f dm_session in
     ebind (on_local (dm_seal S (lit ''first'') (kp_public_key bob)) alice) (\<lambda>(f0, alice).
     ebind (on_local (dm_seal S (lit ''second'') (kp_public_key bob)) alice) (\<lambda>(f1, alice).
     ebind (lift (assert_true (sf_kam f1 \<noteq> None))) (\<lambda>_.
     ebind (lift (local_unwrap (dm_open S f1 (kp_private_key bob)) bob_s)) (\<lambda>(m1, bob_s).
     lift (assert_eq m1 (lit ''second'')))))))"

definition auto_rekey_starts_new_epoch_with_pcs ::
  "('w, 'f :: {minus, ord, zero}, 'z) sys_scheme \<Rightarrow> ('w, 'e, unit) eff" where
  "auto_rekey_starts_new_epoch_with_pcs S =
     ebind (call (hybrid_keypair S)) (\<lambda>bob.
     let alice = dm_session_with_bounds ''bob'' 2 DEFAULT_REKEY_AGE_SECONDS;
         bob_s = dm_session_new ''alice'' :: 'f dm_session in
     ebind (on_local (dm_seal S (lit ''e0m0'') (kp_public_key bob)) alice) (\<lambda>(f0, alice).
     ebind (on_local (dm_seal S (lit ''e0m1'') (kp_public_key bob)) alice) (\<lambda>(f1, alice).
     ebind (on_local (dm_seal S (lit ''e1m0'') (kp_public_key bob)) alice) (\<lambda>(f2, alice).
     ebind (lift (asserts
       [assert_eq (sf_epoch f0, sf_epoch f1) (0, 0),
        assert_eq (sf_epoch f2) 1,
        assert_true (sf_kam f2 \<noteq> None)])) (\<lambda>_.
     ebind (lift (local_unwrap (dm_open S f0 (kp_private_key bob)) bob_s)) (\<lambda>(m0, bob_s).
     ebind (lift (assert_eq m0 (lit ''e0m0''))) (\<lambda>_.
     ebind (lift (local_unwrap (dm_open S f2 (kp_private_key bob)) bob_s)) (\<lambda>(m2, bob_s).
     ebind (lift (assert_eq m2 (lit ''e1m0''))) (\<lambda>_.
     ebind (lift (expect (epoch_secret_for_test alice 0))) (\<lambda>s0.
     ebind (lift (expect (epoch_secret_for_test alice 1))) (\<lambda>s1.
     lift (assert_ne s0 s1))))))))))))"

definition open_rejects_tampered_body ::
  "('w, 'f :: {minus, ord, zero}, 'z) sys_scheme \<Rightarrow> ('w, 'e, unit) eff" where
  "open_rejects_tampered_body S =
     ebind (call (hybrid_keypair S)) (\<lambda>bob.
     let alice = dm_session_new ''bob''; bob_s = dm_session_new ''alice'' :: 'f dm_session in
     ebind (on_local (dm_seal S (lit ''authentic'') (kp_public_key bob)) alice) (\<lambda>(frame, alice).
     ebind (lift (flip_last (sf_body frame))) (\<lambda>bad.
     let frame = frame\<lparr>sf_body := bad\<rparr> in
     ebind (lift (local_result (dm_open S frame (kp_private_key bob)) bob_s)) (\<lambda>(r, bob_s).
     lift (assert_eq r (Err DmOpenFailed))))))"

definition open_without_kam_for_unknown_epoch_errors ::
  "('w, 'f :: {minus, ord, zero}, 'z) sys_scheme \<Rightarrow> ('w, 'e, unit) eff" where
  "open_without_kam_for_unknown_epoch_errors S =
     ebind (call (hybrid_keypair S)) (\<lambda>bob.
     let alice = dm_session_new ''bob''; bob_s = dm_session_new ''alice'' :: 'f dm_session in
     ebind (on_local (dm_seal S (lit ''x0'') (kp_public_key bob)) alice) (\<lambda>(last, alice).
     ebind (on_local (dm_seal_all S (kp_public_key bob) [lit ''x1'', lit ''x2'', lit ''x3'']) alice) (\<lambda>(frames, alice).
     let last = foldl (\<lambda>_ f. f) last frames in
     ebind (lift (assert_true (sf_kam last = None))) (\<lambda>_.
     ebind (lift (local_result (dm_open S last (kp_private_key bob)) bob_s)) (\<lambda>(r, bob_s).
     lift (assert_eq r (Err (MissingEpochSecret 0))))))))"

definition snapshot_restore_preserves_state ::
  "text_codec \<Rightarrow> 'f float_ops \<Rightarrow> ('w, 'f :: {minus, ord, zero}, 'z) sys_scheme \<Rightarrow> ('w, 'e, unit) eff" where
  "snapshot_restore_preserves_state H F S =
     ebind (call (hybrid_keypair S)) (\<lambda>bob.
     let alice = dm_session_with_bounds ''bob'' 5 DEFAULT_REKEY_AGE_SECONDS in
     ebind (on_local (dm_seal S (lit ''one'') (kp_public_key bob)) alice) (\<lambda>(_, alice).
     ebind (on_local (dm_seal S (lit ''two'') (kp_public_key bob)) alice) (\<lambda>(_, alice).
     let snap = snapshot H F alice in
     ebind (lift (expect_ok (restore H F snap))) (\<lambda>restored.
     ebind (lift (asserts
       [assert_eq (ds_peer restored) ''bob'',
        assert_eq (ds_rekey_msg_bound restored) 5,
        assert_eq (epoch_secret_for_test restored 0) (epoch_secret_for_test alice 0)])) (\<lambda>_.
     ebind (on_local (dm_seal S (lit ''three'') (kp_public_key bob)) restored) (\<lambda>(frame, restored).
     ebind (lift (assert_eq (sf_epoch frame, sf_index frame) (0, 2))) (\<lambda>_.
     let bob_s = dm_session_new ''alice'' :: 'f dm_session in
     ebind (lift (local_unwrap (dm_open S frame (kp_private_key bob)) bob_s)) (\<lambda>(m, bob_s).
     lift (assert_eq m (lit ''three''))))))))))"

subsection \<open>A sender, message by message\<close>

definition sender_at ::
  "('w, 'f :: {minus, ord, zero}, 'z) sys_scheme \<Rightarrow> bytes \<Rightarrow> u64 \<Rightarrow> u64 \<Rightarrow> 'f dm_session \<Rightarrow> nat \<Rightarrow> bool" where
  "sender_at S priv bound age s n \<longleftrightarrow>
     sender_inv S priv s \<and> at_count S s n \<and> ds_rekey_msg_bound s = bound \<and> ds_rekey_age_seconds s = age"

lemma sender_at_init: "sender_at S priv bound age (dm_session_with_bounds peer bound age) 0"
  unfolding sender_at_def
  by (intro conjI sender_inv_init at_count_init) (simp_all add: dm_session_with_bounds_def)

lemma sender_at_new:
  "sender_at S priv DEFAULT_REKEY_MSG_BOUND DEFAULT_REKEY_AGE_SECONDS (dm_session_new peer) 0"
  unfolding dm_session_new_def by (rule sender_at_init)

lemma epochs_used_le: "at_count S s n \<Longrightarrow> epochs_used s \<le> n"
proof (cases "ds_ratchet s")
  case (Some r)
  assume "at_count S s n"
  then obtain p where p: "n = Suc p" "dr_epoch r = of_nat (p div per_epoch (ds_rekey_msg_bound s))"
    using Some by (auto simp: at_count_def)
  have "unat (dr_epoch r) \<le> p div per_epoch (ds_rekey_msg_bound s)" by (simp add: p(2) unat_of_nat)
  also have "\<dots> \<le> p" by simp
  finally show ?thesis using Some by (simp add: epochs_used_def p(1))
qed (simp add: epochs_used_def)

text \<open>A frame that opens to \<open>m\<close> and whose fields fit a token, in the slot of the \<open>n\<close>-th message.\<close>

definition frame_of :: "('w, 'z) crypto_scheme \<Rightarrow> bytes \<Rightarrow> u64 \<Rightarrow> (u64 \<Rightarrow> bytes option) \<Rightarrow> nat \<Rightarrow> bytes \<Rightarrow> sealed_dm_frame \<Rightarrow> bool" where
  "frame_of C priv bound sec n m f \<longleftrightarrow>
     deliverable C priv sec f m \<and> sf_epoch f = of_nat (n div per_epoch bound) \<and>
     sf_index f = of_nat (n mod per_epoch bound) \<and> (sf_kam f \<noteq> None \<longleftrightarrow> n mod per_epoch bound < 3) \<and>
     length (sf_nonce f) = 12"

lemma frame_of_mono: "frame_of C priv bound sec n m f \<Longrightarrow> sec \<subseteq>\<^sub>m sec' \<Longrightarrow> frame_of C priv bound sec' n m f"
  by (auto simp: frame_of_def intro: deliverable_mono)

lemma frame_of_fits:
  assumes C: "crypto_ok C" and f: "frame_of C priv bound sec n m f" and m: "length m < 2 ^ 31"
  shows "frame_fits f"
proof -
  have "length (sf_body f) = length m + 16"
    using f by (auto simp: frame_of_def deliverable_def dest: aead_open_OkD(3) [OF C])
  moreover have "length kam = 1180" if "sf_kam f = Some kam" for kam
    using f that by (auto simp: frame_of_def deliverable_def dest: unwrap_dm_OkD)
  ultimately show ?thesis using f m by (auto simp: frame_fits_def frame_of_def split: option.split)
qed

lemma seal_next:
  assumes C: "crypto_ok S" and kp: "generated_pair S pub priv" and steady: "clock_steady S age"
    and s: "sender_at S priv bound age s n" and n: "n < 2 ^ 64" and m: "length m \<le> GCM_MAX"
  obtains f s' w' where "dm_seal S m pub (s, w) = (Ok f, (s', w'))" "sender_at S priv bound age s' (Suc n)"
    "map_of (ds_epoch_secrets s) \<subseteq>\<^sub>m map_of (ds_epoch_secrets s')"
    "frame_of S priv bound (map_of (ds_epoch_secrets s')) n m f"
proof -
  have inv: "sender_inv S priv s" and ct: "at_count S s n"
    and b: "ds_rekey_msg_bound s = bound" "ds_rekey_age_seconds s = age"
    using s by (simp_all add: sender_at_def)
  have u: "epochs_used s < 2 ^ 64" using epochs_used_le [OF ct] n by simp
  obtain f s' w' where f: "dm_seal S m pub (s, w) = (Ok f, (s', w'))" and i: "sender_inv S priv s'"
    and le: "map_of (ds_epoch_secrets s) \<subseteq>\<^sub>m map_of (ds_epoch_secrets s')"
    and d: "deliverable S priv (map_of (ds_epoch_secrets s')) f m" and sh: "frame_shape bound f"
    using dm_seal_delivers [OF C kp inv u m, of w] unfolding b by blast
  have step: "sf_epoch f = of_nat (n div per_epoch bound)" "sf_index f = of_nat (n mod per_epoch bound)"
    "at_count S s' (Suc n)" "ds_rekey_msg_bound s' = bound" "ds_rekey_age_seconds s' = age"
    using seal_count_step [OF C _ ct f] steady by (simp_all add: b)
  have "sf_kam f \<noteq> None \<longleftrightarrow> n mod per_epoch bound < 3"
    using sh step(2) less_KAM_REPEAT_iff [OF mod_per_epoch_less] by (simp add: frame_shape_def)
  with sh d step have "frame_of S priv bound (map_of (ds_epoch_secrets s')) n m f"
    by (simp add: frame_of_def frame_shape_def)
  with f i le step show thesis by (intro that [of f s' w']) (simp_all add: sender_at_def)
qed

text \<open>A receiver whose secrets agree with the sender's.\<close>

lemma open_next:
  assumes f: "frame_of C priv bound sec n m f" and sub: "map_of (ds_epoch_secrets s) \<subseteq>\<^sub>m sec"
    and known: "map_of (ds_epoch_secrets s) (of_nat (n div per_epoch bound)) \<noteq> None \<or> n mod per_epoch bound < 3"
  obtains s' where "dm_open C f priv s = (Ok m, s')" "map_of (ds_epoch_secrets s') \<subseteq>\<^sub>m sec"
    "map_of (ds_epoch_secrets s') (of_nat (n div per_epoch bound)) \<noteq> None"
proof -
  have e: "sf_epoch f = of_nat (n div per_epoch bound)" using f by (simp add: frame_of_def)
  have "\<exists>s'. dm_open C f priv s = (Ok m, s') \<and> map_of (ds_epoch_secrets s') \<subseteq>\<^sub>m sec \<and>
      dom (map_of (ds_epoch_secrets s')) = insert (sf_epoch f) (dom (map_of (ds_epoch_secrets s)))"
    using f known by (intro dm_open_delivers [OF _ sub]) (auto simp: frame_of_def)
  then obtain s' where o: "dm_open C f priv s = (Ok m, s')" "map_of (ds_epoch_secrets s') \<subseteq>\<^sub>m sec"
    and d: "dom (map_of (ds_epoch_secrets s')) = insert (sf_epoch f) (dom (map_of (ds_epoch_secrets s)))"
    by blast
  have "sf_epoch f \<in> dom (map_of (ds_epoch_secrets s'))" by (simp only: d insertI1)
  then have "map_of (ds_epoch_secrets s') (of_nat (n div per_epoch bound)) \<noteq> None" unfolding e domIff .
  with o show thesis by (rule that)
qed

lemma per_epoch_values [simp]: "per_epoch DEFAULT_REKEY_MSG_BOUND = 50" "per_epoch 2 = 2" "per_epoch 5 = 5"
  by (simp_all add: per_epoch_def DEFAULT_REKEY_MSG_BOUND_def)

lemma new_session_knows_nothing: "map_of (ds_epoch_secrets (dm_session_new peer)) \<subseteq>\<^sub>m sec"
  by (simp_all add: dm_session_new_def dm_session_with_bounds_def)

text \<open>The steps of a test.\<close>

lemma seal_step:
  "dm_seal S m pub (s, w) = (Ok f, (s', w')) \<Longrightarrow> ebind (on_local (dm_seal S m pub) s) k w = k (f, s') w'"
  by (simp add: ebind_def on_local_def)

lemma seal_all_step:
  "dm_seal_all S pub ms (s, w) = (Ok fs, (s', w')) \<Longrightarrow> ebind (on_local (dm_seal_all S pub ms) s) k w = k (fs, s') w'"
  by (simp add: ebind_def on_local_def)

lemma exchange_step:
  "exchange_via_token B S bob ms alice bob_s w = (Ok out :: ('e, bytes list) result, w') \<Longrightarrow> ebind (exchange_via_token B S bob ms alice bob_s) k w = (k out w' :: ('e, 'a) result \<times> 'w)"
  by (rule ebind_Ok)

lemma open_step: "dm_open C f priv s = (Ok m, s') \<Longrightarrow> local_unwrap (dm_open C f priv) s = Ok (m, s')"
  by (rule local_unwrap_Ok)

lemma open_error_step: "dm_open C f priv s = (Err e, s') \<Longrightarrow> local_result (dm_open C f priv) s = Ok (Err e, s')"
  by (rule local_result_Err)

subsection \<open>The token tests pass\<close>

lemma hex_digits: "(w :: u8) = of_nat n \<Longrightarrow> n < 256 \<Longrightarrow> unat w = n"
  by (simp add: unat_of_nat)

lemma token_tests_pass:
  assumes "hex_ok H" "text_codec_ok B" "rejects_outside base64_alphabet B"
  shows "passes (parity_frame_aad_vector H)" "passes (token_roundtrip_with_and_without_kam B)"
    "passes (from_token_rejects_bad_input B)"
proof -
  have "hex_text (frame_aad 7 3) = ''736b636861742f646d2d6672616d652f76317c00000000000000070000000000000003''"
    by code_simp
  then show "passes (parity_frame_aad_vector H)"
    using assms(1) by (simp add: passes_def parity_frame_aad_vector_def hex_ok_def)
  let ?f = "\<lparr>sf_epoch = 4, sf_index = 9, sf_nonce = [1, 2, 3, 4, 5, 6, 7, 8, 9, 10, 11, 12],
    sf_body = replicate 40 0xAA, sf_kam = Some (replicate 1180 0xBB)\<rparr>"
  have fits: "frame_fits ?f" "frame_fits (?f\<lparr>sf_kam := None\<rparr>)" by (simp_all add: frame_fits_def)
  note rt = from_token_to_token [OF assms(2) fits(1)] from_token_to_token [OF assms(2) fits(2)]
  have "to_token B ?f \<noteq> to_token B (?f\<lparr>sf_kam := None\<rparr>)"
  proof
    assume "to_token B ?f = to_token B (?f\<lparr>sf_kam := None\<rparr>)"
    then have "(Ok ?f :: (dm_session_error, _) result) = Ok (?f\<lparr>sf_kam := None\<rparr>)" using rt by metis
    then show False by simp
  qed
  with rt show "passes (token_roundtrip_with_and_without_kam B)"
    by (simp add: passes_def token_roundtrip_with_and_without_kam_def Let_def)
  have 1: "is_bad_token (from_token B ''nope:abc'')"
    by (simp add: from_token_def PQDR_SCHEME_def strip_prefix_def is_bad_token_def)
  obtain e where "tc_decode B ''!!!not-base64!!!'' = Inl e"
    using assms(3) [unfolded rejects_outside_def, rule_format, of "''!!!not-base64!!!''"]
    by (auto simp: base64_alphabet_def)
  then have 2: "is_bad_token (from_token B ''pqdr1:!!!not-base64!!!'')"
    by (simp add: from_token_def PQDR_SCHEME_def strip_prefix_def is_bad_token_def)
  have "from_token B (PQDR_SCHEME @ tc_encode B (replicate 4 0)) = parse_frame (replicate 4 0)"
    by (simp add: from_token_def tc_decode_encode [OF assms(2)])
  moreover have "parse_frame (replicate 4 0) = Err (BadToken ''truncated frame'')"
    by (simp add: parse_frame_def take_u64_def take_chunk_def)
  ultimately have 3: "is_bad_token (from_token B (PQDR_SCHEME @ tc_encode B (replicate 4 0)))"
    by (simp add: is_bad_token_def)
  show "passes (from_token_rejects_bad_input B)"
    using 1 2 3 by (simp add: passes_def from_token_rejects_bad_input_def)
qed

subsection \<open>The session tests pass\<close>

lemma single_message_passes:
  fixes S :: "('w, 'f :: {minus, ord, zero}, 'z) sys_scheme"
  assumes C: "crypto_ok S" and steady: "clock_steady S DEFAULT_REKEY_AGE_SECONDS"
  shows "always_passes (two_party_roundtrip_single_message S)"
  unfolding always_passes_def
proof
  fix w
  obtain bob w1 where bob: "hybrid_keypair S w = (bob, w1)" by (metis surj_pair)
  note kp = drawn_pair [OF bob]
  obtain f alice w2 where f: "dm_seal S (lit ''hi bob'') (kp_public_key bob) (dm_session_new ''bob'', w1) = (Ok f, (alice, w2))"
    and fr: "frame_of S (kp_private_key bob) DEFAULT_REKEY_MSG_BOUND (map_of (ds_epoch_secrets alice)) 0 (lit ''hi bob'') f"
    by (rule seal_next [OF C kp steady sender_at_new, of "lit ''hi bob''" "''bob''" w1]) (simp_all add: GCM_MAX_def)
  obtain bob_s where o: "dm_open S f (kp_private_key bob) (dm_session_new ''alice'' :: 'f dm_session) = (Ok (lit ''hi bob''), bob_s)"
    by (rule open_next [OF fr new_session_knows_nothing]) simp_all
  have "sf_epoch f = 0" "sf_index f = 0" "sf_kam f \<noteq> None" using fr by (simp_all add: frame_of_def)
  then show "fst (two_party_roundtrip_single_message S w) = Ok ()"
    unfolding two_party_roundtrip_single_message_def Let_def
    by (simp add: draw_step [OF bob] seal_step [OF f] open_step [OF o] del: lit_Cons)
qed

lemma loss_and_reorder_passes:
  fixes S :: "('w, 'f :: {minus, ord, zero}, 'z) sys_scheme"
  assumes C: "crypto_ok S" and steady: "clock_steady S DEFAULT_REKEY_AGE_SECONDS"
  shows "always_passes (loss_and_reorder_tolerant_within_epoch S)"
  unfolding always_passes_def
proof
  fix w
  obtain bob w1 where bob: "hybrid_keypair S w = (bob, w1)" by (metis surj_pair)
  let ?priv = "kp_private_key bob" and ?F = "\<lambda>s. frame_of S (kp_private_key bob) DEFAULT_REKEY_MSG_BOUND (map_of (ds_epoch_secrets s))"
  note sealing = seal_next [OF C drawn_pair [OF bob] steady]
  have m: "length (lit ''first'') \<le> GCM_MAX" "length (lit ''second'') \<le> GCM_MAX" "length (lit ''third'') \<le> GCM_MAX"
    by (simp_all add: GCM_MAX_def)
  obtain f0 s0 v0 where f0: "dm_seal S (lit ''first'') (kp_public_key bob) (dm_session_new ''bob'', w1) = (Ok f0, (s0, v0))"
      "sender_at S ?priv DEFAULT_REKEY_MSG_BOUND DEFAULT_REKEY_AGE_SECONDS s0 1" "?F s0 0 (lit ''first'') f0"
    by (rule sealing [OF sender_at_new _ m(1), of "''bob''" w1]) simp_all
  obtain f1 s1 v1 where f1: "dm_seal S (lit ''second'') (kp_public_key bob) (s0, v0) = (Ok f1, (s1, v1))"
      "sender_at S ?priv DEFAULT_REKEY_MSG_BOUND DEFAULT_REKEY_AGE_SECONDS s1 (Suc 1)" "map_of (ds_epoch_secrets s0) \<subseteq>\<^sub>m map_of (ds_epoch_secrets s1)"
    by (rule sealing [OF f0(2) _ m(2), of v0]) simp_all
  obtain f2 s2 v2 where f2: "dm_seal S (lit ''third'') (kp_public_key bob) (s1, v1) = (Ok f2, (s2, v2))"
      "map_of (ds_epoch_secrets s1) \<subseteq>\<^sub>m map_of (ds_epoch_secrets s2)" "?F s2 (Suc 1) (lit ''third'') f2"
    by (rule sealing [OF f1(2) _ m(3), of v1]) simp_all
  have "?F s2 0 (lit ''first'') f0" by (rule frame_of_mono [OF f0(3) map_le_trans [OF f1(3) f2(2)]])
  then obtain b0 where o0: "dm_open S f0 ?priv (dm_session_new ''alice'' :: 'f dm_session) = (Ok (lit ''first''), b0)"
      and b0: "map_of (ds_epoch_secrets b0) \<subseteq>\<^sub>m map_of (ds_epoch_secrets s2)"
    by (rule open_next [OF _ new_session_knows_nothing]) simp_all
  obtain b2 where o2: "dm_open S f2 ?priv b0 = (Ok (lit ''third''), b2)"
    by (rule open_next [OF f2(3) b0]) simp_all
  show "fst (loss_and_reorder_tolerant_within_epoch S w) = Ok ()"
    unfolding loss_and_reorder_tolerant_within_epoch_def Let_def
    by (simp add: draw_step [OF bob] seal_step [OF f0(1)] seal_step [OF f1(1)] seal_step [OF f2(1)]
        open_step [OF o0] open_step [OF o2] del: lit_Cons)
qed

lemma reordered_kam_passes:
  fixes S :: "('w, 'f :: {minus, ord, zero}, 'z) sys_scheme"
  assumes C: "crypto_ok S" and steady: "clock_steady S DEFAULT_REKEY_AGE_SECONDS"
  shows "always_passes (reordered_kam_frame_establishes_epoch S)"
  unfolding always_passes_def
proof
  fix w
  obtain bob w1 where bob: "hybrid_keypair S w = (bob, w1)" by (metis surj_pair)
  note sealing = seal_next [OF C drawn_pair [OF bob] steady]
  have m: "length (lit ''first'') \<le> GCM_MAX" "length (lit ''second'') \<le> GCM_MAX"
    by (simp_all add: GCM_MAX_def)
  obtain f0 s0 v0 where f0: "dm_seal S (lit ''first'') (kp_public_key bob) (dm_session_new ''bob'', w1) = (Ok f0, (s0, v0))"
      "sender_at S (kp_private_key bob) DEFAULT_REKEY_MSG_BOUND DEFAULT_REKEY_AGE_SECONDS s0 1"
    by (rule sealing [OF sender_at_new _ m(1), of "''bob''" w1]) simp_all
  obtain f1 s1 v1 where f1: "dm_seal S (lit ''second'') (kp_public_key bob) (s0, v0) = (Ok f1, (s1, v1))"
      and fr: "frame_of S (kp_private_key bob) DEFAULT_REKEY_MSG_BOUND (map_of (ds_epoch_secrets s1)) 1 (lit ''second'') f1"
    by (rule sealing [OF f0(2) _ m(2), of v0]) simp_all
  obtain b1 where o: "dm_open S f1 (kp_private_key bob) (dm_session_new ''alice'' :: 'f dm_session) = (Ok (lit ''second''), b1)"
    by (rule open_next [OF fr new_session_knows_nothing]) simp_all
  have "sf_kam f1 \<noteq> None" using fr by (simp add: frame_of_def)
  then show "fst (reordered_kam_frame_establishes_epoch S w) = Ok ()"
    unfolding reordered_kam_frame_establishes_epoch_def Let_def
    by (simp add: draw_step [OF bob] seal_step [OF f0(1)] seal_step [OF f1] open_step [OF o] del: lit_Cons)
qed

lemma kam_repeated_passes:
  fixes S :: "('w, 'f :: {minus, ord, zero}, 'z) sys_scheme"
  assumes C: "crypto_ok S" and steady: "clock_steady S DEFAULT_REKEY_AGE_SECONDS"
  shows "always_passes (kam_repeated_on_first_frames_then_stops S)"
  unfolding always_passes_def
proof
  fix w
  obtain bob w1 where bob: "hybrid_keypair S w = (bob, w1)" by (metis surj_pair)
  define ms where "ms = map (\<lambda>i. lit (''m'' @ decimal i)) [0..<5]"
  have d: "length (decimal i) = 1" if "i < 5" for i using that by (subst decimal.simps) simp
  have sz: "length ms \<le> 2 ^ 64" "\<forall>m \<in> set ms. length m \<le> GCM_MAX" and l: "length ms = 5"
    by (auto simp: ms_def GCM_MAX_def d)
  obtain fs s v where run: "dm_seal_all S (kp_public_key bob) ms (dm_session_new ''bob'', w1) = (Ok fs, (s, v))"
    and len: "length fs = 5"
    and sl: "\<forall>i < 5. sf_epoch (fs ! i) = of_nat (i div 50) \<and> sf_index (fs ! i) = of_nat (i mod 50) \<and>
       (sf_kam (fs ! i) \<noteq> None \<longleftrightarrow> i mod 50 < 3)"
    using slots_run [OF C drawn_pair [OF bob] sz steady, of "''bob''" DEFAULT_REKEY_MSG_BOUND w1]
    unfolding l per_epoch_values dm_session_new_def by blast
  have ix: "sf_index (fs ! i) = of_nat i" "sf_kam (fs ! i) \<noteq> None \<longleftrightarrow> i < 3" if "i < 5" for i
    using sl that by simp_all
  note kam = ix(2)
  have "map sf_index fs = map of_nat [0..<5]"
    using ix(1) len by (intro nth_equalityI) simp_all
  then have "map sf_index fs = [0, 1, 2, 3, 4]" by (simp add: upt_rec)
  moreover have "\<forall>f \<in> set (take 3 fs). sf_kam f \<noteq> None"
    using kam len by (auto simp: in_set_conv_nth)
  moreover have "sf_kam (fs ! 3) = None" using kam [of 3] by simp
  ultimately show "fst (kam_repeated_on_first_frames_then_stops S w) = Ok ()"
    unfolding kam_repeated_on_first_frames_then_stops_def Let_def ms_def [symmetric]
    by (simp add: draw_step [OF bob] seal_all_step [OF run] KAM_REPEAT_def for_each_OkI del: lit_Cons lit_append)
qed

lemma exchange_delivers:
  fixes S :: "('w, 'f :: {minus, ord, zero}, 'z) sys_scheme"
  assumes C: "crypto_ok S" and steady: "clock_steady S DEFAULT_REKEY_AGE_SECONDS" and B: "text_codec_ok B"
    and kp: "generated_pair S (kp_public_key bob) (kp_private_key bob)"
    and s: "sender_at S (kp_private_key bob) DEFAULT_REKEY_MSG_BOUND DEFAULT_REKEY_AGE_SECONDS alice n"
    and sub: "map_of (ds_epoch_secrets bob_s) \<subseteq>\<^sub>m map_of (ds_epoch_secrets alice)"
    and n: "n + length ms \<le> 3" and m: "\<forall>m \<in> set ms. length m < 2 ^ 31"
  shows "\<exists>w'. exchange_via_token B S bob ms alice bob_s w = (Ok ms :: ('e, bytes list) result, w')"
  using s sub n m
proof (induction ms arbitrary: alice bob_s n w)
  case (Cons m ms)
  have sz: "length m \<le> GCM_MAX" "length m < 2 ^ 31" using Cons.prems(4) by (simp_all add: GCM_MAX_def)
  obtain f s1 w1 where f: "dm_seal S m (kp_public_key bob) (alice, w) = (Ok f, (s1, w1))"
    and s1: "sender_at S (kp_private_key bob) DEFAULT_REKEY_MSG_BOUND DEFAULT_REKEY_AGE_SECONDS s1 (Suc n)"
      "map_of (ds_epoch_secrets alice) \<subseteq>\<^sub>m map_of (ds_epoch_secrets s1)"
    and fr: "frame_of S (kp_private_key bob) DEFAULT_REKEY_MSG_BOUND (map_of (ds_epoch_secrets s1)) n m f"
    by (rule seal_next [OF C kp steady Cons.prems(1) _ sz(1), of w]) (use Cons.prems(3) in simp_all)
  have t: "from_token B (to_token B f) = Ok f"
    by (rule from_token_to_token [OF B frame_of_fits [OF C fr sz(2)]])
  obtain b1 where o: "dm_open S f (kp_private_key bob) bob_s = (Ok m, b1)"
    and b1: "map_of (ds_epoch_secrets b1) \<subseteq>\<^sub>m map_of (ds_epoch_secrets s1)"
    by (rule open_next [OF fr map_le_trans [OF Cons.prems(2) s1(2)]]) (use Cons.prems(3) in simp_all)
  obtain w' where "exchange_via_token B S bob ms s1 b1 w1 = (Ok ms :: ('e, bytes list) result, w')"
    using Cons.IH [OF s1(1) b1, of w1] Cons.prems(3,4) by (simp del: exchange_via_token.simps) blast
  then show ?case
    by (simp add: seal_step [OF f] t open_step [OF o] exchange_step)
qed simp

lemma via_token_passes:
  fixes S :: "('w, 'f :: {minus, ord, zero}, 'z) sys_scheme"
  assumes C: "crypto_ok S" and steady: "clock_steady S DEFAULT_REKEY_AGE_SECONDS" and B: "text_codec_ok B"
  shows "always_passes (multi_message_in_epoch_roundtrip_via_token B S)"
  unfolding always_passes_def
proof
  fix w
  obtain bob w1 where bob: "hybrid_keypair S w = (bob, w1)" by (metis surj_pair)
  have "\<exists>w'. exchange_via_token B S bob [lit ''a'', lit ''b'', lit ''c''] (dm_session_new ''bob'') (dm_session_new ''alice'') w1 =
      (Ok [lit ''a'', lit ''b'', lit ''c''] :: (unit, bytes list) result, w')"
    by (rule exchange_delivers [OF C steady B drawn_pair [OF bob] sender_at_new new_session_knows_nothing]) simp_all
  then obtain w' where x: "exchange_via_token B S bob [lit ''a'', lit ''b'', lit ''c''] (dm_session_new ''bob'') (dm_session_new ''alice'') w1 =
      (Ok [lit ''a'', lit ''b'', lit ''c''] :: (unit, bytes list) result, w')" by blast
  show "fst (multi_message_in_epoch_roundtrip_via_token B S w) = (Ok () :: (unit, unit) result)"
    unfolding multi_message_in_epoch_roundtrip_via_token_def Let_def
    by (simp add: draw_step [OF bob] exchange_step [OF x] del: exchange_via_token.simps lit_Cons)
qed

text \<open>
  The last assertion of the re-key test compares two secrets that were drawn at random: the test passes
  exactly when the two draws differ.
\<close>

lemma auto_rekey_passes_iff:
  fixes S :: "('w, 'f :: {minus, ord, zero}, 'z) sys_scheme"
  assumes C: "crypto_ok S" and steady: "clock_steady S DEFAULT_REKEY_AGE_SECONDS"
  shows "\<exists>(s0 :: bytes) (s1 :: bytes). length s0 = 32 \<and> length s1 = 32 \<and>
    fst (auto_rekey_starts_new_epoch_with_pcs S w) = (if s0 \<noteq> s1 then Ok () else (Panic :: ('e, unit) result))"
proof -
  obtain bob w1 where bob: "hybrid_keypair S w = (bob, w1)" by (metis surj_pair)
  let ?priv = "kp_private_key bob" and ?F = "\<lambda>s. frame_of S (kp_private_key bob) 2 (map_of (ds_epoch_secrets s))"
    and ?at = "sender_at S (kp_private_key bob) 2 DEFAULT_REKEY_AGE_SECONDS"
  note sealing = seal_next [OF C drawn_pair [OF bob] steady]
  have m: "length (lit ''e0m0'') \<le> GCM_MAX" "length (lit ''e0m1'') \<le> GCM_MAX" "length (lit ''e1m0'') \<le> GCM_MAX"
    by (simp_all add: GCM_MAX_def)
  obtain f0 s0 v0 where f0: "dm_seal S (lit ''e0m0'') (kp_public_key bob)
        (dm_session_with_bounds ''bob'' 2 DEFAULT_REKEY_AGE_SECONDS, w1) = (Ok f0, (s0, v0))"
      "?at s0 1" "?F s0 0 (lit ''e0m0'') f0"
    by (rule sealing [OF sender_at_init _ m(1), where w = w1]) simp_all
  obtain f1 s1 v1 where f1: "dm_seal S (lit ''e0m1'') (kp_public_key bob) (s0, v0) = (Ok f1, (s1, v1))"
      "?at s1 (Suc 1)" "map_of (ds_epoch_secrets s0) \<subseteq>\<^sub>m map_of (ds_epoch_secrets s1)" "?F s1 1 (lit ''e0m1'') f1"
    by (rule sealing [OF f0(2) _ m(2), of v0]) simp_all
  obtain f2 s2 v2 where f2: "dm_seal S (lit ''e1m0'') (kp_public_key bob) (s1, v1) = (Ok f2, (s2, v2))"
      "?at s2 (Suc (Suc 1))" "map_of (ds_epoch_secrets s1) \<subseteq>\<^sub>m map_of (ds_epoch_secrets s2)" "?F s2 (Suc 1) (lit ''e1m0'') f2"
    by (rule sealing [OF f1(2) _ m(3), of v1]) simp_all
  have fr: "?F s2 0 (lit ''e0m0'') f0" by (rule frame_of_mono [OF f0(3) map_le_trans [OF f1(3) f2(3)]])
  obtain b0 where o0: "dm_open S f0 ?priv (dm_session_new ''alice'' :: 'f dm_session) = (Ok (lit ''e0m0''), b0)"
      and b0: "map_of (ds_epoch_secrets b0) \<subseteq>\<^sub>m map_of (ds_epoch_secrets s2)"
    by (rule open_next [OF fr new_session_knows_nothing]) simp_all
  obtain b2 where o2: "dm_open S f2 ?priv b0 = (Ok (lit ''e1m0''), b2)"
    by (rule open_next [OF f2(4) b0]) simp_all
  have slots: "sf_epoch f0 = 0" "sf_epoch f1 = 0" "sf_epoch f2 = 1" "sf_kam f2 \<noteq> None"
    using f0(3) f1(4) f2(4) by (simp_all add: frame_of_def)
  obtain k0 k1 where k: "epoch_secret_for_test s2 0 = Some k0" "epoch_secret_for_test s2 1 = Some k1"
    using fr f2(4) slots by (auto simp: frame_of_def deliverable_def epoch_secret_for_test_def)
  have wf: "session_wf s2" using f2(2) by (simp add: sender_at_def at_count_def)
  have "fst (auto_rekey_starts_new_epoch_with_pcs S w) = (if k0 \<noteq> k1 then Ok () else (Panic :: ('e, unit) result))"
    unfolding auto_rekey_starts_new_epoch_with_pcs_def Let_def
    using slots by (simp add: draw_step [OF bob] seal_step [OF f0(1)] seal_step [OF f1(1)] seal_step [OF f2(1)]
        open_step [OF o0] open_step [OF o2] k del: lit_Cons)
  moreover have "length k0 = 32" "length k1 = 32"
    using session_wf_secret_length [OF wf] k by (simp_all add: epoch_secret_for_test_def)
  ultimately show ?thesis by (intro exI [of _ k0] exI [of _ k1]) simp
qed

lemma missing_kam_passes:
  fixes S :: "('w, 'f :: {minus, ord, zero}, 'z) sys_scheme"
  assumes C: "crypto_ok S" and steady: "clock_steady S DEFAULT_REKEY_AGE_SECONDS"
  shows "always_passes (open_without_kam_for_unknown_epoch_errors S)"
  unfolding always_passes_def
proof
  fix w
  obtain bob w1 where bob: "hybrid_keypair S w = (bob, w1)" by (metis surj_pair)
  let ?ms = "[lit ''x0'', lit ''x1'', lit ''x2'', lit ''x3'']"
  have sz: "length ?ms \<le> 2 ^ 64" "\<forall>m \<in> set ?ms. length m \<le> GCM_MAX" by (simp_all add: GCM_MAX_def)
  obtain fs s v where run: "dm_seal_all S (kp_public_key bob) ?ms (dm_session_new ''bob'', w1) = (Ok fs, (s, v))"
    and len: "length fs = length ?ms"
    and sl: "\<forall>i < length ?ms. sf_epoch (fs ! i) = of_nat (i div 50) \<and> sf_index (fs ! i) = of_nat (i mod 50) \<and>
       (sf_kam (fs ! i) \<noteq> None \<longleftrightarrow> i mod 50 < 3)"
    using slots_run [OF C drawn_pair [OF bob] sz steady, of "''bob''" DEFAULT_REKEY_MSG_BOUND w1]
    unfolding per_epoch_values dm_session_new_def by blast
  from run obtain f0 s0 v0 gs where f0: "dm_seal S (lit ''x0'') (kp_public_key bob) (dm_session_new ''bob'', w1) = (Ok f0, (s0, v0))"
    and gs: "dm_seal_all S (kp_public_key bob) [lit ''x1'', lit ''x2'', lit ''x3''] (s0, v0) = (Ok gs, (s, v))" "fs = f0 # gs"
    by (auto simp: ebind_eq_Ok_iff simp del: lit_Cons)
  have "length gs = 3" using len gs(2) by simp
  then obtain f1 f2 f3 where g: "gs = [f1, f2, f3]" by (auto simp: length_Suc_conv numeral_3_eq_3)
  have l: "sf_epoch f3 = 0" "sf_kam f3 = None"
    using sl [rule_format, of 3] by (simp_all add: gs(2) g)
  have o: "dm_open S f3 (kp_private_key bob) (dm_session_new ''alice'' :: 'f dm_session) =
      (Err (MissingEpochSecret 0), dm_session_new ''alice'')"
    using l by (simp add: dm_open_def dm_session_new_def dm_session_with_bounds_def)
  show "fst (open_without_kam_for_unknown_epoch_errors S w) = Ok ()"
    unfolding open_without_kam_for_unknown_epoch_errors_def Let_def
    using l by (simp add: draw_step [OF bob] seal_step [OF f0] seal_all_step [OF gs(1)] g open_error_step [OF o] del: lit_Cons dm_seal_all.simps)
qed

lemma tampered_body_passes:
  fixes S :: "('w, 'f :: {minus, ord, zero}, 'z) sys_scheme"
  assumes C: "crypto_ok S" and steady: "clock_steady S DEFAULT_REKEY_AGE_SECONDS" and tag: "tag_unique S"
  shows "always_passes (open_rejects_tampered_body S)"
  unfolding always_passes_def
proof
  fix w
  obtain bob w1 where bob: "hybrid_keypair S w = (bob, w1)" by (metis surj_pair)
  have m: "length (lit ''authentic'') \<le> GCM_MAX" by (simp add: GCM_MAX_def)
  obtain f s v where f: "dm_seal S (lit ''authentic'') (kp_public_key bob) (dm_session_new ''bob'', w1) = (Ok f, (s, v))"
    and fr: "frame_of S (kp_private_key bob) DEFAULT_REKEY_MSG_BOUND (map_of (ds_epoch_secrets s)) 0 (lit ''authentic'') f"
    by (rule seal_next [OF C drawn_pair [OF bob] steady sender_at_new _ m, of "''bob''" w1]) simp_all
  obtain secret key kam where k: "derive_dm_message_key S secret (sf_epoch f) (sf_index f) = Ok key"
      "aead_open S key (sf_nonce f) (frame_aad (sf_epoch f) (sf_index f)) (sf_body f) = Ok (lit ''authentic'')"
      "sf_kam f = Some kam" "unwrap_dm_epoch_secret S kam (kp_private_key bob) = Ok secret"
    using fr by (auto simp: frame_of_def deliverable_def)
  obtain bad where bad: "flip_last (sf_body f) = (Ok bad :: (unit, bytes) result)"
    "aead_open S key (sf_nonce f) (frame_aad (sf_epoch f) (sf_index f)) bad = Err ()"
    using flipped_tag_rejected [OF C tag k(2)] by blast
  obtain b where o: "dm_open S (f\<lparr>sf_body := bad\<rparr>) (kp_private_key bob) (dm_session_new ''alice'' :: 'f dm_session) =
      (Err DmOpenFailed, b)"
    using k bad by (simp add: dm_open_eq dm_session_new_def dm_session_with_bounds_def)
  show "fst (open_rejects_tampered_body S w) = (Ok () :: (unit, unit) result)"
    unfolding open_rejects_tampered_body_def Let_def
    by (simp add: draw_step [OF bob] seal_step [OF f] bad(1) open_error_step [OF o] del: lit_Cons)
qed

lemma sender_at_same:
  assumes "same_session s s'" "session_wf s'" "sender_at S priv bound age s n"
  shows "sender_at S priv bound age s' n"
  using assms same_session_sender [OF assms(1,2)]
  by (auto simp: sender_at_def at_count_def same_session_def split: option.splits)

lemma dm_seal_peer:
  assumes "crypto_ok S" "session_wf s" "dm_seal S m pub (s, w) = (res, (s', w'))"
  shows "ds_peer s' = ds_peer s"
  by (rule dm_seal_cases [OF assms])
    (auto simp: advanced_def epoch_ready_def opened_epoch_def insert_secret_def split: option.splits)

lemma snapshot_restore_passes:
  fixes S :: "('w, 'f :: {minus, ord, zero}, 'z) sys_scheme"
  assumes C: "crypto_ok S" and steady: "clock_steady S DEFAULT_REKEY_AGE_SECONDS"
    and H: "text_codec_lossless H" and fin: "clock_finite F S"
  shows "always_passes (snapshot_restore_preserves_state H F S)"
  unfolding always_passes_def
proof
  fix w
  obtain bob w1 where bob: "hybrid_keypair S w = (bob, w1)" by (metis surj_pair)
  let ?s = "dm_session_with_bounds ''bob'' 5 DEFAULT_REKEY_AGE_SECONDS :: 'f dm_session"
    and ?at = "sender_at S (kp_private_key bob) 5 DEFAULT_REKEY_AGE_SECONDS"
  note sealing = seal_next [OF C drawn_pair [OF bob] steady]
  have m: "length (lit ''one'') \<le> GCM_MAX" "length (lit ''two'') \<le> GCM_MAX" "length (lit ''three'') \<le> GCM_MAX"
    by (simp_all add: GCM_MAX_def)
  obtain f0 s0 v0 where f0: "dm_seal S (lit ''one'') (kp_public_key bob) (?s, w1) = (Ok f0, (s0, v0))" "?at s0 1"
    by (rule sealing [OF sender_at_init _ m(1), where w = w1]) simp_all
  obtain f1 s1 v1 where f1: "dm_seal S (lit ''two'') (kp_public_key bob) (s0, v0) = (Ok f1, (s1, v1))" "?at s1 (Suc 1)"
    by (rule sealing [OF f0(2) _ m(2), of v0]) simp_all
  have wf: "session_wf ?s" "session_wf s0" "session_wf s1"
    using sender_at_init [of S "kp_private_key bob" 5 _ "''bob''"] f0(2) f1(2) by (simp_all add: sender_at_def at_count_def)
  have "finite_clock F ?s" by (simp add: finite_clock_def dm_session_with_bounds_def)
  then have "finite_clock F s1"
    using seal_clock [OF C fin _ wf(2) f1(1)] seal_clock [OF C fin _ wf(1) f0(1)] by blast
  then obtain t where t: "restore H F (snapshot H F s1) = Ok t" "same_session s1 t" "session_wf t"
    by (rule restart [OF H wf(3)])
  obtain f2 s2 v2 where f2: "dm_seal S (lit ''three'') (kp_public_key bob) (t, v1) = (Ok f2, (s2, v2))"
      "frame_of S (kp_private_key bob) 5 (map_of (ds_epoch_secrets s2)) (Suc 1) (lit ''three'') f2"
    by (rule sealing [OF sender_at_same [OF t(2,3) f1(2)] _ m(3), of v1]) simp_all
  obtain b where o: "dm_open S f2 (kp_private_key bob) (dm_session_new ''alice'' :: 'f dm_session) = (Ok (lit ''three''), b)"
    by (rule open_next [OF f2(2) new_session_knows_nothing]) simp_all
  have slot: "sf_epoch f2 = 0" "sf_index f2 = 2" using f2(2) by (simp_all add: frame_of_def)
  have kept: "ds_peer s1 = ''bob''" "ds_rekey_msg_bound s1 = 5"
    using f1(2) dm_seal_peer [OF C wf(1) f0(1)] dm_seal_peer [OF C wf(2) f1(1)]
    by (simp_all add: sender_at_def dm_session_with_bounds_def)
  have same: "ds_peer t = ''bob''" "ds_rekey_msg_bound t = 5" "epoch_secret_for_test t 0 = epoch_secret_for_test s1 0"
    using t(2) kept by (simp_all add: same_session_def epoch_secret_for_test_def)
  show "fst (snapshot_restore_preserves_state H F S w) = (Ok () :: (unit, unit) result)"
    unfolding snapshot_restore_preserves_state_def Let_def
    using same slot by (simp add: draw_step [OF bob] seal_step [OF f0(1)] seal_step [OF f1(1)] t(1)
        seal_step [OF f2(1)] open_step [OF o] del: lit_Cons)
qed

text \<open>All tests of the module but the re-key test, under what they need of the primitives, the codecs and the clock.\<close>

definition dm_token_tests :: "text_codec \<Rightarrow> text_codec \<Rightarrow> (unit, unit) result list" where
  "dm_token_tests H B =
     [parity_frame_aad_vector H, token_roundtrip_with_and_without_kam B, from_token_rejects_bad_input B]"

definition dm_session_tests ::
  "text_codec \<Rightarrow> text_codec \<Rightarrow> 'f float_ops \<Rightarrow> ('w, 'f :: {minus, ord, zero}, 'z) sys_scheme \<Rightarrow> ('w, unit, unit) eff list" where
  "dm_session_tests H B F S =
     [two_party_roundtrip_single_message S, multi_message_in_epoch_roundtrip_via_token B S,
      loss_and_reorder_tolerant_within_epoch S, kam_repeated_on_first_frames_then_stops S,
      reordered_kam_frame_establishes_epoch S, open_rejects_tampered_body S,
      open_without_kam_for_unknown_epoch_errors S, snapshot_restore_preserves_state H F S]"

lemma dm_session_tests_pass:
  assumes "crypto_ok S" "tag_unique S" "clock_steady S DEFAULT_REKEY_AGE_SECONDS" "clock_finite F S"
    "hex_ok H" "text_codec_lossless H" "text_codec_ok B" "rejects_outside base64_alphabet B"
  shows "list_all passes (dm_token_tests H B) \<and> list_all always_passes (dm_session_tests H B F S)"
  using assms
  by (simp add: dm_token_tests_def dm_session_tests_def token_tests_pass single_message_passes via_token_passes
      loss_and_reorder_passes kam_repeated_passes reordered_kam_passes tampered_body_passes missing_kam_passes
      snapshot_restore_passes)

end
