(* ===== verification/Pqdm_Tests.thy ===== *)
theory Pqdm_Tests
  imports Testing Pqdm
begin

text \<open>
  The unit tests of the hybrid message sealing (\<open>src/pqdm.rs\<close>), as they are written, and what their
  outcome is for every instance of the primitives and of the serialiser \<open>J\<close>. \<open>U\<close> is the Unicode table
  of \<open>{:?}\<close>, \<open>H\<close> the codec \<open>hex\<close>.
\<close>

subsection \<open>The tests\<close>

definition ends_with :: "bytes \<Rightarrow> bytes \<Rightarrow> bool" where
  "ends_with xs ys \<longleftrightarrow> length ys \<le> length xs \<and> drop (length xs - length ys) xs = ys"

fun is_dm_format :: "pqdm_error \<Rightarrow> bool" where
  "is_dm_format (DmFormat _) = True"
| "is_dm_format _ = False"

fun is_downgrade_detected :: "pqdm_error \<Rightarrow> bool" where
  "is_downgrade_detected (DowngradeDetected _) = True"
| "is_downgrade_detected _ = False"

definition aad_matches_python_canonical_json :: "text_codec \<Rightarrow> 'f serde \<Rightarrow> ('e, unit) result" where
  "aad_matches_python_canonical_json H J =
     rbind (expect_ok (downgrade_lock_aad J HYBRID_SUITE ''a'' ''b'' None)) (\<lambda>aad. asserts
       [assert_eq aad (lit ''{\"negotiated_suite\":\"x25519-mlkem768\",\"recipient\":\"b\",\"sender\":\"a\",\"v\":1}''),
        assert_eq (tc_encode H aad)
          (''7b226e65676f7469617465645f7375697465223a227832353531392d6d6c6b656d3736'' @
           ''38222c22726563697069656e74223a2262222c2273656e646572223a2261222c22762'' @
           ''23a317d'')])"

definition aad_appends_extra_verbatim :: "'f serde \<Rightarrow> ('e, unit) result" where
  "aad_appends_extra_verbatim J =
     rbind (expect_ok (downgrade_lock_aad J HYBRID_SUITE ''a'' ''b'' (Some [0x00, 0xff]))) (\<lambda>aad.
     rbind (assert_true (ends_with aad [0x00, 0xff])) (\<lambda>_.
     rbind (expect_ok (downgrade_lock_aad J HYBRID_SUITE ''a'' ''b'' None)) (\<lambda>head.
     assert_eq (length aad) (length head + 2))))"

definition wrap_key_matches_python_vector ::
  "text_codec \<Rightarrow> ('w, 'z) crypto_scheme \<Rightarrow> 'f serde \<Rightarrow> ('e, unit) result" where
  "wrap_key_matches_python_vector H C J =
     rbind (expect_ok (downgrade_lock_aad J HYBRID_SUITE ''a'' ''b'' None)) (\<lambda>aad.
     let shared = replicate 32 0x42 in
     rbind (expect_ok (pqdm_wrap_key C shared aad)) (\<lambda>wk.
     assert_eq (tc_encode H wk) ''20e7c515adbdfac00668326bf121b46916f11cde9918c49b452d5d282a2178cd''))"

definition seal_open_roundtrip :: "('w, 'z) crypto_scheme \<Rightarrow> 'f serde \<Rightarrow> (nat \<Rightarrow> bool) \<Rightarrow> ('w, 'e, unit) eff" where
  "seal_open_roundtrip C J U =
     ebind (call (hybrid_keypair C)) (\<lambda>kp.
     let msg = lit ''top secret HNDL payload'' in
     ebind (eunwrap (pqdm_seal C J msg (kp_public_key kp) ''a'' ''b'')) (\<lambda>sealed.
     ebind (lift (assert_true (D_SEALED_MIN_LEN \<le> length sealed))) (\<lambda>_.
     ebind (lift (slice sealed 0 CIPHERTEXT_LEN)) (\<lambda>ct.
     ebind (lift (assert_eq (length ct) CIPHERTEXT_LEN)) (\<lambda>_.
     ebind (lift (expect_ok (pqdm_open_sealed C J U sealed (kp_private_key kp) ''a'' ''b'' HYBRID_SUITE))) (\<lambda>out.
     lift (assert_eq out msg)))))))"

definition seal_open_empty_body :: "('w, 'z) crypto_scheme \<Rightarrow> 'f serde \<Rightarrow> (nat \<Rightarrow> bool) \<Rightarrow> ('w, 'e, unit) eff" where
  "seal_open_empty_body C J U =
     ebind (call (hybrid_keypair C)) (\<lambda>kp.
     ebind (eunwrap (pqdm_seal C J [] (kp_public_key kp) ''x'' ''y'')) (\<lambda>sealed.
     ebind (lift (assert_eq (length sealed) D_SEALED_MIN_LEN)) (\<lambda>_.
     ebind (lift (expect_ok (pqdm_open_sealed C J U sealed (kp_private_key kp) ''x'' ''y'' HYBRID_SUITE))) (\<lambda>out.
     lift (assert_true (out = []))))))"

definition seal_is_nondeterministic_but_both_open ::
  "('w, 'z) crypto_scheme \<Rightarrow> 'f serde \<Rightarrow> (nat \<Rightarrow> bool) \<Rightarrow> ('w, 'e, unit) eff" where
  "seal_is_nondeterministic_but_both_open C J U =
     ebind (call (hybrid_keypair C)) (\<lambda>kp.
     ebind (eunwrap (pqdm_seal C J (lit ''x'') (kp_public_key kp) ''a'' ''b'')) (\<lambda>s1.
     ebind (eunwrap (pqdm_seal C J (lit ''x'') (kp_public_key kp) ''a'' ''b'')) (\<lambda>s2.
     ebind (lift (assert_ne s1 s2)) (\<lambda>_.
     ebind (lift (expect_ok (pqdm_open_sealed C J U s1 (kp_private_key kp) ''a'' ''b'' HYBRID_SUITE))) (\<lambda>m1.
     ebind (lift (assert_eq m1 (lit ''x''))) (\<lambda>_.
     ebind (lift (expect_ok (pqdm_open_sealed C J U s2 (kp_private_key kp) ''a'' ''b'' HYBRID_SUITE))) (\<lambda>m2.
     lift (assert_eq m2 (lit ''x'')))))))))"

definition downgrade_lock_detects_suite_mismatch ::
  "('w, 'z) crypto_scheme \<Rightarrow> 'f serde \<Rightarrow> (nat \<Rightarrow> bool) \<Rightarrow> ('w, 'e, unit) eff" where
  "downgrade_lock_detects_suite_mismatch C J U =
     ebind (call (hybrid_keypair C)) (\<lambda>kp.
     ebind (eunwrap (pqdm_seal C J (lit ''secret'') (kp_public_key kp) ''a'' ''b'')) (\<lambda>sealed.
     ebind (lift (unwrap_err (pqdm_open_sealed C J U sealed (kp_private_key kp) ''a'' ''b'' CLASSICAL_SUITE))) (\<lambda>err.
     lift (assert_true (is_downgrade_detected err)))))"

definition downgrade_lock_detects_party_tamper ::
  "('w, 'z) crypto_scheme \<Rightarrow> 'f serde \<Rightarrow> (nat \<Rightarrow> bool) \<Rightarrow> ('w, 'e, unit) eff" where
  "downgrade_lock_detects_party_tamper C J U =
     ebind (call (hybrid_keypair C)) (\<lambda>kp.
     ebind (eunwrap (pqdm_seal C J (lit ''secret'') (kp_public_key kp) ''a'' ''b'')) (\<lambda>sealed.
     ebind (lift (unwrap_err (pqdm_open_sealed C J U sealed (kp_private_key kp) ''MALLORY'' ''b'' HYBRID_SUITE))) (\<lambda>err.
     lift (assert_true (is_downgrade_detected err)))))"

definition tampered_ciphertext_detected ::
  "('w, 'z) crypto_scheme \<Rightarrow> 'f serde \<Rightarrow> (nat \<Rightarrow> bool) \<Rightarrow> ('w, 'e, unit) eff" where
  "tampered_ciphertext_detected C J U =
     ebind (call (hybrid_keypair C)) (\<lambda>kp.
     ebind (eunwrap (pqdm_seal C J (lit ''secret'') (kp_public_key kp) ''a'' ''b'')) (\<lambda>sealed.
     ebind (lift (flip_last sealed)) (\<lambda>sealed.
     ebind (lift (unwrap_err (pqdm_open_sealed C J U sealed (kp_private_key kp) ''a'' ''b'' HYBRID_SUITE))) (\<lambda>err.
     lift (assert_true (is_downgrade_detected err))))))"

definition seal_rejects_bad_pubkey_len :: "('w, 'z) crypto_scheme \<Rightarrow> 'f serde \<Rightarrow> ('w, 'e, unit) eff" where
  "seal_rejects_bad_pubkey_len C J =
     ebind (eobserve (pqdm_seal C J (lit ''x'') (replicate 10 0) ''a'' ''b'')) (\<lambda>r.
     ebind (lift (unwrap_err r)) (\<lambda>err.
     lift (assert_true (is_dm_format err))))"

definition open_too_short_raises :: "('w, 'z) crypto_scheme \<Rightarrow> 'f serde \<Rightarrow> (nat \<Rightarrow> bool) \<Rightarrow> ('w, 'e, unit) eff" where
  "open_too_short_raises C J U =
     ebind (call (hybrid_keypair C)) (\<lambda>kp.
     ebind (lift (unwrap_err (pqdm_open_sealed C J U (lit ''too-short'') (kp_private_key kp) ''a'' ''b'' HYBRID_SUITE))) (\<lambda>err.
     lift (assert_true (is_dm_format err))))"

definition negotiate_suite_gating :: "('e, unit) result" where
  "negotiate_suite_gating = asserts
     [assert_eq (negotiate_suite True True) HYBRID_SUITE,
      assert_eq (negotiate_suite True False) CLASSICAL_SUITE,
      assert_eq (negotiate_suite False True) CLASSICAL_SUITE,
      assert_eq (negotiate_suite False False) CLASSICAL_SUITE]"

subsection \<open>The associated data\<close>

lemma test_suites_valid: "valid_str HYBRID_SUITE" "valid_str CLASSICAL_SUITE"
  by (simp_all add: ascii_valid ascii_def HYBRID_SUITE_def CLASSICAL_SUITE_def)

text \<open>The text the test expects, as the bytes \<open>serde_json\<close> has to write for the sorted map.\<close>

definition python_aad :: bytes where
  "python_aad = lit ''{\"negotiated_suite\":\"x25519-mlkem768\",\"recipient\":\"b\",\"sender\":\"a\",\"v\":1}''"

lemma hex_python_aad:
  "hex_text python_aad =
     ''7b226e65676f7469617465645f7375697465223a227832353531392d6d6c6b656d3736'' @
     ''38222c22726563697069656e74223a2262222c2273656e646572223a2261222c22762'' @ ''23a317d''"
  by code_simp

lemma aad_of_test:
  assumes "to_vec_ok J"
  obtains aad where "sj_to_vec J (aad_value HYBRID_SUITE ''a'' ''b'') = Some aad"
    "\<And>extra. downgrade_lock_aad J HYBRID_SUITE ''a'' ''b'' extra = Ok (case extra of Some x \<Rightarrow> aad @ x | None \<Rightarrow> aad)"
proof -
  have "json_flat (aad_value HYBRID_SUITE ''a'' ''b'')"
    by (rule aad_value_flat [OF test_suites_valid(1)]) (simp_all add: ascii_valid ascii_def)
  then obtain aad where "sj_to_vec J (aad_value HYBRID_SUITE ''a'' ''b'') = Some aad"
    using to_vec_okD(1) [OF assms] by blast
  then show thesis by (intro that) (simp_all add: downgrade_lock_aad_eq)
qed

lemma aad_matches_python_outcome:
  assumes "to_vec_ok J" "hex_ok H"
  shows "aad_matches_python_canonical_json H J =
    assert_true (sj_to_vec J (aad_value HYBRID_SUITE ''a'' ''b'') = Some python_aad)"
proof (rule aad_of_test [OF assms(1)])
  fix aad
  assume a: "sj_to_vec J (aad_value HYBRID_SUITE ''a'' ''b'') = Some aad"
    "\<And>extra. downgrade_lock_aad J HYBRID_SUITE ''a'' ''b'' extra = Ok (case extra of Some x \<Rightarrow> aad @ x | None \<Rightarrow> aad)"
  show ?thesis
    using hex_python_aad assms(2) [unfolded hex_ok_def, rule_format, of python_aad]
    by (cases "aad = python_aad")
      (simp_all add: aad_matches_python_canonical_json_def a python_aad_def [symmetric] assert_true_def del: lit_Cons)
qed

lemma aad_appends_extra_passes:
  assumes "to_vec_ok J"
  shows "passes (aad_appends_extra_verbatim J)"
proof (rule aad_of_test [OF assms])
  fix aad
  assume "\<And>extra. downgrade_lock_aad J HYBRID_SUITE ''a'' ''b'' extra = Ok (case extra of Some x \<Rightarrow> aad @ x | None \<Rightarrow> aad)"
  then show ?thesis by (simp add: passes_def aad_appends_extra_verbatim_def ends_with_def)
qed

lemma wrap_key_vector_outcome:
  assumes "crypto_ok C" "to_vec_ok J" "hex_ok H"
    and "sj_to_vec J (aad_value HYBRID_SUITE ''a'' ''b'') = Some aad"
  shows "wrap_key_matches_python_vector H C J = assert_true (known_answer C [] (replicate 32 0x42)
    (lit ''skcomms/pqdm/wrap/v1|'' @ aad)
    ''20e7c515adbdfac00668326bf121b46916f11cde9918c49b452d5d282a2178cd'')"
proof -
  have "lit ''skcomms/pqdm/wrap/v1|'' = D_INFO_WRAP @ lit ''|''" by (simp add: D_INFO_WRAP_def)
  then show ?thesis
    using assms(4)
    by (simp add: wrap_key_matches_python_vector_def downgrade_lock_aad_eq pqdm_wrap_key_def
        known_answer_outcome [OF assms(1,3)] del: lit_Cons)
qed

lemma negotiate_suite_gating_passes: "passes negotiate_suite_gating"
  by (simp add: passes_def negotiate_suite_gating_def negotiate_suite_def)

subsection \<open>Seal and open\<close>

text \<open>The associated data of the tests fits AES-GCM.\<close>

definition aad_short :: "'f serde \<Rightarrow> bool" where
  "aad_short J \<longleftrightarrow> (\<forall>sender recipient aad. length sender + length recipient \<le> 32 \<longrightarrow>
     downgrade_lock_aad J HYBRID_SUITE sender recipient None = Ok aad \<longrightarrow> length aad \<le> GCM_MAX)"

lemma seal_for_test:
  assumes C: "crypto_ok C" "to_vec_ok J" "aad_short J" and kp: "hybrid_keypair C v = (kp, v')"
    and valid: "valid_str s" "valid_str r" and l: "length m \<le> 32" "length s + length r \<le> 32"
  obtains sealed w' where "pqdm_seal C J m (kp_public_key kp) s r w = (Ok sealed, w')"
    "length sealed = length m + 1148" "pqdm_open_sealed C J U sealed (kp_private_key kp) s r HYBRID_SUITE = Ok m"
proof -
  obtain aad where aad: "downgrade_lock_aad J HYBRID_SUITE s r None = Ok aad"
    using downgrade_lock_aad_Ok [OF C(2) test_suites_valid(1) valid] by blast
  have "length aad \<le> GCM_MAX" "length m \<le> GCM_MAX"
    using C(3) aad l by (simp_all add: aad_short_def GCM_MAX_def)
  then show thesis
    using pqdm_roundtrip [OF C(1) drawn_pair [OF kp] aad, of m w U] that by (auto simp: len_simps)
qed

lemma pqdm_seal_step:
  "pqdm_seal C J m pub s r w = (Ok sealed, w') \<Longrightarrow> ebind (eunwrap (pqdm_seal C J m pub s r)) k w = k sealed w'"
  by (rule unwrap_step)

lemma test_names_valid: "valid_str ''a''" "valid_str ''b''" "valid_str ''x''" "valid_str ''y''" "valid_str ''MALLORY''"
  by (simp_all add: ascii_valid ascii_def)

lemma seal_open_passes:
  assumes C: "crypto_ok C" "to_vec_ok J" "aad_short J"
  shows "always_passes (seal_open_roundtrip C J U)" "always_passes (seal_open_empty_body C J U)"
  unfolding always_passes_def
proof safe
  fix w
  obtain kp w1 where kp: "hybrid_keypair C w = (kp, w1)" by (metis surj_pair)
  note seal = seal_for_test [OF C kp, where w = w1 and U = U]
  show "fst (seal_open_roundtrip C J U w) = Ok ()"
  proof (rule seal [of "''a''" "''b''" "lit ''top secret HNDL payload''"])
    fix sealed w'
    assume s: "pqdm_seal C J (lit ''top secret HNDL payload'') (kp_public_key kp) ''a'' ''b'' w1 = (Ok sealed, w')"
      "length sealed = length (lit ''top secret HNDL payload'') + 1148"
      "pqdm_open_sealed C J U sealed (kp_private_key kp) ''a'' ''b'' HYBRID_SUITE = Ok (lit ''top secret HNDL payload'')"
    then show ?thesis
      by (simp add: seal_open_roundtrip_def draw_step [OF kp] pqdm_seal_step [OF s(1)] s(2,3) len_simps result_simps Let_def
          del: lit_Cons)
  qed (simp_all add: test_names_valid)
  show "fst (seal_open_empty_body C J U w) = Ok ()"
  proof (rule seal [of "''x''" "''y''" "[]"])
    fix sealed w'
    assume s: "pqdm_seal C J [] (kp_public_key kp) ''x'' ''y'' w1 = (Ok sealed, w')" "length sealed = length ([] :: bytes) + 1148"
      "pqdm_open_sealed C J U sealed (kp_private_key kp) ''x'' ''y'' HYBRID_SUITE = Ok []"
    then show ?thesis
      by (simp add: seal_open_empty_body_def draw_step [OF kp] pqdm_seal_step [OF s(1)] s(2,3) len_simps)
  qed (simp_all add: test_names_valid)
qed

lemma seal_is_nondeterministic_outcome:
  assumes C: "crypto_ok C" "to_vec_ok J" "aad_short J"
  shows "\<exists>(s1 :: bytes) (s2 :: bytes). length s1 = 1149 \<and> length s2 = 1149 \<and>
    fst (seal_is_nondeterministic_but_both_open C J U w) = assert_true (s1 \<noteq> s2)"
proof -
  obtain kp w1 where kp: "hybrid_keypair C w = (kp, w1)" by (metis surj_pair)
  note seal = seal_for_test [OF C kp test_names_valid(1,2), where U = U and m = "lit ''x''"]
  obtain s1 w2 where s1: "pqdm_seal C J (lit ''x'') (kp_public_key kp) ''a'' ''b'' w1 = (Ok s1, w2)"
    "length s1 = length (lit ''x'') + 1148" "pqdm_open_sealed C J U s1 (kp_private_key kp) ''a'' ''b'' HYBRID_SUITE = Ok (lit ''x'')"
    by (rule seal [where w = w1]) simp_all
  obtain s2 w3 where s2: "pqdm_seal C J (lit ''x'') (kp_public_key kp) ''a'' ''b'' w2 = (Ok s2, w3)"
    "length s2 = length (lit ''x'') + 1148" "pqdm_open_sealed C J U s2 (kp_private_key kp) ''a'' ''b'' HYBRID_SUITE = Ok (lit ''x'')"
    by (rule seal [where w = w2]) simp_all
  have l: "length s1 = 1149" "length s2 = 1149" using s1(2) s2(2) by simp_all
  show ?thesis
    using l
    by (intro exI2 [of _ s1 s2])
      (simp add: seal_is_nondeterministic_but_both_open_def draw_step [OF kp] pqdm_seal_step [OF s1(1)]
        pqdm_seal_step [OF s2(1)] s1(3) s2(3) assert_true_def del: lit_Cons)
qed

text \<open>
  The three tests of altered material. A flipped tag is always rejected; another suite or another party is
  rejected exactly when the blob does not open under them, and an opening would be a forgery.
\<close>

lemma altered_open:
  assumes C: "crypto_ok C" "to_vec_ok J" and kp: "hybrid_keypair C v = (kp, v')"
    and valid: "valid_str suite" "valid_str s" "valid_str r" and l: "1148 \<le> length sealed"
  shows "rbind (unwrap_err (pqdm_open_sealed C J U sealed (kp_private_key kp) s r suite)) (\<lambda>err.
      assert_true (is_downgrade_detected err)) =
    (assert_true (\<forall>m. pqdm_open_sealed C J U sealed (kp_private_key kp) s r suite \<noteq> Ok m) :: ('e, unit) result)"
proof -
  obtain aad where aad: "downgrade_lock_aad J suite s r None = Ok aad"
    using downgrade_lock_aad_Ok [OF C(2) valid] by blast
  obtain ss where "hybrid_decap C (take 1120 sealed) (kp_private_key kp) = Ok ss"
    using hybrid_decap_total [OF C(1) drawn_pair [OF kp], of "take 1120 sealed"] l by auto
  then have "pqdm_open_sealed C J U sealed (kp_private_key kp) s r suite = Err (DowngradeDetected (downgrade_message U suite)) \<or>
      (\<exists>m. pqdm_open_sealed C J U sealed (kp_private_key kp) s r suite = Ok m)"
    using pqdm_open_cases [OF C(1) aad l, of U "kp_private_key kp"] by auto
  then show ?thesis by (elim disjE exE) simp_all
qed

lemma altered_parties_outcome:
  assumes C: "crypto_ok C" "to_vec_ok J" "aad_short J"
  shows "\<exists>sealed priv. length sealed = 1154 \<and>
    (fst (downgrade_lock_detects_suite_mismatch C J U w) :: ('e, unit) result) =
      assert_true (\<forall>m. pqdm_open_sealed C J U sealed priv ''a'' ''b'' CLASSICAL_SUITE \<noteq> Ok m) \<and>
    (fst (downgrade_lock_detects_party_tamper C J U w) :: ('e, unit) result) =
      assert_true (\<forall>m. pqdm_open_sealed C J U sealed priv ''MALLORY'' ''b'' HYBRID_SUITE \<noteq> Ok m)"
proof -
  obtain kp w1 where kp: "hybrid_keypair C w = (kp, w1)" by (metis surj_pair)
  obtain s w2 where s: "pqdm_seal C J (lit ''secret'') (kp_public_key kp) ''a'' ''b'' w1 = (Ok s, w2)" "length s = length (lit ''secret'') + 1148"
    by (rule seal_for_test [OF C kp test_names_valid(1,2), where w = w1 and m = "lit ''secret''"]) simp_all
  have l: "1148 \<le> length s" using s(2) by simp
  note alt = altered_open [OF C(1,2) kp _ _ _ l, where U = U and 'e = 'e]
  have "length s = 1154" using s(2) by simp
  then show ?thesis
    by (intro exI2 [of _ s "kp_private_key kp"])
      (simp add: downgrade_lock_detects_suite_mismatch_def downgrade_lock_detects_party_tamper_def draw_step [OF kp]
        pqdm_seal_step [OF s(1)] alt test_suites_valid test_names_valid ebind_lift_lift del: lit_Cons)
qed

lemma pqdm_tampered:
  assumes C: "crypto_ok C" "tag_unique C" and o: "pqdm_open_sealed C J U sealed priv s r suite = Ok m"
  obtains bad where "flip_last sealed = Ok bad"
    "pqdm_open_sealed C J U bad priv s r suite = Err (DowngradeDetected (downgrade_message U suite))"
proof -
  have l: "1148 \<le> length sealed" by (rule pqdm_open_OkE [OF o])
  define ct nonce body where "ct = take 1120 sealed" and "nonce = take 12 (drop 1120 sealed)"
    and "body = drop 1132 sealed"
  have p: "sealed = ct @ nonce @ body"
    using take_drop_3 [of sealed 1120 12] by (simp add: ct_def nonce_def body_def)
  have len: "length ct = 1120" "length nonce = 12" "16 \<le> length body"
    using l by (simp_all add: ct_def nonce_def body_def)
  obtain aad ss key where k: "downgrade_lock_aad J suite s r None = Ok aad" "hybrid_decap C ct priv = Ok ss"
    "pqdm_wrap_key C ss aad = Ok key" "aead_open C key nonce aad body = Ok m"
    using o by (auto simp: p pqdm_open_unfold [OF len] result_iffs)
  obtain bad where bad: "flip_last body = Ok bad" "length bad = length body" "aead_open C key nonce aad bad = Err ()"
    using flipped_tag_rejected [OF C k(4)] by blast
  have "flip_last sealed = Ok (ct @ nonce @ bad)"
    using flip_last_append [OF bad(1), of "ct @ nonce"] by (simp add: p)
  moreover have "16 \<le> length bad" using bad(2) len(3) by simp
  ultimately show thesis
    using that [of "ct @ nonce @ bad"] k(1-3) bad(3) by (simp add: pqdm_open_unfold [OF len(1,2)])
qed

lemma tampered_ciphertext_passes:
  assumes C: "crypto_ok C" "to_vec_ok J" "aad_short J" "tag_unique C"
  shows "always_passes (tampered_ciphertext_detected C J U)"
  unfolding always_passes_def
proof
  fix w
  obtain kp w1 where kp: "hybrid_keypair C w = (kp, w1)" by (metis surj_pair)
  obtain s w2 where s: "pqdm_seal C J (lit ''secret'') (kp_public_key kp) ''a'' ''b'' w1 = (Ok s, w2)"
    "pqdm_open_sealed C J U s (kp_private_key kp) ''a'' ''b'' HYBRID_SUITE = Ok (lit ''secret'')"
    by (rule seal_for_test [OF C(1-3) kp test_names_valid(1,2), where w = w1 and m = "lit ''secret''" and U = U]) simp_all
  show "fst (tampered_ciphertext_detected C J U w) = (Ok () :: (unit, unit) result)"
  proof (rule pqdm_tampered [OF C(1,4) s(2)])
    fix bad
    assume "flip_last s = (Ok bad :: (unit, bytes) result)"
      "pqdm_open_sealed C J U bad (kp_private_key kp) ''a'' ''b'' HYBRID_SUITE =
         Err (DowngradeDetected (downgrade_message U HYBRID_SUITE))"
    then show ?thesis
      by (simp add: tampered_ciphertext_detected_def draw_step [OF kp] pqdm_seal_step [OF s(1)] del: lit_Cons)
  qed
qed

lemma format_tests_pass:
  "always_passes (seal_rejects_bad_pubkey_len C J)" "always_passes (open_too_short_raises C J U)"
proof -
  have "pqdm_seal C J m (replicate 10 0) s r w =
      (Err (DmFormat (''hybrid public key must be '' @ decimal PUBLIC_KEY_LEN @ '' bytes, got '' @ decimal 10)), w)"
    for m s r w by (simp add: pqdm_seal_def len_simps)
  then show "always_passes (seal_rejects_bad_pubkey_len C J)"
    by (simp add: always_passes_def seal_rejects_bad_pubkey_len_def eobserve_def ebind_def)
  have "pqdm_open_sealed C J U (lit ''too-short'') priv s r suite =
      Err (DmFormat (''sealed blob must be >= '' @ decimal D_SEALED_MIN_LEN @ '' bytes, got '' @ decimal (length (lit ''too-short''))))" for priv s r suite
    by (simp add: pqdm_open_sealed_def len_simps)
  then show "always_passes (open_too_short_raises C J U)"
    by (simp add: always_passes_def open_too_short_raises_def call_def ebind_def split: prod.split del: lit_Cons)
qed

end
