(* ===== verification/Pqroute_Tests.thy ===== *)
theory Pqroute_Tests
  imports Testing Pqroute
begin

text \<open>
  The unit tests of the routing envelope (\<open>src/pqroute.rs\<close>), as they are written, and what their outcome
  is for every instance of the primitives and of \<open>serde_json\<close> (the parameter \<open>J\<close>). \<open>H\<close> is the codec \<open>hex\<close>.
\<close>

subsection \<open>The values of the tests\<close>

text \<open>\<open>json!\<close> with an object: the entries are inserted one after the other into a sorted map.\<close>

definition json_uint :: "u64 \<Rightarrow> 'f json" where
  "json_uint n = JNumber (PosInt n)"

definition route_hdr_of :: "string \<Rightarrow> 'f json" where
  "route_hdr_of relay = json_object [(''to_relay'', JString relay), (''v'', json_uint 1)]"

definition plain_hdr :: "'f json" where
  "plain_hdr = json_object [(''v'', json_uint 1)]"

fun is_rt_open :: "(pqroute_error, 'a) result \<Rightarrow> bool" where
  "is_rt_open (Err (RtOpen _)) = True"
| "is_rt_open _ = False"

fun is_rt_format :: "(pqroute_error, 'a) result \<Rightarrow> bool" where
  "is_rt_format (Err (RtFormat _)) = True"
| "is_rt_format _ = False"

subsection \<open>The tests\<close>

definition canonical_is_deterministic_and_sorted :: "'f serde \<Rightarrow> ('e, unit) result" where
  "canonical_is_deterministic_and_sorted J =
     (let a = json_object [(''v'', json_uint 1), (''to_relay'', JString ''relay-7'')];
          b = json_object [(''to_relay'', JString ''relay-7''), (''v'', json_uint 1)] in asserts
       [assert_eq (canonical (sj_number J) a) (canonical (sj_number J) b),
        assert_eq (canonical (sj_number J) a) (canonical (sj_number J) a)])"

definition parity_canonical_route_header :: "text_codec \<Rightarrow> 'f serde \<Rightarrow> ('e, unit) result" where
  "parity_canonical_route_header H J =
     (let rh = route_hdr_of ''relay-7'' in asserts
       [assert_eq (canonical (sj_number J) rh) (lit ''{\"to_relay\":\"relay-7\",\"v\":1}''),
        assert_eq (tc_encode H (canonical (sj_number J) rh)) ''7b22746f5f72656c6179223a2272656c61792d37222c2276223a317d''])"

definition parity_canonical_ensure_ascii :: "text_codec \<Rightarrow> 'f serde \<Rightarrow> ('e, unit) result" where
  "parity_canonical_ensure_ascii H J =
     (let v = json_object [(''note'', JString (''caf'' @ [CHR 0xC3, CHR 0xA9])), (''z'', json_uint 2),
                (''a'', JBool True), (''n'', JNull)] in
      assert_eq (tc_encode H (canonical (sj_number J) v))
        ''7b2261223a747275652c226e223a6e756c6c2c226e6f7465223a226361665c7530306539222c227a223a327d'')"

definition parity_canonical_surrogate_pair :: "text_codec \<Rightarrow> 'f serde \<Rightarrow> ('e, unit) result" where
  "parity_canonical_surrogate_pair H J =
     (let v = json_object [(''e'', JString [CHR 0xF0, CHR 0x9F, CHR 0x98, CHR 0x80])] in
      assert_eq (tc_encode H (canonical (sj_number J) v)) ''7b2265223a225c75643833645c7564653030227d'')"

definition route_parity_wrap_key_vector ::
  "text_codec \<Rightarrow> ('w, 'z) crypto_scheme \<Rightarrow> 'f serde \<Rightarrow> ('e, unit) result" where
  "route_parity_wrap_key_vector H C J =
     (let shared = map word_of_nat [0..<32]; route_canonical = canonical (sj_number J) (route_hdr_of ''relay-7'');
          aad = build_aad route_canonical in
      rbind (assert_eq (tc_encode H aad) ''7071726f757465317c7b22746f5f72656c6179223a2272656c61792d37222c2276223a317d'') (\<lambda>_.
      rbind (expect_ok (route_wrap_key C shared aad)) (\<lambda>wk.
      assert_eq (tc_encode H wk) ''e68bc1c04dff6a00ad3ee7cdd86da50da37427f6d58f762c650219ca2fed8192'')))"

definition seal_open_round_trip :: "('w, 'z) crypto_scheme \<Rightarrow> 'f serde \<Rightarrow> ('w, 'e, unit) eff" where
  "seal_open_round_trip C J =
     ebind (call (hybrid_keypair C)) (\<lambda>kp.
     let route_hdr = route_hdr_of ''relay-7'';
         inner_meta = json_object [(''dest'', JString ''bob@sk''), (''ts'', json_uint 1750000000),
           (''flags'', JArray [JString ''a'', JString ''b''])];
         content = lit ''the secret body bytes'' in
     ebind (eunwrap (seal_routed C J inner_meta content (kp_public_key kp) route_hdr)) (\<lambda>blob.
     ebind (lift (expect_ok (read_route_header J blob))) (\<lambda>hdr.
     ebind (lift (assert_eq hdr route_hdr)) (\<lambda>_.
     ebind (lift (expect_ok (open_routed C J blob (kp_private_key kp)))) (\<lambda>(got_hdr, got_meta, got_content). lift (asserts
       [assert_eq got_hdr route_hdr, assert_eq got_meta inner_meta, assert_eq got_content content]))))))"

definition seal_open_empty_content :: "('w, 'z) crypto_scheme \<Rightarrow> 'f serde \<Rightarrow> ('w, 'e, unit) eff" where
  "seal_open_empty_content C J =
     ebind (call (hybrid_keypair C)) (\<lambda>kp.
     let route_hdr = plain_hdr; inner_meta = json_object [] in
     ebind (eunwrap (seal_routed C J inner_meta [] (kp_public_key kp) route_hdr)) (\<lambda>blob.
     ebind (lift (expect_ok (open_routed C J blob (kp_private_key kp)))) (\<lambda>(_, meta, content). lift (asserts
       [assert_eq meta inner_meta, assert_true (content = [])]))))"

definition rewritten_header_is_rejected :: "('w, 'z) crypto_scheme \<Rightarrow> 'f serde \<Rightarrow> ('w, 'e, unit) eff" where
  "rewritten_header_is_rejected C J =
     ebind (call (hybrid_keypair C)) (\<lambda>kp.
     let route_hdr = route_hdr_of ''relay-7''; inner_meta = json_object [(''dest'', JString ''bob@sk'')] in
     ebind (eunwrap (seal_routed C J inner_meta (lit ''body'') (kp_public_key kp) route_hdr)) (\<lambda>blob.
     ebind (lift (expect_ok (replace_route_header J blob (route_hdr_of ''evil'')))) (\<lambda>tampered.
     ebind (lift (expect_ok (read_route_header J tampered))) (\<lambda>hdr.
     ebind (lift (assert_eq hdr (route_hdr_of ''evil''))) (\<lambda>_.
     lift (assert_true (is_rt_open (open_routed C J tampered (kp_private_key kp)))))))))"

definition tampered_inner_is_rejected :: "('w, 'z) crypto_scheme \<Rightarrow> 'f serde \<Rightarrow> ('w, 'e, unit) eff" where
  "tampered_inner_is_rejected C J =
     ebind (call (hybrid_keypair C)) (\<lambda>kp.
     ebind (eunwrap (seal_routed C J (json_object [(''d'', json_uint 1)]) (lit ''body'') (kp_public_key kp) plain_hdr)) (\<lambda>blob.
     ebind (lift (flip_last blob)) (\<lambda>bad.
     lift (assert_true (is_rt_open (open_routed C J bad (kp_private_key kp)))))))"

definition wrong_key_is_rejected :: "('w, 'z) crypto_scheme \<Rightarrow> 'f serde \<Rightarrow> ('w, 'e, unit) eff" where
  "wrong_key_is_rejected C J =
     ebind (call (hybrid_keypair C)) (\<lambda>kp.
     ebind (call (hybrid_keypair C)) (\<lambda>other.
     ebind (eunwrap (seal_routed C J (json_object [(''d'', json_uint 1)]) (lit ''body'') (kp_public_key kp) plain_hdr)) (\<lambda>blob.
     lift (assert_true (is_rt_open (open_routed C J blob (kp_private_key other)))))))"

definition bad_pub_len_is_format_error :: "('w, 'z) crypto_scheme \<Rightarrow> 'f serde \<Rightarrow> ('w, 'e, unit) eff" where
  "bad_pub_len_is_format_error C J =
     ebind (eobserve (seal_routed C J (json_object []) [] (replicate 10 0) plain_hdr)) (\<lambda>r.
     ebind (lift (unwrap_err r)) (\<lambda>err.
     lift (assert_true (is_rt_format (Err err :: (pqroute_error, unit) result)))))"

definition truncated_blob_is_format_error :: "'f serde \<Rightarrow> ('e, unit) result" where
  "truncated_blob_is_format_error J = asserts
     [assert_true (is_rt_format (read_route_header J (replicate 2 0))),
      let b = u32_be 100 @ lit ''short'' in
      assert_true (is_rt_format (split_outer b))]"

definition short_sealed_inner_is_format_error :: "('w, 'z) crypto_scheme \<Rightarrow> 'f serde \<Rightarrow> ('e, unit) result" where
  "short_sealed_inner_is_format_error C J =
     (let route = canonical (sj_number J) plain_hdr;
          blob = u32_be (word_of_nat (length route)) @ route @ replicate 16 0 in
      assert_true (is_rt_format (open_routed C J blob (replicate PRIVATE_KEY_LEN 0))))"

subsection \<open>Canonical texts\<close>

text \<open>\<open>Number::to_string\<close> of an unsigned number is its decimal text.\<close>

definition decimal_numbers :: "'f serde \<Rightarrow> bool" where
  "decimal_numbers J \<longleftrightarrow> (\<forall>n. sj_number J (PosInt n) = decimal (unat n))"

lemmas test_value_defs = route_hdr_of_def plain_hdr_def json_object_def json_uint_def

lemma number_texts:
  assumes "decimal_numbers J"
  shows "sj_number J (PosInt 1) = ''1''" "sj_number J (PosInt 2) = ''2''" "sj_number J (PosInt 1750000000) = ''1750000000''"
proof -
  have "decimal 1 = ''1''" "decimal 2 = ''2''" "decimal 1750000000 = ''1750000000''"
    by (simp_all add: decimal.simps digit_def char_of_eq_iff)
  then show "sj_number J (PosInt 1) = ''1''" "sj_number J (PosInt 2) = ''2''" "sj_number J (PosInt 1750000000) = ''1750000000''"
    using assms by (simp_all add: decimal_numbers_def)
qed

text \<open>The quoted form of the strings in the tests; plain ASCII is copied, other characters are escaped.\<close>

lemma quote_plain:
  assumes "list_all (\<lambda>c. (of_char c :: nat) \<in> {0x20..0x7E} - {0x22, 0x5C}) s"
  shows "encode_string_ascii s = lit (CHR 0x22 # s @ [CHR 0x22])"
proof -
  have "ascii s" using assms by (auto simp: ascii_def list_all_iff)
  moreover have "concat (map (encode_char_ascii \<circ> of_char) s) = lit s"
    using assms by (induction s) (auto simp: encode_char_ascii_def)
  ultimately show ?thesis by (simp add: encode_string_ascii_def chars_ascii)
qed

lemma canonical_texts:
  assumes J: "decimal_numbers J"
  shows "canonical (sj_number J) (route_hdr_of ''relay-7'') = lit ''{\"to_relay\":\"relay-7\",\"v\":1}''"
    and "canonical (sj_number J) (route_hdr_of ''evil'') = lit ''{\"to_relay\":\"evil\",\"v\":1}''"
    and "canonical (sj_number J) plain_hdr = lit ''{\"v\":1}''"
    and "canonical (sj_number J) (json_object [(''d'', json_uint 1)]) = lit ''{\"d\":1}''"
    and "canonical (sj_number J) (json_object []) = lit ''{}''"
    and "canonical (sj_number J) (json_object [(''dest'', JString ''bob@sk'')]) = lit ''{\"dest\":\"bob@sk\"}''"
    and "canonical (sj_number J) (json_object [(''dest'', JString ''bob@sk''), (''ts'', json_uint 1750000000),
           (''flags'', JArray [JString ''a'', JString ''b''])]) =
         lit ''{\"dest\":\"bob@sk\",\"flags\":[\"a\",\"b\"],\"ts\":1750000000}''"
  by (simp_all add: test_value_defs number_texts [OF J] quote_plain)

text \<open>Characters outside ASCII: \<open>\u00e9\<close>, and a surrogate pair, after the UTF-8 was decoded.\<close>

lemma quoted_escapes:
  "encode_string_ascii [CHR ''c'', CHR ''a'', CHR ''f'', CHR 0xC3, CHR 0xA9] =
     lit [CHR 0x22, CHR ''c'', CHR ''a'', CHR ''f'', CHR 0x5C, CHR ''u'', CHR ''0'', CHR ''0'', CHR ''e'', CHR ''9'', CHR 0x22]"
  "encode_string_ascii [CHR 0xF0, CHR 0x9F, CHR 0x98, CHR 0x80] =
     lit [CHR 0x22, CHR 0x5C, CHR ''u'', CHR ''d'', CHR ''8'', CHR ''3'', CHR ''d'', CHR 0x5C, CHR ''u'', CHR ''d'', CHR ''e'', CHR ''0'', CHR ''0'', CHR 0x22]"
  by (simp_all add: encode_string_ascii_def chars.simps(2) cont_bits_def encode_char_ascii_def push_u_escape_def hex_digit_def Let_def)

lemma hex_text_simps:
  "hex_text [] = []"
  "hex_text (b # bs) = ''0123456789abcdef'' ! (unat b div 16) # ''0123456789abcdef'' ! (unat b mod 16) # hex_text bs"
  by (simp_all add: hex_text_def)

lemma canonical_tests_pass:
  assumes J: "decimal_numbers J" and H: "hex_ok H"
  shows "passes (canonical_is_deterministic_and_sorted J)" "passes (parity_canonical_route_header H J)"
    "passes (parity_canonical_ensure_ascii H J)" "passes (parity_canonical_surrogate_pair H J)"
proof -
  have h: "tc_encode H bs = hex_text bs" for bs using H by (simp add: hex_ok_def)
  show "passes (canonical_is_deterministic_and_sorted J)"
    by (simp add: passes_def canonical_is_deterministic_and_sorted_def json_object_def)
  show "passes (parity_canonical_route_header H J)"
    unfolding parity_canonical_route_header_def Let_def passes_def
    by (simp only: canonical_texts [OF J] h) (simp add: hex_text_simps)
  show "passes (parity_canonical_ensure_ascii H J)"
    by (simp add: passes_def parity_canonical_ensure_ascii_def h test_value_defs number_texts [OF J] quote_plain
        quoted_escapes hex_text_simps)
  show "passes (parity_canonical_surrogate_pair H J)"
    by (simp add: passes_def parity_canonical_surrogate_pair_def h test_value_defs quote_plain quoted_escapes hex_text_simps)
qed

lemma route_wrap_key_vector_outcome:
  assumes C: "crypto_ok C" and J: "decimal_numbers J" and H: "hex_ok H"
  shows "route_parity_wrap_key_vector H C J = assert_true (known_answer C [] (map word_of_nat [0..<32])
    (lit ''skcomms/pqroute/wrap/v1|pqroute1|{\"to_relay\":\"relay-7\",\"v\":1}'')
    ''e68bc1c04dff6a00ad3ee7cdd86da50da37427f6d58f762c650219ca2fed8192'')"
proof -
  let ?aad = "build_aad (canonical (sj_number J) (route_hdr_of ''relay-7''))"
  have a: "?aad = lit ''pqroute1|{\"to_relay\":\"relay-7\",\"v\":1}''"
    by (simp add: build_aad_def ROUTE_SUITE_def canonical_texts(1) [OF J])
  have "tc_encode H ?aad = ''7071726f757465317c7b22746f5f72656c6179223a2272656c61792d37222c2276223a317d''"
    using H by (simp add: a hex_ok_def hex_text_simps)
  moreover have "R_INFO_WRAP @ lit ''|'' @ ?aad = lit ''skcomms/pqroute/wrap/v1|pqroute1|{\"to_relay\":\"relay-7\",\"v\":1}''"
    by (simp add: R_INFO_WRAP_def a)
  ultimately show ?thesis
    by (simp add: route_parity_wrap_key_vector_def route_wrap_key_def WRAP_KEY_LEN_def known_answer_outcome [OF C H]
        del: lit_Cons)
qed

subsection \<open>The envelope\<close>

text \<open>\<open>serde_json\<close> reads back the values of the tests, which have no floating-point numbers, from their text.\<close>

fun float_free :: "'f json \<Rightarrow> bool" where
  "float_free (JNumber (Float _)) \<longleftrightarrow> False"
| "float_free (JArray vs) \<longleftrightarrow> list_all float_free vs"
| "float_free (JObject kvs) \<longleftrightarrow> list_all (\<lambda>(_, v). float_free v) kvs"
| "float_free _ \<longleftrightarrow> True"

definition reads_canonical :: "'f serde \<Rightarrow> bool" where
  "reads_canonical J \<longleftrightarrow> (\<forall>v. json_wf v \<longrightarrow> float_free v \<longrightarrow> json_norm v = v \<longrightarrow>
     sj_from_slice J (canonical (sj_number J) v) = Inr v)"

lemma read_back:
  "reads_canonical J \<Longrightarrow> json_wf v \<Longrightarrow> float_free v \<Longrightarrow> json_norm v = v \<Longrightarrow>
   parse_json J (canonical (sj_number J) v) = Ok v"
  by (simp add: reads_canonical_def parse_json_def)

lemma test_values_read:
  assumes "reads_canonical J"
  shows "parse_json J (canonical (sj_number J) (route_hdr_of ''relay-7'')) = Ok (route_hdr_of ''relay-7'')"
    and "parse_json J (canonical (sj_number J) (route_hdr_of ''evil'')) = Ok (route_hdr_of ''evil'')"
    and "parse_json J (canonical (sj_number J) plain_hdr) = Ok plain_hdr"
    and "parse_json J (canonical (sj_number J) (json_object [(''d'', json_uint 1)])) = Ok (json_object [(''d'', json_uint 1)])"
    and "parse_json J (canonical (sj_number J) (json_object [])) = Ok (json_object [])"
    and "parse_json J (canonical (sj_number J) (json_object [(''dest'', JString ''bob@sk'')])) =
      Ok (json_object [(''dest'', JString ''bob@sk'')])"
    and "parse_json J (canonical (sj_number J) (json_object [(''dest'', JString ''bob@sk''), (''ts'', json_uint 1750000000),
           (''flags'', JArray [JString ''a'', JString ''b''])])) =
      Ok (json_object [(''dest'', JString ''bob@sk''), (''ts'', json_uint 1750000000),
           (''flags'', JArray [JString ''a'', JString ''b''])])"
  by (rule read_back [OF assms]; simp add: test_value_defs ascii_valid ascii_def)+

lemma route_seal_step:
  "seal_routed C J meta content pub hdr w = (Ok blob, w') \<Longrightarrow>
   ebind (eunwrap (seal_routed C J meta content pub hdr)) k w = k blob w'"
  by (rule unwrap_step)

lemma seal_open_round_trip_passes:
  assumes C: "crypto_ok C" and J: "decimal_numbers J" "reads_canonical J"
  shows "always_passes (seal_open_round_trip C J)"
  unfolding always_passes_def
proof
  fix w
  obtain kp w1 where kp: "hybrid_keypair C w = (kp, w1)" by (metis surj_pair)
  let ?meta = "json_object [(''dest'', JString ''bob@sk''), (''ts'', json_uint 1750000000),
    (''flags'', JArray [JString ''a'', JString ''b''])]"
  obtain blob w' where s: "seal_routed C J ?meta (lit ''the secret body bytes'') (kp_public_key kp) (route_hdr_of ''relay-7'') w1 = (Ok blob, w')"
    "read_route_header J blob = Ok (route_hdr_of ''relay-7'')"
    "open_routed C J blob (kp_private_key kp) = Ok (route_hdr_of ''relay-7'', ?meta, lit ''the secret body bytes'')"
    using seal_routed_roundtrip [OF C drawn_pair [OF kp] test_values_read(1,7) [OF J(2)],
        of "lit ''the secret body bytes''" w1]
    by (auto simp: canonical_texts [OF J(1)] GCM_MAX_def simp del: lit_Cons)
  show "fst (seal_open_round_trip C J w) = Ok ()"
    unfolding seal_open_round_trip_def Let_def
    by (simp add: draw_step [OF kp] route_seal_step [OF s(1)] s(2,3) del: lit_Cons)
qed

lemma seal_open_empty_passes:
  assumes C: "crypto_ok C" and J: "decimal_numbers J" "reads_canonical J"
  shows "always_passes (seal_open_empty_content C J)"
  unfolding always_passes_def
proof
  fix w
  obtain kp w1 where kp: "hybrid_keypair C w = (kp, w1)" by (metis surj_pair)
  obtain blob w' where s: "seal_routed C J (json_object []) [] (kp_public_key kp) plain_hdr w1 = (Ok blob, w')"
    "open_routed C J blob (kp_private_key kp) = Ok (plain_hdr, json_object [], [])"
    using seal_routed_roundtrip [OF C drawn_pair [OF kp] test_values_read(3,5) [OF J(2)], of "[]" w1]
    by (auto simp: canonical_texts [OF J(1)] GCM_MAX_def)
  show "fst (seal_open_empty_content C J w) = Ok ()"
    unfolding seal_open_empty_content_def Let_def
    by (simp add: draw_step [OF kp] route_seal_step [OF s(1)] s(2))
qed

text \<open>
  A framed envelope whose header is JSON opens, or fails with an \<open>Open\<close> error: whatever is wrong with the
  key, the ciphertext or the inner part is one.
\<close>

lemma parse_inner_outcomes: "is_rt_open (parse_inner J inner) \<or> (\<exists>x. parse_inner J inner = Ok x)"
  by (auto simp: parse_inner_def len_simps result_simps slice_def Let_def parse_json_def split: sum.split)

lemma open_routed_outcomes:
  assumes C: "crypto_ok C" and r: "length r < 2 ^ 32" "1148 \<le> length s" "parse_json J r = Ok hdr"
  shows "is_rt_open (open_routed C J (u32_be (word_of_nat (length r)) @ r @ s) priv) \<or>
    (\<exists>x. open_routed C J (u32_be (word_of_nat (length r)) @ r @ s) priv = Ok x)"
proof -
  define ct nonce body where "ct = take 1120 s" and "nonce = take 12 (drop 1120 s)" and "body = drop 1132 s"
  have s: "s = ct @ nonce @ body"
    using take_drop_3 [of s 1120 12] by (simp add: ct_def nonce_def body_def)
  have len: "length ct = 1120" "length nonce = 12" "16 \<le> length body"
    using r(2) by (simp_all add: ct_def nonce_def body_def)
  note u = open_routed_unfold [OF r(1) len, of C J priv]
  show ?thesis
  proof (cases "hybrid_decap C ct priv")
    case (Ok ss)
    obtain key where k: "route_wrap_key C ss (build_aad r) = Ok key" "length key = 32"
      using route_wrap_key_total [OF C] by blast
    show ?thesis
    proof (cases "aead_open C key nonce (build_aad r) body")
      case m: (Ok inner)
      then show ?thesis
        using parse_inner_outcomes [of J inner] Ok k r(3)
        by (cases "parse_inner J inner") (auto simp: s u elim!: is_rt_open.elims)
    next
      case Panic
      then show ?thesis using k len by (simp add: aead_open_Panic_iff)
    qed (use Ok k r(3) in \<open>simp add: s u\<close>)
  next
    case Panic
    then show ?thesis using hybrid_decap_no_panic [OF C] by blast
  qed (use r(3) in \<open>simp add: s u\<close>)
qed

text \<open>So an altered envelope is rejected, in the sense of the tests, exactly when it does not open.\<close>

lemma rejected_iff:
  assumes "crypto_ok C" "length r < 2 ^ 32" "1148 \<le> length s" "parse_json J r = Ok hdr"
    and "blob = u32_be (word_of_nat (length r)) @ r @ s"
  shows "is_rt_open (open_routed C J blob priv) \<longleftrightarrow> (\<forall>x. open_routed C J blob priv \<noteq> Ok x)"
  using open_routed_outcomes [OF assms(1-4), of priv] unfolding assms(5) by auto

text \<open>The parts of the envelopes of the tests.\<close>

lemma sealed_for_test:
  assumes C: "crypto_ok C" and J: "decimal_numbers J" "reads_canonical J" and kp: "hybrid_keypair C v = (kp, v')"
    and h: "length (canonical (sj_number J) hdr) < 100" "parse_json J (canonical (sj_number J) hdr) = Ok hdr"
    and m: "length (canonical (sj_number J) meta) < 100" "parse_json J (canonical (sj_number J) meta) = Ok meta"
  obtains blob w' s where "seal_routed C J meta (lit ''body'') (kp_public_key kp) hdr w = (Ok blob, w')"
    "blob = u32_be (word_of_nat (length (canonical (sj_number J) hdr))) @ canonical (sj_number J) hdr @ s"
    "1148 \<le> length s" "open_routed C J blob (kp_private_key kp) = Ok (hdr, meta, lit ''body'')"
proof -
  obtain blob w' where s: "seal_routed C J meta (lit ''body'') (kp_public_key kp) hdr w = (Ok blob, w')"
    "open_routed C J blob (kp_private_key kp) = Ok (hdr, meta, lit ''body'')"
    using seal_routed_roundtrip [OF C drawn_pair [OF kp] h(2) m(2), of "lit ''body''" w] h(1) m(1)
    by (auto simp: GCM_MAX_def)
  have l: "length (canonical (sj_number J) hdr) < 2 ^ 32" using h(1) by simp
  obtain ct ss w1 key nonce c msg where e: "hybrid_encap C (kp_public_key kp) w = (Ok (ct, ss), w1)"
    and n: "fill_bytes C 12 w1 = (nonce, w')" and c: "aead_seal C key nonce (build_aad (canonical (sj_number J) hdr)) msg = Ok c"
    and b: "blob = u32_be (word_of_nat (length (canonical (sj_number J) hdr))) @ canonical (sj_number J) hdr @ ct @ nonce @ c"
    using seal_routed_OkE [OF s(1)] by metis
  have "1148 \<le> length (ct @ nonce @ c)"
    using hybrid_encap_Ok_lengths(2) [OF C e] fill_bytes_length [OF C n] aead_seal_OkD(3) [OF C c] by simp
  with s b show thesis by (intro that [of blob w' "ct @ nonce @ c"]) simp_all
qed

lemma test_headers:
  assumes J: "decimal_numbers J" "reads_canonical J"
  shows "length (canonical (sj_number J) (route_hdr_of ''relay-7'')) < 100" "length (canonical (sj_number J) (route_hdr_of ''evil'')) < 100"
    "length (canonical (sj_number J) plain_hdr) < 100" "length (canonical (sj_number J) (json_object [(''d'', json_uint 1)])) < 100"
    "length (canonical (sj_number J) (json_object [(''dest'', JString ''bob@sk'')])) < 100"
  by (simp_all add: canonical_texts [OF J(1)])

text \<open>The rewritten header is read as it was written; the test passes exactly when the envelope does not open.\<close>

lemma rewritten_header_outcome:
  assumes C: "crypto_ok C" and J: "decimal_numbers J" "reads_canonical J"
  shows "\<exists>blob priv. read_route_header J blob = Ok (route_hdr_of ''evil'') \<and>
    (fst (rewritten_header_is_rejected C J w) :: ('e, unit) result) = assert_true (\<forall>x. open_routed C J blob priv \<noteq> Ok x)"
proof -
  obtain kp w1 where kp: "hybrid_keypair C w = (kp, w1)" by (metis surj_pair)
  let ?meta = "json_object [(''dest'', JString ''bob@sk'')]" and ?can = "canonical (sj_number J)"
  note hd = test_headers [OF J] and rd = test_values_read [OF J(2)]
  obtain blob w' s where e: "seal_routed C J ?meta (lit ''body'') (kp_public_key kp) (route_hdr_of ''relay-7'') w1 = (Ok blob, w')"
    and b: "blob = u32_be (word_of_nat (length (?can (route_hdr_of ''relay-7'')))) @ ?can (route_hdr_of ''relay-7'') @ s"
    and l: "1148 \<le> length s"
    by (rule sealed_for_test [OF C J kp hd(1) rd(1) hd(5) rd(6), of w1])
  let ?b = "u32_be (word_of_nat (length (?can (route_hdr_of ''evil'')))) @ ?can (route_hdr_of ''evil'') @ s"
  have sp: "split_outer blob = Ok (?can (route_hdr_of ''relay-7''), s)"
    using hd(1) unfolding b by (intro split_outer_frame) simp
  have rep: "replace_route_header J blob (route_hdr_of ''evil'') = Ok ?b"
    by (simp add: replace_route_header_def sp Let_def)
  have le: "length (?can (route_hdr_of ''evil'')) < 2 ^ 32" using hd(2) by simp
  have read: "read_route_header J ?b = Ok (route_hdr_of ''evil'')"
    by (simp only: read_route_header_def split_outer_frame [OF le]) (simp add: rd(2))
  have "(fst (rewritten_header_is_rejected C J w) :: ('e, unit) result) =
      assert_true (\<forall>x. open_routed C J ?b (kp_private_key kp) \<noteq> Ok x)"
    unfolding rewritten_header_is_rejected_def Let_def draw_step [OF kp] route_seal_step [OF e]
    by (simp only: rep read expect_ok.simps ebind_lift assert_eq_def assert_true_eval refl lift_apply fst_conv
        rejected_iff [OF C le l rd(2) refl])
  with read show ?thesis by (intro exI2 [of _ ?b "kp_private_key kp"]) blast
qed

lemma wrong_key_outcome:
  assumes C: "crypto_ok C" and J: "decimal_numbers J" "reads_canonical J"
  shows "\<exists>blob priv. (fst (wrong_key_is_rejected C J w) :: ('e, unit) result) =
    assert_true (\<forall>x. open_routed C J blob (snd priv) \<noteq> Ok x) \<and> generated_pair C (fst priv) (snd priv)"
proof -
  obtain kp w1 where kp: "hybrid_keypair C w = (kp, w1)" by (metis surj_pair)
  obtain ko w2 where ko: "hybrid_keypair C w1 = (ko, w2)" by (metis surj_pair)
  note hd = test_headers [OF J] and rd = test_values_read [OF J(2)]
  obtain blob w' s where e: "seal_routed C J (json_object [(''d'', json_uint 1)]) (lit ''body'') (kp_public_key kp) plain_hdr w2 = (Ok blob, w')"
    and b: "blob = u32_be (word_of_nat (length (canonical (sj_number J) plain_hdr))) @ canonical (sj_number J) plain_hdr @ s"
    and l: "1148 \<le> length s"
    by (rule sealed_for_test [OF C J kp hd(3) rd(3) hd(4) rd(4), of w2])
  have le: "length (canonical (sj_number J) plain_hdr) < 2 ^ 32" using hd(3) by simp
  have "(fst (wrong_key_is_rejected C J w) :: ('e, unit) result) =
      assert_true (\<forall>x. open_routed C J blob (kp_private_key ko) \<noteq> Ok x)"
    unfolding wrong_key_is_rejected_def draw_step [OF kp] draw_step [OF ko] route_seal_step [OF e]
    by (simp only: lift_apply fst_conv rejected_iff [OF C le l rd(3) b])
  with drawn_pair [OF ko] show ?thesis
    by (intro exI2 [of _ blob "(kp_public_key ko, kp_private_key ko)"]) simp
qed

lemma route_tampered:
  assumes C: "crypto_ok C" "tag_unique C" and b: "blob = u32_be (word_of_nat (length r)) @ r @ s"
    and l: "length r < 2 ^ 32" "1148 \<le> length s" and o: "open_routed C J blob priv = Ok x"
  obtains bad where "flip_last blob = Ok bad" "is_rt_open (open_routed C J bad priv)"
proof -
  define ct nonce body where "ct = take 1120 s" and "nonce = take 12 (drop 1120 s)" and "body = drop 1132 s"
  have s: "s = ct @ nonce @ body"
    using take_drop_3 [of s 1120 12] by (simp add: ct_def nonce_def body_def)
  have len: "length ct = 1120" "length nonce = 12" "16 \<le> length body"
    using l(2) by (simp_all add: ct_def nonce_def body_def)
  obtain hdr ss key inner where k: "parse_json J r = Ok hdr" "hybrid_decap C ct priv = Ok ss"
    "route_wrap_key C ss (build_aad r) = Ok key" "aead_open C key nonce (build_aad r) body = Ok inner"
    using o by (auto simp: b s open_routed_unfold [OF l(1) len] result_iffs)
  obtain bad where bad: "flip_last body = Ok bad" "length bad = length body" "aead_open C key nonce (build_aad r) bad = Err ()"
    using flipped_tag_rejected [OF C k(4)] by blast
  let ?bad = "u32_be (word_of_nat (length r)) @ r @ ct @ nonce @ bad"
  have "flip_last blob = Ok ?bad"
    using flip_last_append [OF bad(1), of "u32_be (word_of_nat (length r)) @ r @ ct @ nonce"] by (simp add: b s)
  moreover have "16 \<le> length bad" using bad(2) len(3) by simp
  ultimately show thesis
    using that [of ?bad] k(1-3) bad(3) by (simp add: open_routed_unfold [OF l(1) len(1,2)])
qed

lemma tampered_inner_passes:
  assumes C: "crypto_ok C" "tag_unique C" and J: "decimal_numbers J" "reads_canonical J"
  shows "always_passes (tampered_inner_is_rejected C J)"
  unfolding always_passes_def
proof
  fix w
  obtain kp w1 where kp: "hybrid_keypair C w = (kp, w1)" by (metis surj_pair)
  note hd = test_headers [OF J] and rd = test_values_read [OF J(2)]
  obtain blob w' s where e: "seal_routed C J (json_object [(''d'', json_uint 1)]) (lit ''body'') (kp_public_key kp) plain_hdr w1 = (Ok blob, w')"
    and b: "blob = u32_be (word_of_nat (length (canonical (sj_number J) plain_hdr))) @ canonical (sj_number J) plain_hdr @ s"
    and l: "1148 \<le> length s"
    and o: "open_routed C J blob (kp_private_key kp) = Ok (plain_hdr, json_object [(''d'', json_uint 1)], lit ''body'')"
    by (rule sealed_for_test [OF C(1) J kp hd(3) rd(3) hd(4) rd(4), of w1])
  have le: "length (canonical (sj_number J) plain_hdr) < 2 ^ 32" using hd(3) by simp
  show "fst (tampered_inner_is_rejected C J w) = (Ok () :: (unit, unit) result)"
  proof (rule route_tampered [OF C b le l o])
    fix bad
    assume bad: "flip_last blob = (Ok bad :: (unit, bytes) result)" "is_rt_open (open_routed C J bad (kp_private_key kp))"
    show ?thesis
      unfolding tampered_inner_is_rejected_def draw_step [OF kp] route_seal_step [OF e]
      by (simp add: bad)
  qed
qed

lemma route_format_tests_pass:
  assumes J: "decimal_numbers J"
  shows "always_passes (bad_pub_len_is_format_error C J)" "passes (truncated_blob_is_format_error J)"
    "passes (short_sealed_inner_is_format_error C J)"
proof -
  have "seal_routed C J meta content (replicate 10 0) hdr w =
      (Err (RtFormat (''dest_hybrid_pub must be '' @ decimal PUBLIC_KEY_LEN @ '' bytes, got '' @ decimal (length (replicate 10 (0 :: u8))))), w)"
    for meta content hdr w by (simp add: seal_routed_def len_simps)
  then show "always_passes (bad_pub_len_is_format_error C J)"
    by (simp add: always_passes_def bad_pub_len_is_format_error_def eobserve_def ebind_def)
  have "split_outer (u32_be 100 @ lit ''short'') = Err (RtFormat ''route header length exceeds blob size'')"
    by (simp add: split_outer_def len_simps result_simps Let_def)
  then show "passes (truncated_blob_is_format_error J)"
    by (simp add: passes_def truncated_blob_is_format_error_def read_route_header_def split_outer_def len_simps)
  have l: "length (canonical (sj_number J) plain_hdr) < 2 ^ 32" by (simp add: canonical_texts [OF J])
  show "passes (short_sealed_inner_is_format_error C J)"
    unfolding passes_def short_sealed_inner_is_format_error_def Let_def open_routed_def split_outer_frame [OF l]
    by (simp add: len_simps)
qed

end
