(* ===== verification/Queue_Tests.thy ===== *)
theory Queue_Tests
  imports Testing Anon_Queue
begin

text \<open>
  The unit tests of the anonymous queue addresses (\<open>src/anon_queue.rs\<close>), as they are written, and what
  their outcome is for every instance of the primitives and of the codecs: \<open>B\<close> is the URL-safe \<open>base64\<close>
  engine without padding, \<open>H\<close> is \<open>hex\<close>.
\<close>

subsection \<open>The tests\<close>

text \<open>The first test calls \<open>new_queue_pair\<close> twice, whose loop need not end: \<open>None\<close> is a test that never returns.\<close>

definition new_queue_pair_is_distinct_and_sized :: "('w, 'z) crypto_scheme \<Rightarrow> 'w \<Rightarrow> ('e, unit) result option" where
  "new_queue_pair_is_distinct_and_sized C w =
     Option.bind (new_queue_pair C w) (\<lambda>((recipient_id, sender_id), w1).
     case asserts
       [assert_eq (length recipient_id) QUEUE_ID_LEN,
        assert_eq (length sender_id) QUEUE_ID_LEN,
        assert_ne recipient_id sender_id] of
       Ok _ \<Rightarrow> Option.bind (new_queue_pair C w1) (\<lambda>((r2, s2), w2).
         Some (asserts [assert_ne sender_id s2, assert_ne recipient_id r2]))
     | failed \<Rightarrow> Some failed)"

definition aqid_round_trip :: "text_codec \<Rightarrow> ('w, 'z) crypto_scheme \<Rightarrow> 'w \<Rightarrow> ('e, unit) result option" where
  "aqid_round_trip B C w =
     Option.bind (new_queue_pair C w) (\<lambda>((_, sender_id), w1). Some (
     rbind (expect_ok (encode_aqid B ''relay.example:5223'' sender_id)) (\<lambda>addr.
     rbind (assert_true (starts_with addr ''aqid:relay.example:5223/'')) (\<lambda>_.
     rbind (expect_ok (decode_aqid B addr)) (\<lambda>(relay, decoded). asserts
       [assert_eq relay ''relay.example:5223'', assert_eq decoded sender_id])))))"

definition encode_aqid_python_parity_vector :: "text_codec \<Rightarrow> ('e, unit) result" where
  "encode_aqid_python_parity_vector B =
     (let sender_id = map word_of_nat [0..<16] in
      rbind (expect_ok (encode_aqid B ''relay1'' sender_id)) (\<lambda>addr.
      rbind (assert_eq addr ''aqid:relay1/AAECAwQFBgcICQoLDA0ODw'') (\<lambda>_.
      rbind (expect_ok (decode_aqid B addr)) (\<lambda>(relay, decoded). asserts
        [assert_eq relay ''relay1'', assert_eq decoded sender_id]))))"

definition encode_aqid_rejects_bad_relay_and_len :: "text_codec \<Rightarrow> ('e, unit) result" where
  "encode_aqid_rejects_bad_relay_and_len B =
     (let sid = replicate QUEUE_ID_LEN 0 in asserts
       [assert_eq (encode_aqid B '''' sid) (Err (BadRelay ''must be a non-empty string'')),
        assert_eq (encode_aqid B ''a/b'' sid) (Err (BadRelay (''must not contain '' @ [CHR 0x27, CHR ''/'', CHR 0x27]))),
        assert_eq (encode_aqid B ''relay'' (replicate 8 0)) (Err (BadIdLen ''sender_id'' 8))])"

fun is_bad_address :: "(anon_queue_error, 'a) result \<Rightarrow> bool" where
  "is_bad_address (Err (BadAddress _)) = True"
| "is_bad_address _ = False"

definition decode_aqid_rejects_malformed :: "text_codec \<Rightarrow> ('e, unit) result" where
  "decode_aqid_rejects_malformed B = asserts
     [assert_true (is_bad_address (decode_aqid B ''http:relay/AAECAwQFBgcICQoLDA0ODw'')),
      assert_true (is_bad_address (decode_aqid B ''aqid:relayonly'')),
      assert_true (is_bad_address (decode_aqid B ''aqid:/AAECAwQFBgcICQoLDA0ODw'')),
      assert_true (is_bad_address (decode_aqid B ''aqid:relay/'')),
      assert_true (decode_aqid B ''aqid:relay/****'' = Err BadBase64),
      let short = tc_encode B [0, 1] in
      assert_true (decode_aqid B (''aqid:relay/'' @ short) = Err (BadIdLen ''decoded id'' 2))]"

definition auth_tag_python_parity_vector :: "text_codec \<Rightarrow> ('w, 'z) crypto_scheme \<Rightarrow> ('e, unit) result" where
  "auth_tag_python_parity_vector H C =
     (let secret = lit ''shared-secret''; message = lit ''hello''; nonce = lit ''nonce123'';
          tag = auth_tag C secret message nonce in
      rbind (assert_eq (length tag) AUTH_TAG_LEN) (\<lambda>_.
      rbind (case tc_decode H ''f9639bfd00c4e17d76b026b64d97c71124fcec8ec947c0e4ebe2a508e101aa18'' of
          Inl _ \<Rightarrow> Panic | Inr expected \<Rightarrow> Ok expected) (\<lambda>expected.
      assert_eq tag expected)))"

definition auth_tag_is_deterministic_and_nonce_bound :: "('w, 'z) crypto_scheme \<Rightarrow> ('e, unit) result" where
  "auth_tag_is_deterministic_and_nonce_bound C =
     (let secret = lit ''k''; msg = lit ''payload''; n1 = lit ''nonceAAAA''; n2 = lit ''nonceBBBB'' in asserts
       [assert_eq (auth_tag C secret msg n1) (auth_tag C secret msg n1),
        assert_ne (auth_tag C secret msg n1) (auth_tag C secret msg n2)])"

definition verify_tag_accepts_valid_and_rejects_tamper :: "('w, 'z) crypto_scheme \<Rightarrow> ('e, unit) result" where
  "verify_tag_accepts_valid_and_rejects_tamper C =
     (let secret = lit ''shared''; message = lit ''the message body''; nonce = lit ''unique-nonce'';
          tag = auth_tag C secret message nonce in
      rbind (asserts
        [assert_true (verify_tag C secret message nonce tag),
         assert_true (\<not> verify_tag C secret (lit ''the messXge body'') nonce tag),
         assert_true (\<not> verify_tag C secret message (lit ''other-nonce-'') tag),
         assert_true (\<not> verify_tag C (lit ''wrong'') message nonce tag)]) (\<lambda>_.
      rbind (flip_last tag) (\<lambda>bad.
      rbind (assert_true (\<not> verify_tag C secret message nonce bad)) (\<lambda>_.
      rbind (slice tag 0 (AUTH_TAG_LEN - 1)) (\<lambda>short. asserts
        [assert_true (\<not> verify_tag C secret message nonce short),
         assert_true (\<not> verify_tag C secret message nonce [])])))))"

subsection \<open>Queue pairs\<close>

lemma new_queue_pair_facts:
  assumes C: "crypto_ok C" and p: "new_queue_pair C w = Some ((r, s), w')"
  shows "length r = 16 \<and> length s = 16 \<and> s \<noteq> r"
proof -
  obtain r0 w1 where r0: "fill_bytes C QUEUE_ID_LEN w = (r0, w1)" by (metis surj_pair)
  obtain s0 w2 where s0: "fill_bytes C QUEUE_ID_LEN w1 = (s0, w2)" by (metis surj_pair)
  have l: "length r0 = 16" "length s0 = 16"
    using fill_bytes_length [OF C r0] fill_bytes_length [OF C s0] by (simp_all add: QUEUE_ID_LEN_def)
  have rd: "redraw C r0 s0 w2 = Some (s, w')" "r = r0" using p r0 s0 by (auto simp: new_queue_pair_def)
  show ?thesis
  proof (cases "s0 = r0")
    case True
    then obtain k where "nth_draw C k w2 \<noteq> r0" using redraw_Some [OF rd(1)] by blast
    from redraw_returns [OF C this l(2)] show ?thesis using rd l by auto
  next
    case False
    then show ?thesis using rd l by (simp add: redraw.simps [of C r0])
  qed
qed

lemma queue_pair_test_outcome:
  assumes C: "crypto_ok C" and p: "new_queue_pair C w = Some ((r, s), w1)" "new_queue_pair C w1 = Some ((r2, s2), w2)"
  shows "new_queue_pair_is_distinct_and_sized C w = Some (assert_true (s \<noteq> s2 \<and> r \<noteq> r2))"
  using new_queue_pair_facts [OF C p(1)]
  by (auto simp: new_queue_pair_is_distinct_and_sized_def p QUEUE_ID_LEN_def assert_true_def)

text \<open>The round trip never fails: the test passes, or it never returns.\<close>

lemma aqid_round_trip_passes:
  assumes C: "crypto_ok C" and B: "text_codec_ok B"
  shows "aqid_round_trip B C w = (if new_queue_pair C w = None then None else Some (Ok ()))"
proof (cases "new_queue_pair C w")
  case (Some x)
  obtain r s w' where x: "x = ((r, s), w')" by (metis surj_pair)
  have "length s = 16" using new_queue_pair_facts [OF C] Some x by blast
  then have e: "encode_aqid B ''relay.example:5223'' s = Ok (AQID_SCHEME @ ''relay.example:5223'' @ ''/'' @ tc_encode B s)"
    by (simp add: encode_aqid_def QUEUE_ID_LEN_def)
  from decode_encode_aqid [OF B e] show ?thesis
    by (simp add: aqid_round_trip_def Some x e starts_with_iff strip_prefix_def AQID_SCHEME_def)
qed (simp add: aqid_round_trip_def)

subsection \<open>Addresses\<close>

lemma address_tests_pass:
  assumes B: "text_codec_ok B"
  shows "passes (encode_aqid_rejects_bad_relay_and_len B)"
    and "base64url_ok B \<Longrightarrow> passes (encode_aqid_python_parity_vector B)"
    and "rejects_outside base64url_alphabet B \<Longrightarrow> passes (decode_aqid_rejects_malformed B)"
proof -
  show "passes (encode_aqid_rejects_bad_relay_and_len B)"
    by (simp add: passes_def encode_aqid_rejects_bad_relay_and_len_def encode_aqid_def QUEUE_ID_LEN_def)
  show "passes (encode_aqid_python_parity_vector B)" if b: "base64url_ok B"
  proof -
    let ?id = "map word_of_nat [0..<16] :: bytes"
    have "tc_encode B ?id = ''AAECAwQFBgcICQoLDA0ODw''"
      using b by (simp add: base64url_ok_def base64url_vector)
    then have e: "encode_aqid B ''relay1'' ?id = Ok ''aqid:relay1/AAECAwQFBgcICQoLDA0ODw''"
      by (simp add: encode_aqid_def QUEUE_ID_LEN_def AQID_SCHEME_def)
    show ?thesis
      unfolding passes_def encode_aqid_python_parity_vector_def Let_def e
      by (simp add: decode_encode_aqid [OF B e])
  qed
  show "passes (decode_aqid_rejects_malformed B)" if r: "rejects_outside base64url_alphabet B"
  proof -
    have "\<exists>e. tc_decode B ''****'' = Inl e"
      using r by (auto simp: rejects_outside_def base64url_alphabet_def)
    moreover have "tc_encode B [0, 1] \<noteq> []" by (rule tc_encode_nonempty [OF B]) simp
    ultimately show ?thesis
      by (auto simp: passes_def decode_aqid_rejects_malformed_def decode_aqid_def strip_prefix_def AQID_SCHEME_def
          split_once_append tc_decode_encode [OF B] QUEUE_ID_LEN_def)
  qed
qed

subsection \<open>Tags\<close>

definition hmac_vector :: bytes where
  "hmac_vector = [0xF9, 0x63, 0x9B, 0xFD, 0x00, 0xC4, 0xE1, 0x7D, 0x76, 0xB0, 0x26, 0xB6, 0x4D, 0x97, 0xC7, 0x11, 0x24, 0xFC, 0xEC, 0x8E, 0xC9, 0x47, 0xC0, 0xE4, 0xEB, 0xE2, 0xA5, 0x08, 0xE1, 0x01, 0xAA, 0x18]"

lemma hex_hmac_vector: "hex_text hmac_vector = ''f9639bfd00c4e17d76b026b64d97c71124fcec8ec947c0e4ebe2a508e101aa18''"
  by (simp add: hmac_vector_def hex_text_def)

lemma auth_tag_vector_outcome:
  assumes C: "crypto_ok C" and H: "hex_ok H" "text_codec_lossless H"
  shows "auth_tag_python_parity_vector H C =
    assert_true (hmac_sha256 C (lit ''shared-secret'') (lit ''nonce123hello'') = hmac_vector)"
proof -
  have "tc_decode H (hex_text hmac_vector) = Inr hmac_vector"
    using tc_lossless [OF H(2), of hmac_vector] H(1) by (simp add: hex_ok_def)
  then show ?thesis
    using hmac_length [OF C]
    by (simp add: hex_hmac_vector auth_tag_python_parity_vector_def auth_tag_def AUTH_TAG_LEN_def)
qed

lemma auth_tag_nonce_outcome:
  "auth_tag_is_deterministic_and_nonce_bound C = assert_true
     (hmac_sha256 C (lit ''k'') (lit ''nonceAAAApayload'') \<noteq> hmac_sha256 C (lit ''k'') (lit ''nonceBBBBpayload''))"
  by (simp add: auth_tag_is_deterministic_and_nonce_bound_def auth_tag_def assert_true_def)

lemma verify_tag_test_outcome:
  assumes C: "crypto_ok C"
  shows "(verify_tag_accepts_valid_and_rejects_tamper C :: ('e, unit) result) =
    (let tag = hmac_sha256 C (lit ''shared'') (lit ''unique-noncethe message body'') in assert_true
      (tag \<notin> {hmac_sha256 C (lit ''shared'') (lit ''unique-noncethe messXge body''),
        hmac_sha256 C (lit ''shared'') (lit ''other-nonce-the message body''),
        hmac_sha256 C (lit ''wrong'') (lit ''unique-noncethe message body'')}))"
proof -
  have inputs: "lit ''unique-nonce'' @ lit ''the message body'' = lit ''unique-noncethe message body''"
    "lit ''unique-nonce'' @ lit ''the messXge body'' = lit ''unique-noncethe messXge body''"
    "lit ''other-nonce-'' @ lit ''the message body'' = lit ''other-nonce-the message body''"
    by simp_all
  define t a b c where "t = hmac_sha256 C (lit ''shared'') (lit ''unique-noncethe message body'')"
    and "a = hmac_sha256 C (lit ''shared'') (lit ''unique-noncethe messXge body'')"
    and "b = hmac_sha256 C (lit ''shared'') (lit ''other-nonce-the message body'')"
    and "c = hmac_sha256 C (lit ''wrong'') (lit ''unique-noncethe message body'')"
  note tags = t_def [symmetric] a_def [symmetric] b_def [symmetric] c_def [symmetric]
  have l: "length t = 32" unfolding t_def by (rule hmac_length [OF C])
  then obtain u x where t: "t = u @ [x]" by (metis length_0_conv rev_exhaust zero_neq_numeral)
  have cut: "slice t 0 31 = (Ok u :: ('e, bytes) result)" "flip_last t = (Ok (u @ [x XOR 1]) :: ('e, bytes) result)"
    "t \<noteq> u" "t \<noteq> u @ [x XOR 1]" "t \<noteq> []"
    using l unfolding t by (simp_all add: slice_def flip_last_snoc word_xor_1_neq [symmetric])
  have "verify_tag_accepts_valid_and_rejects_tamper C = (assert_true (a \<noteq> t \<and> b \<noteq> t \<and> c \<noteq> t) :: ('e, unit) result)"
    unfolding verify_tag_accepts_valid_and_rejects_tamper_def Let_def verify_tag_def auth_tag_def inputs tags AUTH_TAG_LEN_def
    by (simp add: cut assert_true_def)
  moreover have "(a \<noteq> t \<and> b \<noteq> t \<and> c \<noteq> t) = (t \<notin> {a, b, c})" by auto
  ultimately show ?thesis unfolding Let_def tags by simp
qed

end
