(* ===== verification/Registry_Tests.thy ===== *)
theory Registry_Tests
  imports Testing Report
begin

text \<open>
  The unit tests of the suite registry (\<open>src/suites.rs\<close>) and of the self-report (\<open>src/report.rs\<close>), and
  that each of them passes. These tests compare whole texts with the ones the Python implementation
  writes, so they also check the texts of the model.
\<close>

subsection \<open>Looking into JSON\<close>

text \<open>\<open>v["key"]\<close> and \<open>v[i]\<close> of \<open>serde_json\<close>: \<open>Null\<close> when there is no such member.\<close>

definition json_index :: "'f json \<Rightarrow> string \<Rightarrow> 'f json" where
  "json_index v k = (case json_get k v of Some x \<Rightarrow> x | None \<Rightarrow> JNull)"

fun json_nth :: "'f json \<Rightarrow> nat \<Rightarrow> 'f json" where
  "json_nth (JArray vs) i = (if i < length vs then vs ! i else JNull)"
| "json_nth v i = JNull"

subsection \<open>The registry\<close>

definition status_predicate_honesty :: "('e, unit) result" where
  "status_predicate_honesty = asserts
     [assert_true (\<not> status_is_quantum_resistant Classical),
      assert_true (status_is_quantum_resistant HybridPq),
      assert_true (status_is_quantum_resistant Pq),
      assert_true (status_is_quantum_resistant Symmetric)]"

definition seeded_registry_has_the_three_named_suites :: "('e, unit) result" where
  "seeded_registry_has_the_three_named_suites =
     (let r = seeded in
      rbind (asserts
        [assert_eq (registry_suite_status r ''x25519-mlkem768'') HybridPq,
         assert_eq (registry_suite_status r ''x25519-pgp-wrap-v1'') Classical,
         assert_eq (registry_suite_status r ''aes256-gcm-v1'') Symmetric]) (\<lambda>_.
      rbind (expect (registry_get_suite r ''x25519-mlkem768'')) (\<lambda>s.
      assert_eq (cs_replaces s) (Some ''x25519-pgp-wrap-v1''))))"

definition quantum_resistance_per_suite :: "('e, unit) result" where
  "quantum_resistance_per_suite =
     (let r = seeded in asserts
       [assert_true (registry_is_quantum_resistant r ''x25519-mlkem768''),
        assert_true (registry_is_quantum_resistant r ''aes256-gcm-v1''),
        assert_true (\<not> registry_is_quantum_resistant r ''x25519-pgp-wrap-v1'')])"

definition unknown_suite_is_classical_and_not_qr :: "('e, unit) result" where
  "unknown_suite_is_classical_and_not_qr =
     (let r = seeded in asserts
       [assert_true (registry_get_suite r ''totally-made-up'' = None),
        assert_eq (registry_suite_status r ''totally-made-up'') Classical,
        assert_true (\<not> registry_is_quantum_resistant r ''totally-made-up'')])"

definition all_suites_stable_classical_first_then_status_then_id :: "('e, unit) result" where
  "all_suites_stable_classical_first_then_status_then_id =
     (let r = seeded; ids = map cs_suite_id (registry_all_suites r) in
      assert_eq ids [''x25519-pgp-wrap-v1'', ''x25519-mlkem768'', ''aes256-gcm-v1''])"

definition register_is_idempotent_last_write_wins :: "('e, unit) result" where
  "register_is_idempotent_last_write_wins =
     (let r = registry_empty;
          (_, r) = register (crypto_suite_new ''x'' Kem Classical [''a''] [] ''first'' True) r;
          (_, r) = register (crypto_suite_new ''x'' Kem HybridPq [''b''] [] ''second'' True) r
      in rbind (assert_eq (length (registry_all_suites r)) 1) (\<lambda>_.
         rbind (expect (registry_get_suite r ''x'')) (\<lambda>s.
         rbind (assert_eq (cs_description s) ''second'') (\<lambda>_.
         rbind (expect (registry_get_suite r ''x'')) (\<lambda>s.
         assert_eq (cs_status s) HybridPq)))))"

definition parity_to_dict_json_shape :: "('e, unit) result" where
  "parity_to_dict_json_shape =
     (let r = seeded in
      rbind (expect (registry_get_suite r ''x25519-mlkem768'')) (\<lambda>s.
      let d = to_dict s :: unit json in
      rbind (asserts
        [assert_eq (json_index d ''suite_id'') (JString ''x25519-mlkem768''),
         assert_eq (json_index d ''kind'') (JString ''kem''),
         assert_eq (json_index d ''status'') (JString ''hybrid-pq''),
         assert_eq (json_index d ''quantum_resistant'') (JBool True),
         assert_eq (json_index d ''active'') (JBool True),
         assert_eq (json_index d ''replaces'') (JString ''x25519-pgp-wrap-v1''),
         assert_eq (json_nth (json_index d ''fips_refs'') 0) (JString ''FIPS 203''),
         assert_eq (json_nth (json_index d ''primitives'') 1) (JString ''ML-KEM-768 (FIPS 203, liboqs)'')]) (\<lambda>_.
      rbind (expect (as_object d)) (\<lambda>obj.
      for_each [''suite_id'', ''kind'', ''status'', ''primitives'', ''fips_refs'', ''description'', ''active'',
          ''quantum_resistant'', ''replaces'']
        (\<lambda>k. assert_true (map_of obj k \<noteq> None))))))"

definition global_singleton_is_seeded :: "('e, unit) result" where
  "global_singleton_is_seeded = asserts
     [assert_true (get_suite ''x25519-mlkem768'' \<noteq> None),
      assert_true (is_quantum_resistant ''x25519-mlkem768''),
      assert_true (\<not> is_quantum_resistant ''x25519-pgp-wrap-v1''),
      assert_eq (length active_suites) 3]"

lemma registry_queries [test_simps]:
  "registry_get_suite seeded i = get_suite i"
  "registry_suite_status seeded i = suite_status_of i"
  "registry_is_quantum_resistant seeded i = is_quantum_resistant i"
  "registry_all_suites seeded = all_suites"
  by (simp_all add: get_suite_def suite_status_of_def is_quantum_resistant_def all_suites_def)

text \<open>All tests of the module, and that they pass.\<close>

definition suites_tests :: "('e, unit) result list" where
  "suites_tests =
     [status_predicate_honesty, seeded_registry_has_the_three_named_suites, quantum_resistance_per_suite,
      unknown_suite_is_classical_and_not_qr, all_suites_stable_classical_first_then_status_then_id,
      register_is_idempotent_last_write_wins, parity_to_dict_json_shape, global_singleton_is_seeded]"

lemma suite_status_of_eq: "suite_status_of i = (case get_suite i of Some s \<Rightarrow> cs_status s | None \<Rightarrow> Classical)"
  by (simp add: suite_status_of_def registry_suite_status_def get_suite_def)

lemma suites_tests_pass: "list_all passes suites_tests"
proof -
  have "status_predicate_honesty = (Ok () :: (unit, unit) result)"
    by (simp add: status_predicate_honesty_def)
  moreover have "seeded_registry_has_the_three_named_suites = (Ok () :: (unit, unit) result)"
    by (simp add: seeded_registry_has_the_three_named_suites_def test_simps suite_status_of_eq get_suite_eq
        rbind_eq_Ok_iff) (simp add: hybrid_suite_def replacing_def)
  moreover have "quantum_resistance_per_suite = (Ok () :: (unit, unit) result)"
    by (simp add: quantum_resistance_per_suite_def test_simps is_quantum_resistant_iff)
  moreover have "unknown_suite_is_classical_and_not_qr = (Ok () :: (unit, unit) result)"
    by (simp add: unknown_suite_is_classical_and_not_qr_def test_simps suite_status_of_eq get_suite_eq
        is_quantum_resistant_iff)
  moreover have "all_suites_stable_classical_first_then_status_then_id = (Ok () :: (unit, unit) result)"
    by (simp add: all_suites_stable_classical_first_then_status_then_id_def test_simps all_suites_eq)
  moreover have "register_is_idempotent_last_write_wins = (Ok () :: (unit, unit) result)"
    by (simp add: register_is_idempotent_last_write_wins_def register_def crypto_suite_new_def registry_empty_def
        registry_all_suites_def registry_get_suite_def rbind_eq_Ok_iff)
  moreover have "parity_to_dict_json_shape = (Ok () :: (unit, unit) result)"
    by (simp add: parity_to_dict_json_shape_def test_simps get_suite_eq to_dict_eq json_index_def for_each_def
        suite_is_quantum_resistant_def hybrid_suite_def crypto_suite_new_def replacing_def rbind_eq_Ok_iff)
  moreover have "global_singleton_is_seeded = (Ok () :: (unit, unit) result)"
    by (simp add: global_singleton_is_seeded_def test_simps get_suite_eq is_quantum_resistant_iff
        active_suites_def registry_active_suites_def all_suites_eq)
  ultimately show ?thesis by (simp add: suites_tests_def passes_def)
qed

subsection \<open>The self-report\<close>

definition classical_suite_is_never_quantum_resistant :: "('e, unit) result" where
  "classical_suite_is_never_quantum_resistant =
     for_each [L2Oneshot, L3Epoch] (\<lambda>level.
       rbind (dm_ratchet_surface_for ''x25519-pgp-wrap-v1'' level 9 ''bob'') (\<lambda>s. asserts
         [assert_eq (sr_status s) ''classical'',
          assert_true (\<not> sr_quantum_resistant s),
          assert_true (contains (sr_note s) ''HNDL-exposed''),
          assert_true (is_honest_note (sr_note s))]))"

definition unknown_suite_resolves_classical_not_qr :: "('e, unit) result" where
  "unknown_suite_resolves_classical_not_qr =
     rbind (dm_ratchet_surface_for ''acme-unobtainium-9000'' L3Epoch 1 '''') (\<lambda>s. asserts
       [assert_eq (sr_status s) ''classical'',
        assert_true (\<not> sr_quantum_resistant s),
        assert_eq (sr_primitives s) [''unknown''],
        assert_true (sr_fips_refs s = [])])"

definition empty_suite_falls_back_to_classical_default :: "('e, unit) result" where
  "empty_suite_falls_back_to_classical_default =
     rbind (dm_ratchet_surface_for '''' L2Oneshot 0 '''') (\<lambda>s. asserts
       [assert_eq (sr_active_suite s) DEFAULT_CONVERSATION_SUITE,
        assert_eq (sr_status s) ''classical'',
        assert_true (\<not> sr_quantum_resistant s)])"

definition hybrid_l3_is_quantum_resistant_and_cites_fips203 :: "('e, unit) result" where
  "hybrid_l3_is_quantum_resistant_and_cites_fips203 =
     rbind (dm_ratchet_surface_for REPORT_HYBRID_KEM_SUITE L3Epoch 5 ''bob'') (\<lambda>s. asserts
       [assert_eq (sr_status s) ''hybrid-pq'',
        assert_true (sr_quantum_resistant s),
        assert_true (contains (sr_note s) ''FIPS 203''),
        assert_true (contains (sr_note s) ''EITHER''),
        assert_true (contains (sr_note s) ''epoch 5''),
        assert_true (is_honest_note (sr_note s))])"

definition hybrid_l2_oneshot_states_limited_fs :: "('e, unit) result" where
  "hybrid_l2_oneshot_states_limited_fs =
     rbind (dm_ratchet_surface_for REPORT_HYBRID_KEM_SUITE L2Oneshot 0 '''') (\<lambda>s. asserts
       [assert_eq (sr_status s) ''hybrid-pq'',
        assert_true (sr_quantum_resistant s),
        assert_true (contains (sr_note s) ''one-shot hybrid seal''),
        assert_true (contains (sr_note s) ''EITHER'')])"

definition no_builder_ever_emits_a_forbidden_word :: "('e, unit) result" where
  "no_builder_ever_emits_a_forbidden_word =
     for_each [''x25519-mlkem768'', ''x25519-pgp-wrap-v1'', ''aes256-gcm-v1'', '''', ''junk''] (\<lambda>suite.
       rbind (for_each [L2Oneshot, L3Epoch] (\<lambda>level. for_each ['''', ''alice''] (\<lambda>peer.
         rbind (dm_ratchet_surface_for suite level 3 peer) (\<lambda>dm.
         assert_true (is_honest_note (sr_note dm)))))) (\<lambda>_.
       for_each [Dm, Envelope] (\<lambda>kind.
         rbind (conversation_surface_for suite kind ''carol'') (\<lambda>c.
         assert_true (is_honest_note (sr_note c))))))"

definition is_honest_note_catches_each_forbidden_word :: "('e, unit) result" where
  "is_honest_note_catches_each_forbidden_word = asserts
     [assert_true (\<not> is_honest_note ''this is quantum-proof''),
      assert_true (\<not> is_honest_note ''Totally QUANTUM-SAFE!''),
      assert_true (\<not> is_honest_note ''an unbreakable cipher''),
      assert_true (is_honest_note ''hybrid: secure if EITHER leg holds (FIPS 203)'')]"

definition conversation_envelope_vs_dm_components :: "('e, unit) result" where
  "conversation_envelope_vs_dm_components =
     rbind (conversation_surface_for REPORT_HYBRID_KEM_SUITE Dm '''') (\<lambda>dm.
     rbind (asserts
       [assert_eq (sr_surface dm) ''dm'',
        assert_eq (sr_component dm) ''skchat (ChatCrypto)'',
        assert_true (starts_with (sr_note dm) ''DM conversation'')]) (\<lambda>_.
     rbind (conversation_surface_for REPORT_HYBRID_KEM_SUITE Envelope '''') (\<lambda>env. asserts
       [assert_eq (sr_surface env) ''envelope-payload'',
        assert_eq (sr_component env) ''skcomms (EnvelopeCrypto)'',
        assert_true (starts_with (sr_note env) ''ENVELOPE-PAYLOAD conversation'')])))"

text \<open>\<open>pp\<close> and \<open>parse\<close> are \<open>serde_json::to_string_pretty\<close> and \<open>serde_json::from_str\<close>.\<close>

definition report_summary_counts_and_serialises ::
  "(unit json \<Rightarrow> string option) \<Rightarrow> (string \<Rightarrow> unit json option) \<Rightarrow> ('e, unit) result" where
  "report_summary_counts_and_serialises pp parse =
     rbind (dm_ratchet_surface_for REPORT_HYBRID_KEM_SUITE L3Epoch 1 '''') (\<lambda>s1.
     rbind (dm_ratchet_surface_for ''x25519-pgp-wrap-v1'' L2Oneshot 0 '''') (\<lambda>s2.
     rbind (from_surfaces [s1, s2]) (\<lambda>rpt.
     rbind (asserts
       [assert_eq (sm_total_surfaces (rp_summary rpt)) 2,
        assert_eq (sm_quantum_resistant (rp_summary rpt)) 1,
        assert_eq (sm_classical (rp_summary rpt)) 1,
        assert_true (contains (rp_honest_claim rpt) ''NOT quantum-resistant end-to-end''),
        assert_true (is_honest_note (rp_honest_claim rpt))]) (\<lambda>_.
     rbind (report_to_json pp rpt) (\<lambda>txt.
     rbind (expect (parse txt)) (\<lambda>v. asserts
       [assert_eq (json_index v ''report'') (JString ''pqc-self-report''),
        assert_eq (json_index (json_index v ''summary'') ''quantum_resistant'') (JNumber (PosInt 1)),
        assert_eq (json_index (json_nth (json_index v ''surfaces'') 0) ''status'') (JString ''hybrid-pq''),
        assert_eq (json_index (json_nth (json_index v ''surfaces'') 0) ''quantum_resistant'') (JBool True),
        assert_eq (json_index (json_nth (json_index v ''surfaces'') 1) ''quantum_resistant'') (JBool False)]))))))"

definition parity_dm_l3_hybrid_note_vector :: "('e, unit) result" where
  "parity_dm_l3_hybrid_note_vector =
     rbind (dm_ratchet_surface_for REPORT_HYBRID_KEM_SUITE L3Epoch 5 ''bob'') (\<lambda>s.
     let expected = ''DM with bob on the running epoch-ratchet, FS + PCS, hybrid X25519+ML-KEM-768 rekey per epoch (epoch 5). Each epoch re-derives the chain from a fresh hybrid-KEM secret, so a compromised key neither decrypts past epochs (forward secrecy) nor future ones once healed (post-compromise security). Secure while EITHER the X25519 or the ML-KEM-768 (FIPS 203) leg holds.''
     in asserts
       [assert_eq (sr_note s) expected,
        assert_eq (sr_surface s) ''dm'',
        assert_eq (sr_component s) ''skchat (DmRatchet)'',
        assert_eq (sr_active_suite s) ''x25519-mlkem768''])"

definition parity_dm_classical_note_vector :: "('e, unit) result" where
  "parity_dm_classical_note_vector =
     rbind (dm_ratchet_surface_for ''x25519-pgp-wrap-v1'' L2Oneshot 0 '''') (\<lambda>s.
     let expected = ''DM on the CLASSICAL PGP key-wrap (x25519-pgp-wrap-v1) '' @ em_dash @ '' HNDL-exposed: recorded ciphertext is retroactively decryptable. The L2-oneshot ratchet structure provides NO post-quantum confidentiality while the KEM is classical; negotiate the hybrid X25519+ML-KEM-768 (FIPS 203) suite to close the harvest-now-decrypt-later gap.''
     in assert_eq (sr_note s) expected)"

text \<open>
  The surfaces the tests build. The builders cannot panic here: the peer names and suite ids of the
  tests carry no forbidden word.
\<close>

lemma honest_names:
  "is_honest_note []" "is_honest_note ''alice''" "is_honest_note ''bob''" "is_honest_note ''carol''"
  "is_honest_note ''junk''" "is_honest_note ''acme-unobtainium-9000''"
  by code_simp+

lemma dm_surface_eq:
  assumes "is_honest_note peer" "get_suite i = None \<longrightarrow> is_honest_note i" "i \<noteq> []"
  shows "dm_ratchet_surface_for i l e peer = Ok
    \<lparr>sr_surface = ''dm'', sr_component = ''skchat (DmRatchet)'', sr_active_suite = i,
     sr_status = status_as_str (suite_status_of i), sr_quantum_resistant = is_quantum_resistant i,
     sr_primitives = rs_primitives (resolve_suite i), sr_fips_refs = rs_fips_refs (resolve_suite i),
     sr_note = dm_note (is_quantum_resistant i) i l e peer\<rparr>"
  using assms is_honest_note_dm_note [of i l e peer]
  by (simp add: dm_ratchet_surface_for_def suite_or_default_def Let_def surface_from_eq resolve_suite_registry)

lemma dm_surface_default: "dm_ratchet_surface_for [] l e peer = dm_ratchet_surface_for DEFAULT_CONVERSATION_SUITE l e peer"
  by (simp add: dm_ratchet_surface_for_def suite_or_default_def DEFAULT_CONVERSATION_SUITE_def)

lemma dm_surface_passes:
  assumes "is_honest_note peer" "get_suite (suite_or_default n) = None \<longrightarrow> is_honest_note (suite_or_default n)"
  shows "\<exists>s. (dm_ratchet_surface_for n l e peer :: ('e, surface_report) result) = Ok s \<and> is_honest_note (sr_note s)"
  using assms is_honest_note_dm_note [of "suite_or_default n" l e peer]
  by (auto simp: dm_ratchet_surface_for_def Let_def surface_from_eq resolve_suite_registry)

lemma conversation_surface_passes:
  assumes "is_honest_note peer"
  shows "\<exists>s. (conversation_surface_for n k peer :: ('e, surface_report) result) = Ok s \<and> is_honest_note (sr_note s)"
  using conversation_surface_outcomes [of n k peer, where 'e = 'e] assms by (auto simp: honest_surface_def)

lemmas surface_test_simps =
  dm_surface_eq honest_names suite_status_of_eq get_suite_eq is_quantum_resistant_iff
  REPORT_HYBRID_KEM_SUITE_def for_each_def dm_surface_default DEFAULT_CONVERSATION_SUITE_def

lemma dm_note_texts:
  "contains (dm_note True i L3Epoch e peer) ''FIPS 203''"
  "contains (dm_note True i L2Oneshot e peer) ''one-shot hybrid seal''"
  by (simp_all add: dm_note_def contains_append_right contains_append_left)

lemma decimal_5: "u64_to_string 5 = ''5''"
  by code_simp

lemma dm_note_epoch_5: "contains (dm_note True i L3Epoch 5 peer) ''epoch 5''"
  unfolding contains_iff
  by (rule exI [where x = "''DM'' @ who peer @ '' on the running epoch-ratchet, FS + PCS, hybrid X25519+ML-KEM-768 rekey per epoch (''"])
    (simp add: dm_note_def decimal_5)

lemma report_surface_tests_pass:
  "passes classical_suite_is_never_quantum_resistant" "passes unknown_suite_resolves_classical_not_qr"
  "passes empty_suite_falls_back_to_classical_default" "passes hybrid_l3_is_quantum_resistant_and_cites_fips203"
  "passes hybrid_l2_oneshot_states_limited_fs"
proof -
  have h: "is_honest_note (dm_note True i L3Epoch e peer)"
    if "is_honest_note peer" "is_quantum_resistant i" for i e peer
    using is_honest_note_dm_note [of i L3Epoch e peer] that by (auto simp: is_quantum_resistant_iff get_suite_eq)
  have c: "is_honest_note (dm_note False ''x25519-pgp-wrap-v1'' l e peer)" if "is_honest_note peer" for l e peer
    using is_honest_note_dm_note [of "''x25519-pgp-wrap-v1''" l e peer] that
    by (auto simp: is_quantum_resistant_iff get_suite_eq)
  show "passes classical_suite_is_never_quantum_resistant"
    by (simp add: passes_def classical_suite_is_never_quantum_resistant_def surface_test_simps dm_note_says(1) c)
  show "passes unknown_suite_resolves_classical_not_qr"
    by (simp add: passes_def unknown_suite_resolves_classical_not_qr_def surface_test_simps resolve_suite_def)
  show "passes empty_suite_falls_back_to_classical_default"
    by (simp add: passes_def empty_suite_falls_back_to_classical_default_def surface_test_simps)
  show "passes hybrid_l3_is_quantum_resistant_and_cites_fips203"
    by (simp add: passes_def hybrid_l3_is_quantum_resistant_and_cites_fips203_def surface_test_simps
        dm_note_says(2) dm_note_texts dm_note_epoch_5 h)
  show "passes hybrid_l2_oneshot_states_limited_fs"
    by (simp add: passes_def hybrid_l2_oneshot_states_limited_fs_def surface_test_simps dm_note_says(2) dm_note_texts)
qed

lemma report_sweep_passes: "passes no_builder_ever_emits_a_forbidden_word"
proof -
  have s: "rbind (dm_ratchet_surface_for n l e p) (\<lambda>dm. assert_true (is_honest_note (sr_note dm))) = (Ok () :: (unit, unit) result)"
    if "is_honest_note p" "get_suite (suite_or_default n) = None \<longrightarrow> is_honest_note (suite_or_default n)" for n l e p
    using dm_surface_passes [OF that, of l e, where 'e = unit] by auto
  have c: "rbind (conversation_surface_for n k ''carol'') (\<lambda>c. assert_true (is_honest_note (sr_note c))) = (Ok () :: (unit, unit) result)" for n k
    using conversation_surface_passes [OF honest_names(4), of n k, where 'e = unit] by auto
  have d: "for_each [L2Oneshot, L3Epoch] (\<lambda>level. for_each ['''', ''alice''] (\<lambda>peer.
      rbind (dm_ratchet_surface_for n level 3 peer) (\<lambda>dm. assert_true (is_honest_note (sr_note dm))))) = (Ok () :: (unit, unit) result)"
    if "get_suite (suite_or_default n) = None \<longrightarrow> is_honest_note (suite_or_default n)" for n
  proof (rule for_each_OkI, rule for_each_OkI, rule s [OF _ that])
    fix p assume "p \<in> set ['''', ''alice'']"
    then show "is_honest_note p" using honest_names(1,2) by auto
  qed
  show ?thesis
    unfolding passes_def no_builder_ever_emits_a_forbidden_word_def
  proof (rule for_each_OkI)
    fix suite
    assume "suite \<in> set [''x25519-mlkem768'', ''x25519-pgp-wrap-v1'', ''aes256-gcm-v1'', '''', ''junk'']"
    then have "get_suite (suite_or_default suite) = None \<longrightarrow> is_honest_note (suite_or_default suite)"
      using honest_names(1,5) by (auto simp: get_suite_eq suite_or_default_def DEFAULT_CONVERSATION_SUITE_def)
    from d [OF this] show "rbind (for_each [L2Oneshot, L3Epoch] (\<lambda>level. for_each ['''', ''alice''] (\<lambda>peer.
         rbind (dm_ratchet_surface_for suite level 3 peer) (\<lambda>dm. assert_true (is_honest_note (sr_note dm)))))) (\<lambda>_.
       for_each [Dm, Envelope] (\<lambda>kind. rbind (conversation_surface_for suite kind ''carol'') (\<lambda>c.
         assert_true (is_honest_note (sr_note c))))) = (Ok () :: (unit, unit) result)"
      by (simp only: rbind.simps) (rule for_each_OkI, rule c)
  qed
qed

lemma report_text_tests_pass:
  "passes is_honest_note_catches_each_forbidden_word" "passes parity_dm_l3_hybrid_note_vector"
  "passes parity_dm_classical_note_vector"
proof -
  have "is_honest_note ''this is quantum-proof'' = False" "is_honest_note ''Totally QUANTUM-SAFE!'' = False"
    "is_honest_note ''an unbreakable cipher'' = False" "is_honest_note ''hybrid: secure if EITHER leg holds (FIPS 203)'' = True"
    by code_simp+
  then show "passes is_honest_note_catches_each_forbidden_word"
    by (simp add: passes_def is_honest_note_catches_each_forbidden_word_def)
  show "passes parity_dm_l3_hybrid_note_vector"
    by (simp add: passes_def parity_dm_l3_hybrid_note_vector_def surface_test_simps)
      (simp add: dm_note_def decimal_5 who_def)
  show "passes parity_dm_classical_note_vector"
    by (simp add: passes_def parity_dm_classical_note_vector_def surface_test_simps)
      (simp add: dm_note_def who_def)
qed

lemma starts_with_append [simp]: "starts_with (p @ s) p"
  by (auto simp: starts_with_iff)

lemma conversation_components_pass: "passes conversation_envelope_vs_dm_components"
proof -
  have u: "to_ascii_uppercase ''dm'' = ''DM''" "to_ascii_uppercase ''envelope-payload'' = ''ENVELOPE-PAYLOAD''"
    by code_simp+
  have n: "starts_with (conversation_note True up []) (up @ '' conversation'')" for up
    unfolding starts_with_iff by (simp add: conversation_note_def who_def)
  have h: "is_honest_note (conversation_note True (to_ascii_uppercase ''dm'') [])"
    "is_honest_note (conversation_note True (to_ascii_uppercase ''envelope-payload'') [])"
    using conversation_note_honest [OF conversation_honest_upper(1)] conversation_note_honest [OF conversation_honest_upper(2)]
      honest_names(1) by simp_all
  show ?thesis
    using n [of "''DM''"] n [of "''ENVELOPE-PAYLOAD''"] h
    by (simp add: passes_def conversation_envelope_vs_dm_components_def conversation_surface_for_def Let_def u
        suite_or_default_def REPORT_HYBRID_KEM_SUITE_def surface_from_eq resolve_suite_registry is_quantum_resistant_iff)
qed

text \<open>
  The report test parses what it printed: it passes when the parser reads back what the printer wrote
  for the report.
\<close>

lemma report_summary_passes:
  assumes "\<And>v. \<exists>txt. pp v = Some txt \<and> parse txt = Some v"
  shows "passes (report_summary_counts_and_serialises pp parse)"
proof -
  obtain s1 where s1: "dm_ratchet_surface_for ''x25519-mlkem768'' L3Epoch 1 '''' = (Ok s1 :: (unit, surface_report) result)"
    and p1: "sr_status s1 = ''hybrid-pq''" "sr_quantum_resistant s1" "is_honest_note (sr_note s1)"
    using dm_surface_passes [OF honest_names(1), of "''x25519-mlkem768''" L3Epoch 1, where 'e = unit]
    by (auto simp: surface_test_simps suite_or_default_def)
  obtain s2 where s2: "dm_ratchet_surface_for ''x25519-pgp-wrap-v1'' L2Oneshot 0 '''' = (Ok s2 :: (unit, surface_report) result)"
    and p2: "sr_status s2 = ''classical''" "\<not> sr_quantum_resistant s2" "is_honest_note (sr_note s2)"
    using dm_surface_passes [OF honest_names(1), of "''x25519-pgp-wrap-v1''" L2Oneshot 0, where 'e = unit]
    by (auto simp: surface_test_simps suite_or_default_def)
  have "starts_with (honest_claim [s1, s2]) ''NOT quantum-resistant end-to-end''"
    using p1 p2 by (simp add: honest_claim_def)
  then have claim: "contains (honest_claim [s1, s2]) ''NOT quantum-resistant end-to-end''"
    unfolding starts_with_iff contains_iff by (metis append_Nil)
  let ?rpt = "\<lparr>rp_report = ''pqc-self-report'', rp_surfaces = [s1, s2],
    rp_summary = \<lparr>sm_total_surfaces = 2, sm_quantum_resistant = 1, sm_classical = 1, sm_symmetric = 0\<rparr>,
    rp_honest_claim = honest_claim [s1, s2]\<rparr>"
  have rpt: "from_surfaces [s1, s2] = (Ok ?rpt :: (unit, report) result)"
    using p1 p2 by (simp add: from_surfaces_def assert_honest_def)
  obtain out where "pp (report_json ?rpt) = Some out" "parse out = Some (report_json ?rpt)"
    using assms by blast
  then show ?thesis
    using p1 p2 claim
    by (simp add: passes_def report_summary_counts_and_serialises_def REPORT_HYBRID_KEM_SUITE_def s1 s2 rpt
        honest_claim_honest report_to_json_def) (simp add: report_json_def summary_json_def surface_report_json_def json_index_def)
qed

text \<open>All tests of the module pass.\<close>

definition report_tests ::
  "(unit json \<Rightarrow> string option) \<Rightarrow> (string \<Rightarrow> unit json option) \<Rightarrow> ('e, unit) result list" where
  "report_tests pp parse =
     [classical_suite_is_never_quantum_resistant, unknown_suite_resolves_classical_not_qr,
      empty_suite_falls_back_to_classical_default, hybrid_l3_is_quantum_resistant_and_cites_fips203,
      hybrid_l2_oneshot_states_limited_fs, no_builder_ever_emits_a_forbidden_word,
      is_honest_note_catches_each_forbidden_word, conversation_envelope_vs_dm_components,
      report_summary_counts_and_serialises pp parse, parity_dm_l3_hybrid_note_vector,
      parity_dm_classical_note_vector]"

lemma report_tests_pass:
  assumes "\<And>v. \<exists>txt. pp v = Some txt \<and> parse txt = Some v"
  shows "list_all passes (report_tests pp parse)"
  by (simp add: report_tests_def report_surface_tests_pass report_sweep_passes report_text_tests_pass
      conversation_components_pass report_summary_passes [OF assms])

end
