(* ===== verification/Integration_Tests.thy ===== *)
theory Integration_Tests
  imports Testing Ratchet
begin

text \<open>
  The behavioural tests of the crate's public interface (\<open>tests/integration.rs\<close>), as they are written, and
  what their outcome is for every instance of the primitives.
\<close>

subsection \<open>The tests of the hybrid KEM\<close>

definition kem_wire_lengths_match_python :: "('w, 'z) crypto_scheme \<Rightarrow> ('w, 'e, unit) eff" where
  "kem_wire_lengths_match_python C =
     ebind (call (hybrid_keypair C)) (\<lambda>kp. lift (asserts
       [assert_eq (length (kp_public_key kp)) PUBLIC_KEY_LEN,
        assert_eq (length (kp_private_key kp)) PRIVATE_KEY_LEN,
        assert_eq PUBLIC_KEY_LEN 1216,
        assert_eq PRIVATE_KEY_LEN 2432,
        assert_eq CIPHERTEXT_LEN 1120]))"

definition kem_encap_decap_roundtrip_equal_secrets :: "('w, 'z) crypto_scheme \<Rightarrow> ('w, 'e, unit) eff" where
  "kem_encap_decap_roundtrip_equal_secrets C =
     ebind (call (hybrid_keypair C)) (\<lambda>kp.
     ebind (eunwrap (hybrid_encap C (kp_public_key kp))) (\<lambda>(ct, ss_enc).
     ebind (lift (asserts
       [assert_eq (length ct) CIPHERTEXT_LEN,
        assert_eq (length ss_enc) SHARED_SECRET_LEN])) (\<lambda>_.
     ebind (lift (expect_ok (hybrid_decap C ct (kp_private_key kp)))) (\<lambda>ss_dec.
     lift (assert_eq ss_enc ss_dec)))))"

definition kem_distinct_keypairs_distinct_secrets :: "('w, 'z) crypto_scheme \<Rightarrow> ('w, 'e, unit) eff" where
  "kem_distinct_keypairs_distinct_secrets C =
     ebind (call (hybrid_keypair C)) (\<lambda>a.
     ebind (call (hybrid_keypair C)) (\<lambda>b.
     ebind (eunwrap (hybrid_encap C (kp_public_key a))) (\<lambda>(ct_a, ss_a).
     ebind (eunwrap (hybrid_encap C (kp_public_key b))) (\<lambda>(ct_b, ss_b).
     lift (assert_ne ss_a ss_b)))))"

definition kem_rejects_wrong_length_public_key :: "('w, 'z) crypto_scheme \<Rightarrow> ('w, 'e, unit) eff" where
  "kem_rejects_wrong_length_public_key C =
     (let bad = replicate (PUBLIC_KEY_LEN - 1) 0 in
      ebind (eobserve (hybrid_encap C bad)) (\<lambda>r. lift (assert_true (is_err r))))"

definition kem_rejects_wrong_length_ciphertext :: "('w, 'z) crypto_scheme \<Rightarrow> ('w, 'e, unit) eff" where
  "kem_rejects_wrong_length_ciphertext C =
     ebind (call (hybrid_keypair C)) (\<lambda>kp.
     let bad = replicate (CIPHERTEXT_LEN - 1) 0 in
     lift (assert_true (is_err (hybrid_decap C bad (kp_private_key kp)))))"

subsection \<open>The tests of the key schedule\<close>

definition ES :: bytes where
  "ES = [0, 1, 2, 3, 4, 5, 6, 7, 8, 9, 10, 11, 12, 13, 14, 15, 16, 17, 18, 19, 20, 21, 22, 23, 24, 25,
     26, 27, 28, 29, 30, 31]"

definition ratchet_derive_is_deterministic :: "('w, 'z) crypto_scheme \<Rightarrow> ('e, unit) result" where
  "ratchet_derive_is_deterministic C =
     rbind (expect_ok (derive_dm_message_key C ES 7 3)) (\<lambda>k1.
     rbind (expect_ok (derive_dm_message_key C ES 7 3)) (\<lambda>k2. asserts
       [assert_eq k1 k2, assert_eq (length k1) 32]))"

definition ratchet_derive_index_distinct :: "('w, 'z) crypto_scheme \<Rightarrow> ('e, unit) result" where
  "ratchet_derive_index_distinct C =
     rbind (expect_ok (derive_dm_message_key C ES 7 3)) (\<lambda>k3.
     rbind (expect_ok (derive_dm_message_key C ES 7 4)) (\<lambda>k4. assert_ne k3 k4))"

definition ratchet_derive_epoch_distinct :: "('w, 'z) crypto_scheme \<Rightarrow> ('e, unit) result" where
  "ratchet_derive_epoch_distinct C =
     rbind (expect_ok (derive_dm_message_key C ES 0 0)) (\<lambda>a.
     rbind (expect_ok (derive_dm_message_key C ES 1 0)) (\<lambda>b. assert_ne a b))"

definition ratchet_rejects_wrong_length_secret :: "('w, 'z) crypto_scheme \<Rightarrow> ('e, unit) result" where
  "ratchet_rejects_wrong_length_secret C =
     (let bad = replicate 31 0 in assert_true (is_err (derive_dm_message_key C bad 0 0)))"

text \<open>The vectors of the Python implementation: epoch, index, key.\<close>

definition parity_cases :: "(u64 \<times> u64 \<times> string) list" where
  "parity_cases =
     [(7, 3, ''abca41b038c1565004c201741f896ae0c122fd8f6716ba4b85c850e5d163e6bc''),
      (7, 4, ''ee18766d0fb4c31b03bb544a300232008fee43197d177d584bbed77ebd497834''),
      (0, 0, ''976feb338842bce61bde060cc8559d66472e1c1c9edcfba3ae70cabb39e3f39a''),
      (1, 0, ''5cf5ac603c0e9dd2165bf583930e5a2b5549e3b98fd1057de3fead1184610422'')]"

definition ratchet_parity_with_python :: "text_codec \<Rightarrow> ('w, 'z) crypto_scheme \<Rightarrow> ('e, unit) result" where
  "ratchet_parity_with_python H C =
     for_each parity_cases (\<lambda>(epoch, index, expected_hex).
       rbind (expect_ok (derive_dm_message_key C ES epoch index)) (\<lambda>got.
       assert_eq (tc_encode H got) expected_hex))"

subsection \<open>The tests of the re-key bound\<close>

definition rekey_triggers_on_message_bound :: "(u64 \<Rightarrow> 'f :: {minus, ord, zero}) \<Rightarrow> ('e, unit) result" where
  "rekey_triggers_on_message_bound to_f64 = asserts
     [assert_true (\<not> should_rekey to_f64 (DEFAULT_REKEY_MSG_BOUND - 1) 0 0 DEFAULT_REKEY_MSG_BOUND DEFAULT_REKEY_AGE_SECONDS),
      assert_true (should_rekey to_f64 DEFAULT_REKEY_MSG_BOUND 0 0 DEFAULT_REKEY_MSG_BOUND DEFAULT_REKEY_AGE_SECONDS),
      assert_true (should_rekey to_f64 (DEFAULT_REKEY_MSG_BOUND + 5) 0 0 DEFAULT_REKEY_MSG_BOUND DEFAULT_REKEY_AGE_SECONDS)]"

definition rekey_triggers_on_age_bound :: "(u64 \<Rightarrow> 'f :: {minus, ord, zero, one}) \<Rightarrow> ('e, unit) result" where
  "rekey_triggers_on_age_bound to_f64 =
     (let age = to_f64 DEFAULT_REKEY_AGE_SECONDS in asserts
       [assert_true (\<not> should_rekey to_f64 0 0 (age - 1) DEFAULT_REKEY_MSG_BOUND DEFAULT_REKEY_AGE_SECONDS),
        assert_true (should_rekey to_f64 0 0 age DEFAULT_REKEY_MSG_BOUND DEFAULT_REKEY_AGE_SECONDS)])"

subsection \<open>Their outcomes\<close>

lemma encap_step:
  "hybrid_encap C pub w = (Ok x, w') \<Longrightarrow> ebind (eunwrap (hybrid_encap C pub)) k w = k x w'"
  by (rule unwrap_step)

lemma kem_tests_pass:
  assumes C: "crypto_ok C"
  shows "always_passes (kem_wire_lengths_match_python C)" "always_passes (kem_encap_decap_roundtrip_equal_secrets C)"
    "always_passes (kem_rejects_wrong_length_public_key C)" "always_passes (kem_rejects_wrong_length_ciphertext C)"
  unfolding always_passes_def
proof safe
  fix w
  obtain kp w1 where kp: "hybrid_keypair C w = (kp, w1)" by (metis surj_pair)
  show "fst (kem_wire_lengths_match_python C w) = Ok ()"
    using generated_pair_lengths [OF C drawn_pair [OF kp]]
    by (simp add: kem_wire_lengths_match_python_def draw_step [OF kp] len_simps)
  obtain ct ss w2 where e: "hybrid_encap C (kp_public_key kp) w1 = (Ok (ct, ss), w2)" "length ct = 1120" "length ss = 32"
    "hybrid_decap C ct (kp_private_key kp) = Ok ss"
    using hybrid_roundtrip [OF C drawn_pair [OF kp], of w1] by blast
  show "fst (kem_encap_decap_roundtrip_equal_secrets C w) = Ok ()"
    by (simp add: kem_encap_decap_roundtrip_equal_secrets_def draw_step [OF kp] encap_step [OF e(1)] e(2-4) len_simps)
  show "fst (kem_rejects_wrong_length_public_key C w) = Ok ()"
    by (simp add: kem_rejects_wrong_length_public_key_def eobserve_def ebind_def hybrid_encap_bad_length len_simps)
  show "fst (kem_rejects_wrong_length_ciphertext C w) = Ok ()"
    using hybrid_decap_cases [OF C, of "replicate 1119 0" "kp_private_key kp"]
    by (simp add: kem_rejects_wrong_length_ciphertext_def draw_step [OF kp] len_simps)
qed

lemma kem_distinct_outcome:
  assumes C: "crypto_ok C"
  shows "\<exists>(ss_a :: bytes) (ss_b :: bytes). length ss_a = 32 \<and> length ss_b = 32 \<and>
    fst (kem_distinct_keypairs_distinct_secrets C w) = assert_true (ss_a \<noteq> ss_b)"
proof -
  obtain a w1 where a: "hybrid_keypair C w = (a, w1)" by (metis surj_pair)
  obtain b w2 where b: "hybrid_keypair C w1 = (b, w2)" by (metis surj_pair)
  obtain ct ss w3 where e: "hybrid_encap C (kp_public_key a) w2 = (Ok (ct, ss), w3)" "length ss = 32"
    using hybrid_roundtrip [OF C drawn_pair [OF a], of w2] by blast
  obtain ct' ss' w4 where e': "hybrid_encap C (kp_public_key b) w3 = (Ok (ct', ss'), w4)" "length ss' = 32"
    using hybrid_roundtrip [OF C drawn_pair [OF b], of w3] by blast
  show ?thesis
    by (intro exI2 [of _ ss ss'])
      (simp add: kem_distinct_keypairs_distinct_secrets_def draw_step [OF a] draw_step [OF b] encap_step [OF e(1)]
        encap_step [OF e'(1)] e(2) e'(2))
qed

lemma ratchet_plain_tests_pass:
  assumes C: "crypto_ok C"
  shows "passes (ratchet_derive_is_deterministic C)" "passes (ratchet_rejects_wrong_length_secret C)"
proof -
  obtain k where "derive_dm_message_key C ES 7 3 = Ok k" "length k = 32"
    using derive_dm_Ok [OF C, of ES] by (auto simp: ES_def)
  then show "passes (ratchet_derive_is_deterministic C)"
    by (simp add: passes_def ratchet_derive_is_deterministic_def)
  show "passes (ratchet_rejects_wrong_length_secret C)"
    by (simp add: passes_def ratchet_rejects_wrong_length_secret_def derive_dm_message_key_def len_simps)
qed

lemma ratchet_distinct_outcomes:
  assumes C: "crypto_ok C"
  shows "ratchet_derive_index_distinct C =
      assert_true (derive_dm_message_key C ES 7 3 \<noteq> derive_dm_message_key C ES 7 4)"
    and "ratchet_derive_epoch_distinct C =
      assert_true (derive_dm_message_key C ES 0 0 \<noteq> derive_dm_message_key C ES 1 0)"
proof -
  have l: "length ES = 32" by (simp add: ES_def)
  obtain a b c d where "derive_dm_message_key C ES 7 3 = Ok a" "derive_dm_message_key C ES 7 4 = Ok b"
    "derive_dm_message_key C ES 0 0 = Ok c" "derive_dm_message_key C ES 1 0 = Ok d"
    using derive_dm_Ok [OF C l] by metis
  then show "ratchet_derive_index_distinct C =
      assert_true (derive_dm_message_key C ES 7 3 \<noteq> derive_dm_message_key C ES 7 4)"
    "ratchet_derive_epoch_distinct C =
      assert_true (derive_dm_message_key C ES 0 0 \<noteq> derive_dm_message_key C ES 1 0)"
    by (simp_all add: ratchet_derive_index_distinct_def ratchet_derive_epoch_distinct_def)
qed

text \<open>The parity test passes exactly when HKDF-SHA256 gives the four known answers.\<close>

lemma ratchet_parity_outcome:
  assumes C: "crypto_ok C" and H: "hex_ok H"
  shows "ratchet_parity_with_python H C = assert_true (\<forall>(epoch, index, hex) \<in> set parity_cases.
    known_answer C (lit ''skchat/dm-epoch/'' @ u64_be epoch) ES (lit ''skchat/dm-ratchet/msg/v1/'' @ u64_be index) hex)"
  unfolding ratchet_parity_with_python_def
proof (rule for_each_outcome)
  fix x :: "u64 \<times> u64 \<times> string"
  show "(case x of (epoch, index, hex) \<Rightarrow> rbind (expect_ok (derive_dm_message_key C ES epoch index)) (\<lambda>got.
        assert_eq (tc_encode H got) hex)) =
      assert_true (case x of (epoch, index, hex) \<Rightarrow>
        known_answer C (lit ''skchat/dm-epoch/'' @ u64_be epoch) ES (lit ''skchat/dm-ratchet/msg/v1/'' @ u64_be index) hex)"
    by (cases x) (simp add: derive_dm_message_key_def ES_def dm_salt_def dm_info_def EPOCH_SALT_PREFIX_def
        MSG_INFO_PREFIX_def len_simps known_answer_outcome [OF C H] del: lit_Cons)
qed

lemma rekey_tests_pass:
  assumes "exact_cast (to_f64 :: u64 \<Rightarrow> 'f :: linordered_idom)"
  shows "passes (rekey_triggers_on_message_bound to_f64)" "passes (rekey_triggers_on_age_bound to_f64)"
proof -
  have "to_f64 604800 = 604800" using assms [unfolded exact_cast_def, rule_format, of 604800] by simp
  then show "passes (rekey_triggers_on_message_bound to_f64)" "passes (rekey_triggers_on_age_bound to_f64)"
    by (simp_all add: passes_def rekey_triggers_on_message_bound_def rekey_triggers_on_age_bound_def should_rekey_iff
        DEFAULT_REKEY_MSG_BOUND_def DEFAULT_REKEY_AGE_SECONDS_def word_le_nat_alt)
qed

end
