(* ===== verification/Spec2Isabelle.thy ===== *)
theory Spec2Isabelle
  imports Key_Properties Group_Conversation Dm_Properties Dm_Channel Pqdm Pqroute Anon_Queue Report Bridge Dm_Isolation
    Dm_Counting Ratchet_Tests Group_Tests Dm_Tests Pqdm_Tests Pqroute_Tests Queue_Tests Registry_Tests Integration_Tests
begin

text \<open>
  Verification of the Rust crate \<open>sk_pqc\<close> (\<open>src/*.rs\<close>, bindings in \<open>wasm/src/lib.rs\<close>): the hybrid
  X25519 + ML-KEM-768 key encapsulation and what is built on it.

  Parts of the program, and the theories that model them.

  \<^item> \<open>Prelude\<close>: results with \<open>Ok\<close>, \<open>Err\<close> and \<open>Panic\<close> (a failed assertion, \<open>expect\<close> or slice), effects
    that thread the state of the world, methods with \<open>&mut self\<close> (\<open>rd\<close>, \<open>upd\<close>), slices, fixed-size
    arrays, big-endian integers, and the contract of a codec (locales \<open>codec\<close>, \<open>canonical_codec\<close>).
    \<open>Text\<close>: \<open>str\<close> operations, decimal numerals, \<open>base64\<close> and \<open>hex\<close> as text codecs.
    \<open>Json\<close>: the JSON value of \<open>serde_json\<close>, its map, the canonical encoder of \<open>src/pqroute.rs\<close>.
  \<^item> \<open>Crypto\<close>: the primitives of other crates (X25519, ML-KEM, HKDF, AES-GCM, HMAC, the random
    generator) as a record of functions, the documented laws they satisfy (\<open>crypto_ok\<close>: lengths, agreement
    of the two sides, correctness and the length limit of AES-GCM), and a concrete instance \<open>toy\<close>.
    No law says that anything is hard to break: the security properties have the form "this happens
    only with an AES-GCM forgery (an HMAC collision, an HKDF collision)", which the statement exhibits;
    that an argument matters for a derived key or a tag is stated as "no two values of it give the same
    result for every primitive that satisfies the laws".
  \<^item> \<open>Kem\<close> (\<open>src/kem.rs\<close>); \<open>Ratchet\<close> (\<open>src/ratchet.rs\<close>) and \<open>Group_Ratchet\<close> (\<open>src/group_ratchet.rs\<close>),
    which share the contracts of \<open>Ratchet_Interface\<close> (locales \<open>epoch_wrap\<close>, \<open>message_schedule\<close>,
    \<open>outbound_ratchet\<close>). \<open>Key_Properties\<close>: what they promise, and the HKDF input of every key of the crate. \<open>Group_Conversation\<close>: the group
    ratchet run by any number of members, as an inductive set of reachable states.
  \<^item> \<open>Dm_Token\<close>, \<open>Dm_Session\<close>, \<open>Dm_Snapshot\<close> (\<open>src/dm_session.rs\<close>): the frame and its token, seal and
    open, snapshot and restore. \<open>Dm_Delivery\<close>: runs, slots, reachable sessions. \<open>Dm_Draws\<close>: in which
    world of a run each epoch secret, key-agreement message and nonce is drawn. \<open>Dm_Properties\<close>:
    delivery, slots, branches, errors, healing. \<open>Dm_Counting\<close>: under a steady clock the epoch and index
    of every message, by its number. \<open>Dm_Isolation\<close>: epochs of a receiver are independent.
    \<open>Dm_Channel\<close>: two sessions, a network of tokens and
    restarts refine an abstract channel (locale \<open>simulation\<close>).
  \<^item> \<open>Pqdm\<close> (\<open>src/pqdm.rs\<close>) and \<open>Pqroute\<close> (\<open>src/pqroute.rs\<close>): hybrid sealing with a downgrade lock, and
    the envelope with an authenticated route header, both on the locale \<open>hybrid_box\<close>.
  \<^item> \<open>Anon_Queue\<close> (\<open>src/anon_queue.rs\<close>): queue ids, addresses, authenticator.
  \<^item> \<open>Suites\<close> (\<open>src/suites.rs\<close>) and \<open>Report\<close> (\<open>src/report.rs\<close>): the registry and the self-report.
  \<^item> \<open>Bindings\<close> (\<open>src/frb_api.rs\<close>, \<open>src/python.rs\<close>, \<open>wasm/src/lib.rs\<close>): the foreign-function surfaces
    (locale \<open>surface\<close>). \<open>Bridge\<close> (\<open>src/frb_generated.rs\<close>): the glue between Dart and the Dart surface,
    its wire types on the locales \<open>sse_codec\<close> and \<open>sse_canonical\<close>, its wire functions and dispatchers.
  \<^item> The unit tests of the sources and \<open>tests/integration.rs\<close>: \<open>Testing\<close> (assertions, \<open>unwrap\<close>, tests
    that draw random numbers), \<open>Ratchet_Tests\<close>, \<open>Group_Tests\<close>, \<open>Dm_Tests\<close>, \<open>Pqdm_Tests\<close>,
    \<open>Pqroute_Tests\<close>, \<open>Queue_Tests\<close>, \<open>Registry_Tests\<close> (\<open>src/suites.rs\<close>, \<open>src/report.rs\<close>) and
    \<open>Integration_Tests\<close>. A test is a definition that returns or panics, named as in the source; the
    lemmas give its outcome in every world and for every instance of the primitives.

  How code is read. A struct is a record, an enum a datatype with the source's constructors, \<open>u64\<close> and
  \<open>u32\<close> are words, \<open>usize\<close> is a natural number (on the 64-bit targets no length reaches its limit),
  bytes are lists of 8-bit words, \<open>str\<close> is a string of UTF-8 bytes. \<open>Result\<close> and panics are values; every
  early return and \<open>?\<close> is a branch. A \<open>HashMap\<close> is an association list with distinct keys in an
  arbitrary order, and the properties that matter are shown not to depend on that order. Counters wrap
  as release code does. \<open>f64\<close> is a type with the operations the code uses. \<open>OsRng\<close> and the clock read
  the world, an arbitrary state that every effectful call threads.

  What the lemmas show. Round trips: KEM, wrapped epoch secrets, tokens, sealed messages, envelopes,
  addresses, snapshots; canonical formats where the code has them. Error behaviour: every outcome on
  arbitrary input, and which input panics. Safety: slots are never reused, associated data binds slot,
  suite, parties and route header, the report never over-claims. Refinement: sessions implement a
  channel. Agreement: the members of a group epoch derive the same keys. Termination: the redraw loop of \<open>new_queue_pair\<close> is a \<open>partial_function\<close>, so a loop that
  never ends is \<open>None\<close>, and it returns exactly when some draw differs. Liveness: a sender re-keys within
  its message bound, each time to a secret drawn from the random generator while the first frame of the
  epoch is sealed. No law says that two draws differ; what is shown is which draw each secret is. Bounds: runs have at most \<open>2 ^ 64\<close> messages, so the epoch counter does not wrap,
  and messages at most \<open>GCM_MAX\<close> bytes, below the limit of AES-GCM; a vector crosses to Dart intact
  when it has fewer than \<open>2 ^ 31\<close> items. Tests: lengths, errors, round trips, counters, tokens and reports
  always pass. A test that flips a bit of a tag passes when AES-GCM accepts one tag only for given key, nonce,
  data and ciphertext (\<open>tag_unique\<close>, its specification); a test of a session when the clock does not
  reach the age bound while it runs (\<open>clock_steady\<close>). A test that compares two random draws or two derived
  keys passes exactly when they differ, a test that opens with another key, suite, party or header
  exactly when that does not open, and a parity vector exactly when HKDF-SHA256 or HMAC-SHA256 gives the
  bytes (\<open>known_answer\<close>): no hardness is assumed.

  Not modelled: \<open>src/lib.rs\<close> (module list); secrecy and computational hardness. Parameters,
  because their code is not in the repository: the primitives, \<open>serde_json\<close>'s parser and printers, the
  run time of \<open>flutter_rust_bridge\<close> and \<open>byteorder\<close>, the marshalling of PyO3 and wasm-bindgen, and the Unicode
  table behind the \<open>Debug\<close> text of a string.
\<close>

subsection \<open>The wire token\<close>

text \<open>
  C10: The wire token of a frame. Parsing what was written gives the frame back, for every frame whose
  fields fit their 32-bit lengths; whatever parses is the text of the frame it gives, so no frame has
  two tokens; and no text makes the parser panic.
\<close>

theorem token_roundtrip:
  assumes "text_codec_ok B"
  shows "(frame_fits f \<longrightarrow> from_token B (to_token B f) = Ok f) \<and>
    (from_token B t = Ok f \<longrightarrow> frame_fits f \<and> to_token B f = t) \<and> from_token B t \<noteq> Panic"
  using from_token_to_token [OF assms] from_token_OkD [OF assms] from_token_no_panic by blast

theorem token_roundtrip_witness:
  "from_token toy_codec (to_token toy_codec
     \<lparr>sf_epoch = 4, sf_index = 9, sf_nonce = replicate 12 1, sf_body = [0xAA], sf_kam = Some []\<rparr>) =
   Ok \<lparr>sf_epoch = 4, sf_index = 9, sf_nonce = replicate 12 1, sf_body = [0xAA], sf_kam = Some []\<rparr>"
  using token_roundtrip [OF toy_codec_ok,
    of "\<lparr>sf_epoch = 4, sf_index = 9, sf_nonce = replicate 12 1, sf_body = [0xAA], sf_kam = Some []\<rparr>"]
  by (simp add: frame_fits_def)

subsection \<open>Negotiation and the report\<close>

text \<open>The modules agree on the ids of the suites.\<close>

lemma suite_ids:
  "HYBRID_SUITE = SUITE_ID" "G_HYBRID_KEM_SUITE = SUITE_ID" "REPORT_HYBRID_KEM_SUITE = SUITE_ID"
  "CLASSICAL_SUITE = DEFAULT_CONVERSATION_SUITE" "DEFAULT_KEM_SUITE = DEFAULT_CONVERSATION_SUITE"
  by (simp_all add: HYBRID_SUITE_def G_HYBRID_KEM_SUITE_def REPORT_HYBRID_KEM_SUITE_def SUITE_ID_def
      CLASSICAL_SUITE_def DEFAULT_CONVERSATION_SUITE_def DEFAULT_KEM_SUITE_def)

lemma negotiated_known:
  "suite_or_default (negotiate_suite l r) = negotiate_suite l r"
  "get_suite (negotiate_suite l r) \<noteq> None"
  "is_quantum_resistant (negotiate_suite l r) \<longleftrightarrow> l \<and> r"
  by (auto simp: negotiate_suite_def HYBRID_SUITE_def CLASSICAL_SUITE_def suite_or_default_def get_suite_eq
      is_quantum_resistant_iff)

lemma dm_surface_ok:
  assumes "is_honest_note peer" "get_suite (suite_or_default n) \<noteq> None"
  shows "\<exists>s. dm_ratchet_surface_for n lev e peer = Ok s \<and> honest_surface (suite_or_default n) s"
  using assms is_honest_note_dm_note [of "suite_or_default n" lev e peer]
  by (auto simp: dm_ratchet_surface_for_def Let_def surface_from_eq resolve_suite_registry honest_surface_def)

lemma conversation_surface_ok:
  assumes "is_honest_note peer"
  shows "\<exists>s. conversation_surface_for n k peer = Ok s \<and> honest_surface (suite_or_default n) s"
  using assms conversation_note_honest [OF conversation_honest_upper(1)]
    conversation_note_honest [OF conversation_honest_upper(2)]
  by (cases k) (auto simp: conversation_surface_for_def Let_def surface_from_eq resolve_suite_registry honest_surface_def)

text \<open>
  C17: A negotiated suite is reported for what it is. Whatever the two sides support, the surfaces of the
  negotiated conversation name its suite, and read as quantum-resistant exactly when both sides
  support the hybrid, at every ratchet level; a one-sided downgrade reads as classical. The claim of a
  report over them is "all quantum-resistant" in the first case only.
\<close>

theorem negotiated_suite_reported:
  assumes "is_honest_note peer"
  shows "\<exists>s t rep. dm_ratchet_surface_for (negotiate_suite l r) lev e peer = (Ok s :: ('e, surface_report) result) \<and>
    conversation_surface_for (negotiate_suite l r) k peer = (Ok t :: ('e, surface_report) result) \<and>
    sr_active_suite s = negotiate_suite l r \<and> sr_active_suite t = negotiate_suite l r \<and>
    (sr_quantum_resistant s \<longleftrightarrow> l \<and> r) \<and> (sr_quantum_resistant t \<longleftrightarrow> l \<and> r) \<and>
    (sr_status s = ''classical'' \<longleftrightarrow> \<not> (l \<and> r)) \<and>
    from_surfaces [s, t] = (Ok rep :: ('e, report) result) \<and>
    (rp_honest_claim rep = ''All owned surfaces are quantum-resistant.'' \<longleftrightarrow> l \<and> r)"
proof -
  let ?n = "negotiate_suite l r"
  obtain s where s: "dm_ratchet_surface_for ?n lev e peer = (Ok s :: ('e, surface_report) result)" "honest_surface ?n s"
    using dm_surface_ok [OF assms, of ?n lev e] unfolding negotiated_known(1)
    using negotiated_known(2) by blast
  obtain t where t: "conversation_surface_for ?n k peer = (Ok t :: ('e, surface_report) result)" "honest_surface ?n t"
    using conversation_surface_ok [OF assms, of ?n k] unfolding negotiated_known(1) by blast
  have qr: "sr_quantum_resistant s \<longleftrightarrow> l \<and> r" "sr_quantum_resistant t \<longleftrightarrow> l \<and> r"
    using s(2) t(2) by (simp_all add: honest_surface_def negotiated_known(3))
  have cl: "sr_status s = ''classical'' \<longleftrightarrow> \<not> (l \<and> r)" "sr_status t = ''classical'' \<longleftrightarrow> \<not> (l \<and> r)"
    using honest_surface_classical [OF s(2)] honest_surface_classical [OF t(2)] qr by simp_all
  have "list_all (\<lambda>s. \<exists>i. honest_surface i s) [s, t]" using s(2) t(2) by auto
  from honest_surfaces_report [OF this, where 'e = 'e]
  obtain rep where "from_surfaces [s, t] = (Ok rep :: ('e, report) result)"
      "rp_honest_claim rep = honest_claim [s, t]" by blast
  moreover have "honest_claim [s, t] = ''All owned surfaces are quantum-resistant.'' \<longleftrightarrow> l \<and> r"
    unfolding honest_claim_all using qr by simp
  ultimately have "\<exists>rep. from_surfaces [s, t] = (Ok rep :: ('e, report) result) \<and>
      (rp_honest_claim rep = ''All owned surfaces are quantum-resistant.'' \<longleftrightarrow> l \<and> r)" by auto
  then show ?thesis using s t qr cl by (simp add: honest_surface_def)
qed

theorem negotiated_suite_reported_witness:
  "\<exists>s. dm_ratchet_surface_for (negotiate_suite True False) L3Epoch 4 ''bob'' = (Ok s :: (unit, surface_report) result) \<and>
     sr_status s = ''classical''"
proof -
  have "is_honest_note ''bob''" by code_simp
  from negotiated_suite_reported [OF this, of True False L3Epoch 4 Dm, where 'e = unit]
  show ?thesis by blast
qed

end
